(* ===== verification/KPrelude.thy ===== *)
theory KPrelude
  imports Main "HOL-Library.Word" "HOL-Library.Multiset"
begin

unbundle bit_operations_syntax

text \<open>
  Shared vocabulary of the development.

  Every module of the repository is C code that runs against the Linux kernel (or, for the
  user programs, against libc). None of that surrounding code is part of the repository, so it
  is never defined here. A component sees it through an \<^emph>\<open>environment\<close>: a record of functions,
  one per external routine, that is an argument of every definition that calls the routine. An
  environment function gets the routine's arguments and the whole history of external calls
  made so far, and answers with the routine's result; quantifying over environments therefore
  covers every behaviour of the outside, including one that depends on what happened before.

  The state of a component extends \<open>kst\<close>, whose only field \<open>evs\<close> is that history: the list of
  external calls in program order, each with its arguments and its result. \<open>kcall\<close> makes a call
  that returns something, \<open>kdo\<close> one that does not. Besides, the theory holds the C memory
  vocabulary (byte buffers, NUL-terminated strings, little-endian integers), the errno
  constants, and the locales for invariants of step relations and of operation sequences.
\<close>

type_synonym byte = "8 word"
type_synonym u16 = "16 word"
type_synonym u32 = "32 word"
type_synonym u64 = "64 word"

text \<open>\<^verbatim>\<open>unsigned long\<close> and pointers to user memory, of a 64-bit machine.\<close>

type_synonym ulong = u64
type_synonym addr = nat

named_theorems kdefs \<open>unfolding rules for external calls\<close>
named_theorems layout \<open>lengths and projections of byte layouts\<close>

section \<open>External calls and the history of calls\<close>

record 'e kst =
  evs :: "'e list"

definition kcall :: "('e list \<Rightarrow> 'r) \<Rightarrow> ('r \<Rightarrow> 'e) \<Rightarrow> ('e, 'z) kst_scheme \<Rightarrow> 'r \<times> ('e, 'z) kst_scheme" where
  "kcall ans mk s = (let r = ans (evs s) in (r, s\<lparr>evs := evs s @ [mk r]\<rparr>))"

definition kdo :: "'e \<Rightarrow> ('e, 'z) kst_scheme \<Rightarrow> ('e, 'z) kst_scheme" where
  "kdo e s = s\<lparr>evs := evs s @ [e]\<rparr>"

declare kcall_def [kdefs] kdo_def [kdefs] Let_def [kdefs]

lemma evs_kdo [simp]: "evs (kdo e s) = evs s @ [e]"
  by (simp add: kdefs)

lemma evs_kcall [simp]: "evs (snd (kcall ans mk s)) = evs s @ [mk (ans (evs s))]"
  by (simp add: kdefs)

lemma fst_kcall [simp]: "fst (kcall ans mk s) = ans (evs s)"
  by (simp add: kdefs)

section \<open>Result codes\<close>

text \<open>The error numbers of \<^verbatim>\<open>errno.h\<close> that the code returns.\<close>

abbreviation ENOMEM :: int where "ENOMEM \<equiv> 12"
abbreviation EFAULT :: int where "EFAULT \<equiv> 14"
abbreviation EINVAL :: int where "EINVAL \<equiv> 22"
abbreviation EOPNOTSUPP :: int where "EOPNOTSUPP \<equiv> 95"
abbreviation ECONNREFUSED :: int where "ECONNREFUSED \<equiv> 111"

text \<open>What stops the kernel for good: a dereferenced NULL pointer, a failed \<^verbatim>\<open>BUG_ON\<close>, an access to
  memory that was freed.\<close>

datatype fault = NullDeref | BugOn | UseAfterFree

text \<open>Netfilter: the verdict of a hook, protocol families, priorities and the hook points of IPv4 and of
  the bridge that the modules name.\<close>

datatype nf_verdict = NF_DROP | NF_ACCEPT

datatype nf_family = PF_INET | PF_BRIDGE

datatype nf_priority = PRI_UNSET | NF_IP_PRI_FIRST | NF_BR_PRI_FIRST

datatype nf_point = PRE_ROUTING | LOCAL_IN | FORWARD | LOCAL_OUT | POST_ROUTING

record 'f nf_hook_ops =
  hk_hook :: 'f
  hk_pf :: nf_family
  hk_hooknum :: nf_point
  hk_priority :: nf_priority

section \<open>C memory: buffers, strings, integers\<close>

text \<open>\<open>memcpy_at off dst src\<close>: the buffer \<open>dst\<close> after \<open>src\<close> was copied to offset \<open>off\<close>.\<close>

definition memcpy_at :: "nat \<Rightarrow> 'a list \<Rightarrow> 'a list \<Rightarrow> 'a list" where
  "memcpy_at off dst src = take off dst @ src @ drop (off + length src) dst"

lemma length_memcpy_at [layout, simp]:
  "off + length src \<le> length dst \<Longrightarrow> length (memcpy_at off dst src) = length dst"
  by (simp add: memcpy_at_def)

lemma memcpy_at_0 [layout]: "memcpy_at 0 dst src = src @ drop (length src) dst"
  by (simp add: memcpy_at_def)

lemma memcpy_at_read:
  assumes "off + length src \<le> length dst"
  shows "take (length src) (drop off (memcpy_at off dst src)) = src"
  using assms by (simp add: memcpy_at_def)

lemma memcpy_at_below:
  "n \<le> off \<Longrightarrow> off \<le> length dst \<Longrightarrow> take n (memcpy_at off dst src) = take n dst"
  by (simp add: memcpy_at_def)

lemma memcpy_at_above:
  "off + length src \<le> n \<Longrightarrow> off \<le> length dst \<Longrightarrow>
   drop n (memcpy_at off dst src) = drop n dst"
  by (simp add: memcpy_at_def)

text \<open>The C string that starts at the front of a buffer: the bytes before the first NUL.\<close>

definition cstr :: "byte list \<Rightarrow> byte list" where
  "cstr bs = takeWhile (\<lambda>b. b \<noteq> 0) bs"

definition strlen :: "byte list \<Rightarrow> nat" where
  "strlen bs = length (cstr bs)"

definition strncpy :: "nat \<Rightarrow> byte list \<Rightarrow> byte list" where
  "strncpy n src = take n (cstr src @ replicate n 0)"

lemma length_strncpy [layout, simp]: "length (strncpy n src) = n"
  by (simp add: strncpy_def)

lemma cstr_no_NUL: "0 \<notin> set (cstr bs)"
  by (auto simp: cstr_def dest: set_takeWhileD)

lemma cstr_id: "0 \<notin> set s \<Longrightarrow> cstr s = s"
  by (auto simp: cstr_def takeWhile_eq_all_conv)

lemma cstr_append_NUL [simp]: "cstr (s @ 0 # rest) = cstr s"
  by (induction s) (auto simp: cstr_def)

lemma cstr_append: "0 \<notin> set s \<Longrightarrow> cstr (s @ t) = s @ cstr t"
  by (induction s) (auto simp: cstr_def)

lemma cstr_append_terminated: "0 \<in> set s \<Longrightarrow> cstr (s @ t) = cstr s"
  by (induction s) (auto simp: cstr_def)

lemma strlen_bound: "0 \<in> set bs \<Longrightarrow> strlen bs < length bs"
  unfolding strlen_def cstr_def
  by (induction bs) auto

text \<open>A copied string that fits with its terminator reads back unchanged; one that does not fit
  leaves no terminator behind.\<close>

lemma cstr_strncpy_fits:
  assumes "0 \<notin> set s" and "length s < n"
  shows "cstr (strncpy n s) = s"
proof -
  obtain k where "n = length s + Suc k"
    using assms(2) by (metis add_Suc_right less_imp_Suc_add)
  then have "strncpy n s = s @ 0 # replicate k 0"
    using assms(1) by (simp add: strncpy_def cstr_id)
  then show ?thesis using assms(1) by (simp add: cstr_id)
qed

lemma strncpy_truncates:
  assumes "0 \<notin> set s" and "n \<le> length s"
  shows "strncpy n s = take n s"
  using assms by (simp add: strncpy_def cstr_id)

text \<open>Little-endian integers, the representation on the i686 machine the repository targets.\<close>

definition le16 :: "u16 \<Rightarrow> byte list" where
  "le16 w = [ucast w, ucast (drop_bit 8 w)]"

definition le32 :: "u32 \<Rightarrow> byte list" where
  "le32 w = [ucast w, ucast (drop_bit 8 w), ucast (drop_bit 16 w), ucast (drop_bit 24 w)]"

fun rd16 :: "byte list \<Rightarrow> u16" where
  "rd16 (a # b # _) = ucast a OR push_bit 8 (ucast b)"
| "rd16 _ = 0"

fun rd32 :: "byte list \<Rightarrow> u32" where
  "rd32 (a # b # c # d # _) =
     ucast a OR push_bit 8 (ucast b) OR push_bit 16 (ucast c) OR push_bit 24 (ucast d)"
| "rd32 _ = 0"

lemma length_le16 [layout, simp]: "length (le16 w) = 2"
  by (simp add: le16_def)

lemma length_le32 [layout, simp]: "length (le32 w) = 4"
  by (simp add: le32_def)

lemma rd16_le16 [simp]: "rd16 (le16 w @ rest) = w"
  by (rule bit_word_eqI) (auto simp: le16_def bit_simps)

lemma rd32_le32 [simp]: "rd32 (le32 w @ rest) = w"
proof (rule bit_word_eqI)
  fix n assume n: "n < LENGTH(32)"
  consider "n < 8" | "8 \<le> n" "n < 16" | "16 \<le> n" "n < 24" | "24 \<le> n"
    by linarith
  then show "bit (rd32 (le32 w @ rest)) n = bit w n"
    using n by cases (auto simp: le32_def bit_simps)
qed

text \<open>Network byte order of a 16-bit value, as the bytes that reach memory.\<close>

definition be16 :: "u16 \<Rightarrow> byte list" where
  "be16 w = [ucast (drop_bit 8 w), ucast w]"

lemma length_be16 [layout, simp]: "length (be16 w) = 2"
  by (simp add: be16_def)

section \<open>Interfaces shared by the components\<close>

text \<open>
  \<open>transition_system\<close>: a step relation with start states and a predicate that every step keeps.
  The components whose behaviour is an interleaving of several activities interpret it.
\<close>

locale transition_system =
  fixes start :: "'s \<Rightarrow> bool"
    and step :: "'s \<Rightarrow> 's \<Rightarrow> bool"
    and inv :: "'s \<Rightarrow> bool"
  assumes start_inv: "start s \<Longrightarrow> inv s"
    and step_inv: "inv s \<Longrightarrow> step s t \<Longrightarrow> inv t"
begin

lemma steps_inv: "step\<^sup>*\<^sup>* s t \<Longrightarrow> inv s \<Longrightarrow> inv t"
  by (induction rule: rtranclp_induct) (auto intro: step_inv)

lemma reachable_inv: "start s \<Longrightarrow> step\<^sup>*\<^sup>* s t \<Longrightarrow> inv t"
  by (rule steps_inv) (auto intro: start_inv)

end

text \<open>
  Infinite runs. A measure that no step increases and that a helpful step decreases brings a run to its goal, once and
  for all, if helpful steps keep coming until then: which steps those are is what fairness has to promise.
\<close>

locale fair_progress =
  fixes step :: "'s \<Rightarrow> 's \<Rightarrow> bool"
    and inv :: "'s \<Rightarrow> bool"
    and measure_of :: "'s \<Rightarrow> nat"
    and goal :: "'s \<Rightarrow> bool"
    and helpful :: "'s \<Rightarrow> 's \<Rightarrow> bool"
  assumes step_keeps_inv: "inv s \<Longrightarrow> step s t \<Longrightarrow> inv t"
    and step_mono: "inv s \<Longrightarrow> step s t \<Longrightarrow> measure_of t \<le> measure_of s"
    and helpful_less: "inv s \<Longrightarrow> \<not> goal s \<Longrightarrow> helpful s t \<Longrightarrow> measure_of t < measure_of s"
    and goal_stable: "inv s \<Longrightarrow> goal s \<Longrightarrow> step s t \<Longrightarrow> goal t"
begin

lemma run_inv: "inv (r 0) \<Longrightarrow> \<forall>i. step (r i) (r (Suc i)) \<Longrightarrow> inv (r i)"
  by (induction i) (auto intro: step_keeps_inv)

lemma run_measure: "inv (r 0) \<Longrightarrow> \<forall>i. step (r i) (r (Suc i)) \<Longrightarrow> i \<le> j \<Longrightarrow> measure_of (r j) \<le> measure_of (r i)"
proof (induction j)
  case (Suc j)
  then show ?case using step_mono [OF run_inv, of r j "r (Suc j)"] by (cases "i = Suc j") (auto intro: order_trans)
qed simp

lemma run_goal: "inv (r 0) \<Longrightarrow> \<forall>i. step (r i) (r (Suc i)) \<Longrightarrow> goal (r i) \<Longrightarrow> i \<le> j \<Longrightarrow> goal (r j)"
proof (induction j)
  case (Suc j)
  then show ?case using goal_stable [OF run_inv, of r j "r (Suc j)"] by (cases "i = Suc j") auto
qed simp

lemma fair_run_reaches:
  assumes "inv (r 0)" and "\<forall>i. step (r i) (r (Suc i))"
    and fair: "\<And>i. \<not> goal (r i) \<Longrightarrow> \<exists>j\<ge>i. goal (r j) \<or> helpful (r j) (r (Suc j))"
  shows "\<exists>n\<ge>i. goal (r n)"
proof (induction "measure_of (r i)" arbitrary: i rule: less_induct)
  case less
  show ?case
  proof (cases "goal (r i)")
    case False
    then obtain j where j: "i \<le> j" "goal (r j) \<or> helpful (r j) (r (Suc j))" using fair by blast
    show ?thesis
    proof (cases "goal (r j)")
      case False
      then have "measure_of (r (Suc j)) < measure_of (r j)" using helpful_less run_inv assms(1,2) j(2) by blast
      also have "\<dots> \<le> measure_of (r i)" by (rule run_measure [OF assms(1,2) j(1)])
      finally obtain n where "Suc j \<le> n" "goal (r n)" using less.hyps by blast
      with j(1) show ?thesis by (intro exI [of _ n]) simp
    qed (use j(1) in blast)
  qed blast
qed

end

text \<open>
  \<open>simulation\<close>: every step of an implementation is a step of its specification, or not visible there. Then every run of the
  implementation, state by state, is one of the specification.
\<close>

locale simulation =
  fixes rel :: "'s \<Rightarrow> 'a \<Rightarrow> bool"
    and impl :: "'s \<Rightarrow> 's \<Rightarrow> bool"
    and spec :: "'a \<Rightarrow> 'a \<Rightarrow> bool"
  assumes simulate: "rel s a \<Longrightarrow> impl s t \<Longrightarrow> \<exists>b. (b = a \<or> spec a b) \<and> rel t b"
begin

lemma simulate_run:
  assumes "rel (r 0) a0" and "\<forall>i<n. impl (r i) (r (Suc i))"
  shows "\<exists>a. a 0 = a0 \<and> (\<forall>i<n. a (Suc i) = a i \<or> spec (a i) (a (Suc i))) \<and> (\<forall>i\<le>n. rel (r i) (a i))"
  using assms(2)
proof (induction n)
  case 0
  with assms(1) show ?case by (intro exI [of _ "\<lambda>_. a0"]) simp
next
  case (Suc n)
  then obtain a where a: "a 0 = a0" "\<forall>i<n. a (Suc i) = a i \<or> spec (a i) (a (Suc i))" "\<forall>i\<le>n. rel (r i) (a i)" by auto
  have "rel (r n) (a n)" "impl (r n) (r (Suc n))" using a(3) Suc.prems by auto
  then obtain b where b: "b = a n \<or> spec (a n) b" "rel (r (Suc n)) b" using simulate by blast
  show ?case
  proof (intro exI [of _ "a(Suc n := b)"] conjI allI impI)
    show "(a(Suc n := b)) 0 = a0" using a(1) by simp
    fix i
    show "(a(Suc n := b)) (Suc i) = (a(Suc n := b)) i \<or> spec ((a(Suc n := b)) i) ((a(Suc n := b)) (Suc i))" if "i < Suc n"
      using a(2) b(1) that by (auto simp: less_Suc_eq)
    show "rel (r i) ((a(Suc n := b)) i)" if "i \<le> Suc n" using a(3) b(2) that by (auto simp: le_Suc_eq)
  qed
qed

end

text \<open>
  \<open>bounded_registry\<close>: a table of at most \<open>cap\<close> entries with an operation that adds a key and one
  that removes one occurrence of it. \<open>members\<close> is the multiset of the keys the table holds; the
  operations return 1 when they changed the table and 0 when they left it alone.
\<close>

locale bounded_registry =
  fixes join :: "'k \<Rightarrow> 's \<Rightarrow> int \<times> 's"
    and leave :: "'k \<Rightarrow> 's \<Rightarrow> int \<times> 's"
    and members :: "'s \<Rightarrow> 'k multiset"
    and ok :: "'s \<Rightarrow> bool"
    and valid :: "'k \<Rightarrow> bool"
    and cap :: nat
  assumes ok_bound: "ok s \<Longrightarrow> size (members s) \<le> cap"
    and join_room: "ok s \<Longrightarrow> valid k \<Longrightarrow> size (members s) < cap \<Longrightarrow>
      fst (join k s) = 1 \<and> ok (snd (join k s)) \<and> members (snd (join k s)) = add_mset k (members s)"
    and join_full: "ok s \<Longrightarrow> valid k \<Longrightarrow> size (members s) = cap \<Longrightarrow> join k s = (0, s)"
    and leave_in: "ok s \<Longrightarrow> valid k \<Longrightarrow> k \<in># members s \<Longrightarrow>
      fst (leave k s) = 1 \<and> ok (snd (leave k s)) \<and> members (snd (leave k s)) = members s - {#k#}"
    and leave_out: "ok s \<Longrightarrow> valid k \<Longrightarrow> k \<notin># members s \<Longrightarrow> leave k s = (0, s)"
begin

lemma join_keeps: "ok s \<Longrightarrow> valid k \<Longrightarrow> ok (snd (join k s))"
  using ok_bound [of s] join_room [of s k] join_full [of s k]
  by (cases "size (members s) < cap") auto

lemma leave_keeps: "ok s \<Longrightarrow> valid k \<Longrightarrow> ok (snd (leave k s))"
  using leave_in [of s k] leave_out [of s k] by (cases "k \<in># members s") auto

lemma join_then_leave:
  assumes "ok s" and "valid k" and "size (members s) < cap"
  shows "members (snd (leave k (snd (join k s)))) = members s"
  using join_room [OF assms] leave_in [of "snd (join k s)" k] assms(2) by simp

text \<open>The requests a client makes, one after the other: a join is \<open>Inl\<close>, a leave is \<open>Inr\<close>.\<close>

definition serve :: "'k + 'k \<Rightarrow> 's \<Rightarrow> 's" where
  "serve r s = (case r of Inl k \<Rightarrow> snd (join k s) | Inr k \<Rightarrow> snd (leave k s))"

definition serve_spec :: "'k + 'k \<Rightarrow> 'k multiset \<Rightarrow> 'k multiset" where
  "serve_spec r M = (case r of Inl k \<Rightarrow> if size M < cap then add_mset k M else M | Inr k \<Rightarrow> M - {#k#})"

definition valid_req :: "'k + 'k \<Rightarrow> bool" where
  "valid_req r = (case r of Inl k \<Rightarrow> valid k | Inr k \<Rightarrow> valid k)"

lemma serve_keeps: "ok s \<Longrightarrow> valid_req r \<Longrightarrow> ok (serve r s)"
  by (auto simp: serve_def valid_req_def join_keeps leave_keeps split: sum.splits)

lemma serve_members:
  assumes "ok s" and "valid_req r"
  shows "members (serve r s) = serve_spec r (members s)"
proof (cases r)
  case (Inl k)
  with assms ok_bound [of s] join_room [of s k] join_full [of s k] show ?thesis
    by (auto simp: serve_def serve_spec_def valid_req_def)
next
  case (Inr k)
  with assms leave_in [of s k] leave_out [of s k] show ?thesis
    by (cases "k \<in># members s") (auto simp: serve_def serve_spec_def valid_req_def diff_single_trivial)
qed

lemma serve_all_refines:
  assumes "ok s" and "list_all valid_req rs"
  shows "ok (fold serve rs s) \<and> members (fold serve rs s) = fold serve_spec rs (members s)"
  using assms by (induction rs arbitrary: s) (auto simp: serve_keeps serve_members)

end

text \<open>
  \<open>stored_value\<close>: a setting that one operation stores and another shows. The modules that keep a
  number or a string for the user interpret it.
\<close>

locale stored_value =
  fixes put :: "'v \<Rightarrow> 's \<Rightarrow> 's"
    and get :: "'s \<Rightarrow> 'w"
    and shown :: "'v \<Rightarrow> 'w"
    and ok :: "'s \<Rightarrow> bool"
    and valid :: "'v \<Rightarrow> bool"
  assumes put_ok: "ok s \<Longrightarrow> valid v \<Longrightarrow> ok (put v s)"
    and get_put: "ok s \<Longrightarrow> valid v \<Longrightarrow> get (put v s) = shown v"
begin

lemma puts_ok: "ok s \<Longrightarrow> list_all valid vs \<Longrightarrow> ok (fold put vs s)"
  by (induction vs arbitrary: s) (auto simp: put_ok)

lemma last_put_wins:
  assumes "ok s" and "list_all valid (vs @ [v])"
  shows "get (fold put (vs @ [v]) s) = shown v"
  using assms puts_ok [of s vs] get_put by simp

end

section \<open>More on buffers\<close>

lemma cstr_take: "length (cstr bs) < n \<Longrightarrow> cstr (take n bs) = cstr bs"
  unfolding cstr_def by (induction bs arbitrary: n) (auto simp: take_Cons split: nat.splits)

lemma cstr_pad: "cstr (bs @ replicate n 0) = cstr bs"
proof (cases "0 \<in> set bs")
  case True
  then show ?thesis by (rule cstr_append_terminated)
next
  case False
  then show ?thesis by (cases n) simp_all
qed

text \<open>Storing a terminator does not shorten a string that ends before it.\<close>

lemma cstr_update: "length (cstr bs) \<le> i \<Longrightarrow> cstr (bs[i := 0]) = cstr bs"
  unfolding cstr_def by (induction bs arbitrary: i) (auto split: nat.splits if_splits)

lemma take_Suc_strlen: "0 \<in> set bs \<Longrightarrow> take (strlen bs + 1) bs = cstr bs @ [0]"
  unfolding strlen_def cstr_def by (induction bs) auto

end
