(* ===== verification/Usrtab.thy ===== *)
theory Usrtab
  imports KPrelude
begin

text \<open>
  The table of user processes of \<^verbatim>\<open>netlink/netlink.c\<close>: the array \<^verbatim>\<open>usrtab\<close> of \<^verbatim>\<open>MAX_TAB_SIZE\<close> entries
  (a zero pid marks a free entry), the counter \<^verbatim>\<open>usrcnt\<close>, and the routines \<^verbatim>\<open>usertab_init\<close>,
  \<^verbatim>\<open>delete_all_user\<close>, \<^verbatim>\<open>user_leave\<close> and \<^verbatim>\<open>user_join\<close>. A pid is the 32-bit pattern the C \<^verbatim>\<open>int\<close> holds;
  the code only compares it for equality. The counter is an \<open>int\<close>: the invariant keeps it
  between 0 and 32, so the C increment and decrement never overflow.

  The table implements a bounded multiset of pids (the locale \<open>bounded_registry\<close>) as long as the
  pid 0 is never joined or left and the table is not wiped behind the counter's back; the last
  section shows what the two exceptions do.
\<close>

record usrconf =
  u_pid :: u32
  u_cmd :: u32

abbreviation MAX_TAB_SIZE :: nat where "MAX_TAB_SIZE \<equiv> 32"

record usrs =
  usrtab :: "usrconf list"
  usrcnt :: int

definition usertab_init :: "usrs \<Rightarrow> usrs" where
  "usertab_init s =
     s\<lparr>usrtab := fold (\<lambda>i t. t[i := (t ! i)\<lparr>u_pid := 0, u_cmd := 0\<rparr>]) [0..<MAX_TAB_SIZE] (usrtab s)\<rparr>"

definition delete_all_user :: "usrs \<Rightarrow> usrs" where
  "delete_all_user s = usertab_init s"

text \<open>The loop both routines below run: the first entry, from index \<open>i\<close> on, that holds the pid.\<close>

function find_pid :: "u32 \<Rightarrow> usrconf list \<Rightarrow> nat \<Rightarrow> nat option" where
  "find_pid p tab i =
     (if i < MAX_TAB_SIZE then if u_pid (tab ! i) = p then Some i else find_pid p tab (Suc i)
      else None)"
  by pat_completeness auto
termination
  by (relation "measure (\<lambda>(p, tab, i). MAX_TAB_SIZE - i)") auto

declare find_pid.simps [simp del]

definition user_leave :: "u32 \<Rightarrow> usrs \<Rightarrow> int \<times> usrs" where
  "user_leave p s =
     (if usrcnt s \<le> 0 then (0, s)
      else case find_pid p (usrtab s) 0 of
             Some i \<Rightarrow> (1, s\<lparr>usrtab := (usrtab s)[i := (usrtab s ! i)\<lparr>u_pid := 0\<rparr>],
                            usrcnt := usrcnt s - 1\<rparr>)
           | None \<Rightarrow> (0, s))"

definition user_join :: "u32 \<Rightarrow> usrs \<Rightarrow> int \<times> usrs" where
  "user_join p s =
     (if usrcnt s \<ge> int MAX_TAB_SIZE then (0, s)
      else case find_pid 0 (usrtab s) 0 of
             Some i \<Rightarrow> (1, s\<lparr>usrtab := (usrtab s)[i := (usrtab s ! i)\<lparr>u_pid := p\<rparr>],
                            usrcnt := usrcnt s + 1\<rparr>)
           | None \<Rightarrow> (0, s))"

section \<open>Abstraction and invariant\<close>

definition members :: "usrs \<Rightarrow> u32 multiset" where
  "members s = filter_mset (\<lambda>p. p \<noteq> 0) (mset (map u_pid (usrtab s)))"

definition usr_ok :: "usrs \<Rightarrow> bool" where
  "usr_ok s \<longleftrightarrow> length (usrtab s) = MAX_TAB_SIZE \<and> usrcnt s = int (size (members s))"

section \<open>The scan\<close>

lemma find_pid_SomeD: "find_pid p tab i = Some j \<Longrightarrow> i \<le> j \<and> j < MAX_TAB_SIZE \<and> u_pid (tab ! j) = p"
proof (induction p tab i rule: find_pid.induct)
  case (1 p tab i)
  then show ?case
    by (auto simp: find_pid.simps [of p tab i] split: if_splits)
qed

lemma find_pid_first: "find_pid p tab i = Some j \<Longrightarrow> i \<le> k \<Longrightarrow> k < j \<Longrightarrow> u_pid (tab ! k) \<noteq> p"
proof (induction p tab i rule: find_pid.induct)
  case (1 p tab i)
  then show ?case
    by (cases "i < MAX_TAB_SIZE"; cases "u_pid (tab ! i) = p"; cases "k = i")
      (auto simp: find_pid.simps [of p tab i])
qed

lemma find_pid_NoneD: "find_pid p tab i = None \<Longrightarrow> i \<le> k \<Longrightarrow> k < MAX_TAB_SIZE \<Longrightarrow> u_pid (tab ! k) \<noteq> p"
proof (induction p tab i rule: find_pid.induct)
  case (1 p tab i)
  then show ?case
    by (cases "i < MAX_TAB_SIZE"; cases "u_pid (tab ! i) = p"; cases "k = i")
      (auto simp: find_pid.simps [of p tab i])
qed

lemma find_pid_None_notin:
  assumes "find_pid p tab 0 = None" and "length tab = MAX_TAB_SIZE"
  shows "p \<notin> set (map u_pid tab)"
proof
  assume "p \<in> set (map u_pid tab)"
  then obtain k where "k < length tab" and "u_pid (tab ! k) = p"
    by (auto simp: in_set_conv_nth)
  with find_pid_NoneD [OF assms(1), of k] assms(2) show False by simp
qed

lemma members_update:
  assumes "i < length (usrtab s)"
  shows "members (s\<lparr>usrtab := (usrtab s)[i := (usrtab s ! i)\<lparr>u_pid := q\<rparr>], usrcnt := c\<rparr>) =
    filter_mset (\<lambda>p. p \<noteq> 0) (add_mset q (mset (map u_pid (usrtab s)) - {#u_pid (usrtab s ! i)#}))"
  using assms by (simp add: members_def map_update mset_update)

lemma members_bound: "usr_ok s \<Longrightarrow> size (members s) \<le> MAX_TAB_SIZE"
  using size_filter_mset_lesseq [of "\<lambda>p. p \<noteq> 0" "mset (map u_pid (usrtab s))"]
  by (simp add: members_def usr_ok_def)

lemma members_free_slot:
  assumes "usr_ok s" and "size (members s) < MAX_TAB_SIZE"
  shows "\<exists>i. find_pid 0 (usrtab s) 0 = Some i"
proof (rule ccontr)
  assume "\<not> ?thesis"
  then have "0 \<notin> set (map u_pid (usrtab s))"
    using assms(1) find_pid_None_notin [of 0 "usrtab s"] by (simp add: usr_ok_def)
  then have "members s = mset (map u_pid (usrtab s))"
    by (auto simp: members_def filter_mset_eq_conv)
  then have "size (members s) = MAX_TAB_SIZE"
    using assms(1) by (simp add: usr_ok_def)
  with assms(2) show False by simp
qed

section \<open>Functional behaviour of join and leave\<close>

lemma user_join_room:
  assumes "usr_ok s" and "p \<noteq> 0" and "size (members s) < MAX_TAB_SIZE"
  shows "fst (user_join p s) = 1 \<and> usr_ok (snd (user_join p s)) \<and>
    members (snd (user_join p s)) = add_mset p (members s)"
proof -
  obtain i where i: "find_pid 0 (usrtab s) 0 = Some i"
    using members_free_slot [OF assms(1,3)] by blast
  with find_pid_SomeD [OF i] assms(1) have slot: "i < length (usrtab s)" "u_pid (usrtab s ! i) = 0"
    by (auto simp: usr_ok_def)
  have mem: "members (snd (user_join p s)) = add_mset p (members s)"
    using assms slot i by (simp add: user_join_def members_update usr_ok_def)
      (simp add: members_def)
  with assms slot i show ?thesis
    by (auto simp: user_join_def usr_ok_def)
qed

lemma user_join_full:
  "usr_ok s \<Longrightarrow> size (members s) = MAX_TAB_SIZE \<Longrightarrow> user_join p s = (0, s)"
  by (simp add: user_join_def usr_ok_def)

lemma user_leave_in:
  assumes "usr_ok s" and "p \<noteq> 0" and "p \<in># members s"
  shows "fst (user_leave p s) = 1 \<and> usr_ok (snd (user_leave p s)) \<and>
    members (snd (user_leave p s)) = members s - {#p#}"
proof -
  have "p \<in> set (map u_pid (usrtab s))" using assms(3) by (auto simp: members_def)
  then obtain i where i: "find_pid p (usrtab s) 0 = Some i"
    using find_pid_None_notin [of p "usrtab s"] assms(1) by (auto simp: usr_ok_def)
  with find_pid_SomeD [OF i] assms(1) have slot: "i < length (usrtab s)" "u_pid (usrtab s ! i) = p"
    by (auto simp: usr_ok_def)
  have pos: "0 < size (members s)" using assms(3) by (auto simp: nonempty_has_size [symmetric])
  have mem: "members (snd (user_leave p s)) = members s - {#p#}"
    using assms slot i pos by (simp add: user_leave_def members_update usr_ok_def)
      (simp add: members_def)
  with assms slot i pos show ?thesis
    by (auto simp: user_leave_def usr_ok_def size_Diff_singleton)
qed

lemma user_leave_out:
  assumes "usr_ok s" and "p \<noteq> 0" and "p \<notin># members s"
  shows "user_leave p s = (0, s)"
proof (cases "find_pid p (usrtab s) 0")
  case None
  then show ?thesis by (simp add: user_leave_def)
next
  case (Some i)
  with find_pid_SomeD [OF Some] assms(1) have "i < length (usrtab s)" "u_pid (usrtab s ! i) = p"
    by (auto simp: usr_ok_def)
  then have "p \<in># members s" using assms(2) by (auto simp: members_def)
  with assms(3) show ?thesis by simp
qed

interpretation users: bounded_registry user_join user_leave members usr_ok "\<lambda>p. p \<noteq> 0" MAX_TAB_SIZE
  by unfold_locales
    (auto simp: user_join_room user_join_full user_leave_in user_leave_out members_bound)

section \<open>Initialisation and deletion of all users\<close>

lemma wipe_loop:
  "length t = n + k \<Longrightarrow>
   fold (\<lambda>i t. t[i := (t ! i)\<lparr>u_pid := 0, u_cmd := 0\<rparr>]) [0..<n] t =
     map (\<lambda>u. u\<lparr>u_pid := 0, u_cmd := 0\<rparr>) (take n t) @ drop n t"
proof (induction n arbitrary: k)
  case 0
  then show ?case by simp
next
  case (Suc n)
  have "fold (\<lambda>i t. t[i := (t ! i)\<lparr>u_pid := 0, u_cmd := 0\<rparr>]) [0..<n] t =
     map (\<lambda>u. u\<lparr>u_pid := 0, u_cmd := 0\<rparr>) (take n t) @ drop n t"
    using Suc.prems by (intro Suc.IH [of "Suc k"]) simp
  moreover have "drop n t = t ! n # drop (Suc n) t"
    using Suc.prems by (simp add: Cons_nth_drop_Suc)
  moreover have "take (Suc n) t = take n t @ [t ! n]"
    using Suc.prems by (simp add: take_Suc_conv_app_nth)
  ultimately show ?case using Suc.prems by (simp add: nth_append list_update_append)
qed

lemma usertab_init_tab:
  "length (usrtab s) = MAX_TAB_SIZE \<Longrightarrow>
   usrtab (usertab_init s) = map (\<lambda>u. u\<lparr>u_pid := 0, u_cmd := 0\<rparr>) (usrtab s)"
  using wipe_loop [of "usrtab s" MAX_TAB_SIZE 0] by (simp add: usertab_init_def)

lemma usertab_init_members:
  "length (usrtab s) = MAX_TAB_SIZE \<Longrightarrow> members (usertab_init s) = {#}"
  by (auto simp: members_def usertab_init_tab filter_mset_eq_mempty_iff)

lemma usertab_init_cnt [simp]: "usrcnt (usertab_init s) = usrcnt s"
  by (simp add: usertab_init_def)

lemma usertab_init_length: "length (usrtab (usertab_init s)) = length (usrtab s)"
proof -
  have "length (fold (\<lambda>i t. t[i := (t ! i)\<lparr>u_pid := 0, u_cmd := 0\<rparr>]) is t) = length t" for "is" t
    by (induction "is" arbitrary: t) auto
  then show ?thesis by (simp add: usertab_init_def)
qed

section \<open>Properties\<close>

text \<open>
  C6. Any sequence of joins (\<open>Inl\<close>) and leaves (\<open>Inr\<close>) of non-zero pids, from a table whose counter is
  right, is a sequence of operations on a multiset of at most 32 pids: a join adds the pid unless
  the multiset is full, a leave removes one occurrence. The counter stays the number of users.
\<close>

theorem user_table_refines_multiset:
  assumes "usr_ok s" and "\<forall>r\<in>set rs. r \<noteq> Inl 0 \<and> r \<noteq> Inr 0"
  shows "usr_ok (fold (\<lambda>r s. case r of Inl p \<Rightarrow> snd (user_join p s) | Inr p \<Rightarrow> snd (user_leave p s)) rs s) \<and>
    members (fold (\<lambda>r s. case r of Inl p \<Rightarrow> snd (user_join p s) | Inr p \<Rightarrow> snd (user_leave p s)) rs s) =
      fold (\<lambda>r M. case r of Inl p \<Rightarrow> if size M < MAX_TAB_SIZE then add_mset p M else M | Inr p \<Rightarrow> M - {#p#})
        rs (members s)"
proof -
  have "list_all users.valid_req rs"
    using assms(2) by (auto simp: list_all_iff users.valid_req_def split: sum.split)
  from users.serve_all_refines [OF assms(1) this] show ?thesis
    by (simp add: users.serve_def [abs_def] users.serve_spec_def [abs_def])
qed

definition demo_users :: usrs where
  "demo_users = \<lparr>usrtab = replicate MAX_TAB_SIZE \<lparr>u_pid = 0, u_cmd = 0\<rparr>, usrcnt = 0\<rparr>"

lemma demo_users_ok: "usr_ok demo_users \<and> members demo_users = {#}"
  by (simp add: demo_users_def usr_ok_def members_def)

theorem user_table_refines_multiset_witness:
  "members (fold (\<lambda>r s. case r of Inl p \<Rightarrow> snd (user_join p s) | Inr p \<Rightarrow> snd (user_leave p s))
     [Inl 7, Inl 9, Inl 7, Inr 9, Inr 5] demo_users) = {#7, 7#}"
  using user_table_refines_multiset [of demo_users "[Inl 7, Inl 9, Inl 7, Inr 9, Inr 5]"] demo_users_ok
  by simp

text \<open>
  The pid 0 marks a free entry, yet nothing keeps a message with pid 0 away: a join with pid 0
  succeeds on a table with room, adds no user and still counts one, so that the counter is wrong
  from then on.
\<close>

lemma user_join_pid_zero_miscounts:
  assumes "usr_ok s" and "size (members s) < MAX_TAB_SIZE"
  shows "fst (user_join 0 s) = 1 \<and> members (snd (user_join 0 s)) = members s \<and>
    usrcnt (snd (user_join 0 s)) = usrcnt s + 1 \<and> \<not> usr_ok (snd (user_join 0 s))"
proof -
  obtain i where i: "find_pid 0 (usrtab s) 0 = Some i"
    using members_free_slot [OF assms] by blast
  with find_pid_SomeD [OF i] assms(1) have slot: "i < length (usrtab s)" "u_pid (usrtab s ! i) = 0"
    by (auto simp: usr_ok_def)
  have mem: "members (snd (user_join 0 s)) = members s"
    using assms slot i by (simp add: user_join_def members_update usr_ok_def) (simp add: members_def)
  with assms i show ?thesis by (auto simp: user_join_def usr_ok_def)
qed

lemma user_join_pid_zero_miscounts_witness:
  "usrcnt (snd (user_join 0 demo_users)) = 1 \<and> members (snd (user_join 0 demo_users)) = {#}"
  using user_join_pid_zero_miscounts [of demo_users] demo_users_ok by (simp add: demo_users_def)

lemma user_leave_unknown:
  assumes "members s = {#}" and "length (usrtab s) = MAX_TAB_SIZE" and "p \<noteq> 0"
  shows "user_leave p s = (0, s)"
proof (cases "find_pid p (usrtab s) 0")
  case None
  then show ?thesis by (simp add: user_leave_def)
next
  case (Some i)
  then have "i < length (usrtab s)" "u_pid (usrtab s ! i) = p" using find_pid_SomeD [OF Some] assms(2) by auto
  then have "p \<in># members s" using assms(3) by (auto simp: members_def in_set_conv_nth intro!: image_eqI [of _ _ "usrtab s ! i"])
  with assms(1) show ?thesis by simp
qed

text \<open>
  \<^verbatim>\<open>delete_all_user\<close> clears the table and leaves the counter: once it ran on a full table, the table
  is empty and stays dead, since no sequence of joins and leaves of processes changes anything any more.
\<close>

lemma delete_all_user_locks_table:
  assumes "usr_ok s" and "size (members s) = MAX_TAB_SIZE" and "\<forall>r\<in>set rs. r \<noteq> Inl 0 \<and> r \<noteq> Inr 0"
  shows "members (delete_all_user s) = {#} \<and>
    fold (\<lambda>r u. case r of Inl p \<Rightarrow> snd (user_join p u) | Inr p \<Rightarrow> snd (user_leave p u)) rs (delete_all_user s) =
      delete_all_user s"
proof -
  have d: "members (delete_all_user s) = {#}" "length (usrtab (delete_all_user s)) = MAX_TAB_SIZE"
    "usrcnt (delete_all_user s) = 32"
    using assms(1,2) usertab_init_members [of s] usertab_init_length [of s]
    by (simp_all add: delete_all_user_def usr_ok_def)
  have "(case r of Inl p \<Rightarrow> snd (user_join p (delete_all_user s)) | Inr p \<Rightarrow> snd (user_leave p (delete_all_user s))) =
      delete_all_user s" if "r \<in> set rs" for r
  proof (cases r)
    case (Inl p)
    then show ?thesis using d(3) by (simp add: user_join_def)
  next
    case (Inr p)
    with that assms(3) have "p \<noteq> 0" by auto
    with Inr user_leave_unknown [OF d(1,2)] show ?thesis by simp
  qed
  then have "fold (\<lambda>r u. case r of Inl p \<Rightarrow> snd (user_join p u) | Inr p \<Rightarrow> snd (user_leave p u)) rs (delete_all_user s) =
      delete_all_user s"
    by (induction rs) simp_all
  with d(1) show ?thesis ..
qed

definition full_users :: usrs where
  "full_users = \<lparr>usrtab = replicate MAX_TAB_SIZE \<lparr>u_pid = 7, u_cmd = 0\<rparr>, usrcnt = 32\<rparr>"

lemma full_users_ok: "usr_ok full_users \<and> size (members full_users) = MAX_TAB_SIZE"
proof -
  have "members full_users = replicate_mset MAX_TAB_SIZE 7"
    by (auto simp: full_users_def members_def filter_mset_eq_conv)
  then show ?thesis by (simp add: usr_ok_def full_users_def)
qed

lemma delete_all_user_locks_table_witness:
  "members (delete_all_user full_users) = {#} \<and>
   fold (\<lambda>r u. case r of Inl p \<Rightarrow> snd (user_join p u) | Inr p \<Rightarrow> snd (user_leave p u)) [Inr 7, Inl 9] (delete_all_user full_users) =
     delete_all_user full_users"
  using delete_all_user_locks_table [of full_users "[Inr 7, Inl 9]"] full_users_ok by simp

end
