(* ===== verification/Nlmsg.thy ===== *)
theory Nlmsg
  imports KPrelude
begin

text \<open>
  Netlink messages as both \<^verbatim>\<open>netlink/netlink.c\<close> and \<^verbatim>\<open>netctrl/netctrl.c\<close> receive them, and the loop
  the two modules share: \<^verbatim>\<open>while (nlmsg_ok(nlh, len)) { ...; nlh = nlmsg_next(nlh, &len); }\<close>.

  The message macros belong to the kernel, so they are the parameter \<open>nlmsg_api\<close>: how a header is
  read at an offset of the received buffer, when a message is complete, and where the next one
  starts. \<open>nlmsg_laws\<close> states their documented behaviour. The loop is a \<open>partial_function\<close>, because
  it need not end for an arbitrary parameter; under the laws it ends and runs the handler once on
  every message of the buffer, in order (\<open>nl_walk_msgs\<close>). \<open>linux_nlmsg\<close> is the instance that shows
  the laws can hold.
\<close>

record nlmsghdr =
  nlmsg_len :: u32
  nlmsg_type :: u16
  nlmsg_flags :: u16
  nlmsg_seq :: u32
  nlmsg_pid :: u32

text \<open>Constants of netlink(7).\<close>

abbreviation NLM_F_ACK :: u16 where "NLM_F_ACK \<equiv> 4"
abbreviation NLM_F_MULTI :: u16 where "NLM_F_MULTI \<equiv> 2"
abbreviation NLMSG_DONE :: u16 where "NLMSG_DONE \<equiv> 3"
abbreviation NLMSG_ALIGNTO :: nat where "NLMSG_ALIGNTO \<equiv> 4"
abbreviation NLMSG_HDRLEN :: nat where "NLMSG_HDRLEN \<equiv> 16"

definition nl_align :: "nat \<Rightarrow> nat" where
  "nl_align n = (n + NLMSG_ALIGNTO - 1) div NLMSG_ALIGNTO * NLMSG_ALIGNTO"

record nlmsg_api =
  hdr_at :: "byte list \<Rightarrow> nat \<Rightarrow> nlmsghdr"
  msg_ok :: "nlmsghdr \<Rightarrow> int \<Rightarrow> bool"
  msg_next :: "nlmsghdr \<Rightarrow> nat \<Rightarrow> int \<Rightarrow> nat \<times> int"

partial_function (option) nl_walk ::
  "nlmsg_api \<Rightarrow> byte list \<Rightarrow> (nlmsghdr \<Rightarrow> nat \<Rightarrow> 's \<Rightarrow> 's) \<Rightarrow> nat \<Rightarrow> int \<Rightarrow> 's \<Rightarrow> 's option" where
  "nl_walk api bs handle pos rem s =
     (if msg_ok api (hdr_at api bs pos) rem
      then nl_walk api bs handle
             (fst (msg_next api (hdr_at api bs pos) pos rem))
             (snd (msg_next api (hdr_at api bs pos) pos rem))
             (handle (hdr_at api bs pos) pos s)
      else Some s)"

section \<open>The documented behaviour of the message macros\<close>

definition nlmsg_laws :: "nlmsg_api \<Rightarrow> bool" where
  "nlmsg_laws api \<longleftrightarrow>
     (\<forall>h rem. msg_ok api h rem \<longleftrightarrow>
        int NLMSG_HDRLEN \<le> rem \<and> NLMSG_HDRLEN \<le> unat (nlmsg_len h) \<and> int (unat (nlmsg_len h)) \<le> rem) \<and>
     (\<forall>h pos rem. msg_next api h pos rem =
        (pos + nl_align (unat (nlmsg_len h)), rem - int (nl_align (unat (nlmsg_len h)))))"

text \<open>The messages of a buffer, each with its offset. The fuel bounds their number; a buffer
  of \<open>n\<close> bytes has at most \<open>n\<close> of them.\<close>

fun nl_msgs :: "nlmsg_api \<Rightarrow> byte list \<Rightarrow> nat \<Rightarrow> nat \<Rightarrow> int \<Rightarrow> (nlmsghdr \<times> nat) list" where
  "nl_msgs api bs 0 pos rem = []"
| "nl_msgs api bs (Suc fuel) pos rem =
     (if msg_ok api (hdr_at api bs pos) rem
      then (hdr_at api bs pos, pos) #
           nl_msgs api bs fuel (pos + nl_align (unat (nlmsg_len (hdr_at api bs pos))))
             (rem - int (nl_align (unat (nlmsg_len (hdr_at api bs pos)))))
      else [])"

lemma nl_align_ge: "n \<le> nl_align n"
  by (simp add: nl_align_def)

lemma nl_align_lt: "nl_align n < n + NLMSG_ALIGNTO"
  by (simp add: nl_align_def)

lemma nl_align_dvd: "NLMSG_ALIGNTO dvd nl_align n"
  by (simp add: nl_align_def)

lemma msg_ok_iff:
  "nlmsg_laws api \<Longrightarrow> msg_ok api h rem \<longleftrightarrow>
     int NLMSG_HDRLEN \<le> rem \<and> NLMSG_HDRLEN \<le> unat (nlmsg_len h) \<and> int (unat (nlmsg_len h)) \<le> rem"
  by (simp add: nlmsg_laws_def)

lemma msg_next_eq:
  "nlmsg_laws api \<Longrightarrow> msg_next api h pos rem =
     (pos + nl_align (unat (nlmsg_len h)), rem - int (nl_align (unat (nlmsg_len h))))"
  by (simp add: nlmsg_laws_def)

lemma nl_walk_msgs:
  assumes "nlmsg_laws api" and "nat rem < fuel"
  shows "nl_walk api bs handle pos rem s =
    Some (fold (\<lambda>(h, p). handle h p) (nl_msgs api bs fuel pos rem) s)"
  using assms(2)
proof (induction fuel arbitrary: pos rem s)
  case 0
  then show ?case by simp
next
  case (Suc fuel)
  let ?h = "hdr_at api bs pos"
  let ?n = "nl_align (unat (nlmsg_len ?h))"
  show ?case
  proof (cases "msg_ok api ?h rem")
    case True
    then have "16 \<le> unat (nlmsg_len ?h)" and "16 \<le> rem"
      using msg_ok_iff [OF assms(1)] by auto
    then have "nat (rem - int ?n) < fuel"
      using nl_align_ge [of "unat (nlmsg_len ?h)"] Suc.prems by linarith
    from Suc.IH [OF this] show ?thesis
      using True by (simp add: nl_walk.simps [of api bs handle pos rem s] msg_next_eq [OF assms(1)])
  next
    case False
    then show ?thesis by (simp add: nl_walk.simps [of api bs handle pos rem s])
  qed
qed

lemma nl_msgs_in_bounds:
  assumes "nlmsg_laws api" and "(h, p) \<in> set (nl_msgs api bs fuel pos rem)"
  shows "pos \<le> p \<and> NLMSG_HDRLEN \<le> unat (nlmsg_len h) \<and>
    int p + int (unat (nlmsg_len h)) \<le> int pos + rem \<and> h = hdr_at api bs p"
  using assms(2)
proof (induction fuel arbitrary: pos rem)
  case 0
  then show ?case by simp
next
  case (Suc fuel)
  let ?n = "nl_align (unat (nlmsg_len (hdr_at api bs pos)))"
  from Suc.prems have ok: "msg_ok api (hdr_at api bs pos) rem"
    by (auto split: if_splits)
  show ?case
  proof (cases "(h, p) = (hdr_at api bs pos, pos)")
    case True
    with ok msg_ok_iff [OF assms(1)] show ?thesis by auto
  next
    case False
    with Suc.prems ok have "(h, p) \<in> set (nl_msgs api bs fuel (pos + ?n) (rem - int ?n))"
      by auto
    from Suc.IH [OF this] show ?thesis by auto
  qed
qed

section \<open>A handler that keeps an invariant\<close>

text \<open>
  \<open>msg_handler\<close>: what the shared loop needs of the module's handler, and what it gives back for
  any number of messages.
\<close>

locale msg_handler =
  fixes handle :: "byte list \<Rightarrow> nlmsghdr \<Rightarrow> nat \<Rightarrow> 's \<Rightarrow> 's"
    and inv :: "'s \<Rightarrow> bool"
  assumes handle_inv: "inv s \<Longrightarrow> inv (handle bs h p s)"
begin

lemma fold_inv: "inv s \<Longrightarrow> inv (fold (\<lambda>(h, p). handle bs h p) ms s)"
  by (induction ms arbitrary: s) (auto simp: handle_inv)

lemma walk_returns:
  assumes "nlmsg_laws api"
  shows "\<exists>s'. nl_walk api bs (handle bs) pos rem s = Some s'"
  by (simp add: nl_walk_msgs [OF assms lessI] del: nl_msgs.simps)

lemma walk_inv:
  assumes "nlmsg_laws api" and "inv s" and "nl_walk api bs (handle bs) pos rem s = Some s'"
  shows "inv s'"
  using nl_walk_msgs [OF assms(1), of rem "Suc (nat rem)" bs "handle bs" pos s] assms(3)
    fold_inv [OF assms(2)] by auto

end

section \<open>The instance for concrete inputs\<close>

definition linux_hdr_at :: "byte list \<Rightarrow> nat \<Rightarrow> nlmsghdr" where
  "linux_hdr_at bs pos =
     \<lparr>nlmsg_len = rd32 (drop pos bs), nlmsg_type = rd16 (drop (pos + 4) bs),
      nlmsg_flags = rd16 (drop (pos + 6) bs), nlmsg_seq = rd32 (drop (pos + 8) bs),
      nlmsg_pid = rd32 (drop (pos + 12) bs)\<rparr>"

definition linux_nlmsg :: nlmsg_api where
  "linux_nlmsg =
     \<lparr>hdr_at = linux_hdr_at,
      msg_ok = (\<lambda>h rem. 16 \<le> rem \<and> 16 \<le> unat (nlmsg_len h) \<and> int (unat (nlmsg_len h)) \<le> rem),
      msg_next = (\<lambda>h pos rem. (pos + nl_align (unat (nlmsg_len h)), rem - int (nl_align (unat (nlmsg_len h)))))\<rparr>"

lemma linux_nlmsg_laws: "nlmsg_laws linux_nlmsg"
  by (simp add: nlmsg_laws_def linux_nlmsg_def)

text \<open>A header laid out in memory reads back.\<close>

definition hdr_bytes :: "nlmsghdr \<Rightarrow> byte list" where
  "hdr_bytes h = le32 (nlmsg_len h) @ le16 (nlmsg_type h) @ le16 (nlmsg_flags h) @
     le32 (nlmsg_seq h) @ le32 (nlmsg_pid h)"

lemma length_hdr_bytes [layout, simp]: "length (hdr_bytes h) = NLMSG_HDRLEN"
  by (simp add: hdr_bytes_def)

lemma linux_hdr_at_bytes: "linux_hdr_at (pre @ hdr_bytes h @ rest) (length pre) = h"
  by (simp add: linux_hdr_at_def hdr_bytes_def)

text \<open>Reading a header where its fields were laid out gives them back.\<close>

definition hdr_law :: "nlmsg_api \<Rightarrow> bool" where
  "hdr_law api \<longleftrightarrow> (\<forall>h rest. hdr_at api (hdr_bytes h @ rest) 0 = h)"

lemma linux_hdr_law: "hdr_law linux_nlmsg"
  using linux_hdr_at_bytes [of "[]"] by (simp add: hdr_law_def linux_nlmsg_def)

lemma nl_msgs_stop: "\<not> msg_ok api (hdr_at api bs pos) rem \<Longrightarrow> nl_msgs api bs fuel pos rem = []"
  by (cases fuel) simp_all

text \<open>A buffer that is one message.\<close>

lemma nl_msgs_single:
  assumes api: "nlmsg_laws api" and h: "hdr_at api bs 0 = h"
    and u: "unat (nlmsg_len h) = length bs" and len: "NLMSG_HDRLEN \<le> length bs"
  shows "nl_msgs api bs (Suc (length bs)) 0 (int (length bs)) = [(h, 0)]"
proof -
  have "msg_ok api h (int (length bs))"
    by (subst msg_ok_iff [OF api]) (simp only: u, simp add: len)
  moreover have "\<not> msg_ok api g (int (length bs) - int (nl_align (length bs)))" for g
    using nl_align_ge [of "length bs"] msg_ok_iff [OF api] by simp
  ultimately show ?thesis
    unfolding nl_msgs.simps(2) h u by (simp add: nl_msgs_stop del: nl_msgs.simps)
qed

end
