(* ===== verification/Capbuf.thy ===== *)
theory Capbuf
  imports Usrtab Nlmsg
begin

text \<open>
  The state of \<^verbatim>\<open>netlink/netlink.c\<close>, the kernel routines it calls, and its two leaf components: the
  capture buffers with their free list (\<^verbatim>\<open>cap_buffer_free\<close>, \<^verbatim>\<open>cap_buffer_alloc\<close>, \<^verbatim>\<open>cap_make_reply\<close>) and
  the rate limiter (\<^verbatim>\<open>cap_rate_check\<close>).

  Capture buffers and socket buffers live in explicit stores (\<open>bufs\<close>, \<open>skbs\<close>), so that a pointer that
  is still used after its memory was given back shows. The kernel's linked list and its
  socket-buffer queue are environment functions; \<open>freelist\<close>, \<open>skbq\<close>, \<open>cb_live\<close> and \<open>skb_refs\<close> compute
  from the history what the documentation says they hold, and \<open>list_laws\<close>, \<open>queue_laws\<close>, \<open>alloc_laws\<close>
  and \<open>put_laws\<close> say that the environment answers accordingly. A NULL dereference is the result
  \<open>Inl NullDeref\<close>. The spin lock of the free list makes each access to it one step.
\<close>

datatype gfp = GFP_NONE | GFP_KERNEL | GFP_ATOMIC

abbreviation MAX_SKB_BUFSIZE :: nat where "MAX_SKB_BUFSIZE \<equiv> 2000"
abbreviation CAP_MAXFREE :: int where "CAP_MAXFREE \<equiv> 1024"

record cap_buffer =
  cb_skb :: "addr option"
  cb_data :: "addr option"
  cb_gfp :: gfp

text \<open>A netlink socket buffer: its message header, its payload area and its total length.\<close>

record nlskb =
  sk_hdr :: nlmsghdr
  sk_payload :: "byte list"
  sk_len :: nat

text \<open>The two hook functions of the module, as the address a hook registration stores.\<close>

datatype nl_hook = NoHook | Hook_func_queue | Hook_func

datatype nl_ev =
    Kmalloc_cb "addr option"
  | Kfree_cb addr
  | List_empty bool
  | List_next addr
  | List_del addr
  | List_add addr
  | Nlmsg_new nat "addr option"
  | Nlmsg_put addr u32 u32 u16 nat u16 "nlskb option"
  | Kfree_skb addr
  | Jiffies ulong
  | Skb_queue_head_init
  | Skb_queue_tail addr
  | Skb_dequeue "addr option"
  | Skb_queue_len nat
  | Wake_up_kcapd
  | Wake_up_backlog
  | Wait_kcapd
  | Skb_get addr
  | Netlink_unicast "addr option" addr "nlskb option" u32 int
  | Consume_skb addr
  | Kthread_should_stop bool
  | Kthread_run "int + addr"
  | Netlink_ack nat int
  | Netlink_kernel_create "addr option"
  | Netlink_kernel_release "addr option"
  | Nf_register_hook "nl_hook nf_hook_ops"
  | Nf_unregister_hook "nl_hook nf_hook_ops"

record nl_env =
  e_list_empty :: "nl_ev list \<Rightarrow> bool"
  e_list_next :: "nl_ev list \<Rightarrow> addr"
  e_kmalloc :: "nl_ev list \<Rightarrow> addr option"
  e_nlmsg_new :: "nat \<Rightarrow> nl_ev list \<Rightarrow> addr option"
  e_nlmsg_put :: "addr \<Rightarrow> u32 \<Rightarrow> u32 \<Rightarrow> u16 \<Rightarrow> nat \<Rightarrow> u16 \<Rightarrow> nl_ev list \<Rightarrow> nlskb option"
  e_jiffies :: "nl_ev list \<Rightarrow> ulong"
  e_HZ :: ulong
  e_dequeue :: "nl_ev list \<Rightarrow> addr option"
  e_qlen :: "nl_ev list \<Rightarrow> nat"
  e_unicast :: "addr option \<Rightarrow> addr \<Rightarrow> u32 \<Rightarrow> nl_ev list \<Rightarrow> int"
  e_should_stop :: "nl_ev list \<Rightarrow> bool"
  e_kthread_run :: "nl_ev list \<Rightarrow> int + addr"
  e_sock_create :: "nl_ev list \<Rightarrow> addr option"

record nl_st = "nl_ev kst" +
  bufs :: "addr \<Rightarrow> cap_buffer option"
  skbs :: "addr \<Rightarrow> nlskb option"
  cap_freelist_count :: int
  cap_nlk_portid :: u32
  users_tab :: usrs
  cap_rate_limit :: u32
  last_check :: ulong
  packets :: u32
  cap_backlog_limit :: u32
  kcapd_task :: "addr option"
  cap_sock :: "addr option"
  nfhk :: "nl_hook nf_hook_ops"

definition upd_buf :: "addr \<Rightarrow> (cap_buffer \<Rightarrow> cap_buffer) \<Rightarrow> nl_st \<Rightarrow> nl_st" where
  "upd_buf a f s = s\<lparr>bufs := (bufs s)(a := map_option f (bufs s a))\<rparr>"

definition upd_skb :: "addr \<Rightarrow> (nlskb \<Rightarrow> nlskb) \<Rightarrow> nl_st \<Rightarrow> nl_st" where
  "upd_skb k f s = s\<lparr>skbs := (skbs s)(k := map_option f (skbs s k))\<rparr>"

section \<open>Capture buffers\<close>

text \<open>\<^verbatim>\<open>cap_buffer_free\<close>: the guard in front of \<^verbatim>\<open>kfree_skb(cb->skb)\<close> is \<^verbatim>\<open>if (!cb)\<close>, so the only buffer it
  dereferences is NULL.\<close>

definition cap_buffer_free :: "addr option \<Rightarrow> nl_st \<Rightarrow> fault + nl_st" where
  "cap_buffer_free cb s =
     (case cb of
        None \<Rightarrow> Inl NullDeref
      | Some a \<Rightarrow>
          Inr (if cap_freelist_count s \<ge> CAP_MAXFREE
               then kdo (Kfree_cb a) (s\<lparr>bufs := (bufs s)(a := None)\<rparr>)
               else kdo (List_add a) (s\<lparr>cap_freelist_count := cap_freelist_count s + 1\<rparr>)))"

text \<open>The critical section of \<^verbatim>\<open>cap_buffer_alloc\<close> that takes the first buffer of the free list.\<close>

definition cap_freelist_pop :: "nl_env \<Rightarrow> nl_st \<Rightarrow> addr option \<times> nl_st" where
  "cap_freelist_pop env s =
     (let (e, s1) = kcall (e_list_empty env) List_empty s
      in if \<not> e
         then let (a, s2) = kcall (e_list_next env) List_next s1;
                  s3 = kdo (List_del a) s2
              in (Some a, s3\<lparr>cap_freelist_count := cap_freelist_count s3 - 1\<rparr>)
         else (None, s1))"

definition cap_buffer_get :: "nl_env \<Rightarrow> nl_st \<Rightarrow> addr option \<times> nl_st" where
  "cap_buffer_get env s =
     (case cap_freelist_pop env s of
        (Some a, s1) \<Rightarrow> (Some a, s1)
      | (None, s1) \<Rightarrow>
          (let (r, s2) = kcall (e_kmalloc env) Kmalloc_cb s1
           in case r of
                None \<Rightarrow> (None, s2)
              | Some a \<Rightarrow>
                  (Some a, s2\<lparr>bufs := (bufs s2)(a := Some \<lparr>cb_skb = None, cb_data = None, cb_gfp = GFP_NONE\<rparr>)\<rparr>)))"

text \<open>The error exit: the label \<^verbatim>\<open>err\<close>.\<close>

definition cap_buffer_err :: "addr option \<Rightarrow> nl_st \<Rightarrow> fault + (addr option \<times> nl_st)" where
  "cap_buffer_err cb s = (case cap_buffer_free cb s of Inl f \<Rightarrow> Inl f | Inr s' \<Rightarrow> Inr (None, s'))"

definition cap_buffer_alloc ::
  "nl_env \<Rightarrow> byte list \<Rightarrow> addr option \<Rightarrow> gfp \<Rightarrow> u16 \<Rightarrow> nl_st \<Rightarrow> fault + (addr option \<times> nl_st)" where
  "cap_buffer_alloc env pkt data gfp_mask type s =
     (case cap_buffer_get env s of
        (None, s1) \<Rightarrow> cap_buffer_err None s1
      | (Some a, s1) \<Rightarrow>
          (let s2 = upd_buf a (\<lambda>b. b\<lparr>cb_data := data, cb_gfp := gfp_mask\<rparr>) s1;
               (sk, s3) = kcall (e_nlmsg_new env MAX_SKB_BUFSIZE) (Nlmsg_new MAX_SKB_BUFSIZE) s2;
               s4 = upd_buf a (\<lambda>b. b\<lparr>cb_skb := sk\<rparr>) s3
           in case sk of
                None \<Rightarrow> cap_buffer_err (Some a) s4
              | Some k \<Rightarrow>
                  (let (m, s5) = kcall (e_nlmsg_put env k (cap_nlk_portid s4) 0 type (length pkt) 0)
                                       (Nlmsg_put k (cap_nlk_portid s4) 0 type (length pkt) 0) s4
                   in case m of
                        None \<Rightarrow>
                          cap_buffer_err (Some a) (upd_buf a (\<lambda>b. b\<lparr>cb_skb := None\<rparr>) (kdo (Kfree_skb k) s5))
                      | Some c \<Rightarrow>
                          Inr (Some a, s5\<lparr>skbs := (skbs s5)(k := Some (c\<lparr>sk_payload := memcpy_at 0 (sk_payload c) pkt\<rparr>))\<rparr>))))"

text \<open>\<^verbatim>\<open>cap_make_reply\<close>: a fresh message with a copy of the payload, or NULL.\<close>

definition cap_make_reply ::
  "nl_env \<Rightarrow> u32 \<Rightarrow> u32 \<Rightarrow> u16 \<Rightarrow> bool \<Rightarrow> bool \<Rightarrow> byte list \<Rightarrow> nl_st \<Rightarrow> addr option \<times> nl_st" where
  "cap_make_reply env portid sq type fin multi payload s =
     (let flags = (if multi then NLM_F_MULTI else 0);
          t = (if fin then NLMSG_DONE else type);
          (sk, s1) = kcall (e_nlmsg_new env (length payload)) (Nlmsg_new (length payload)) s
      in case sk of
           None \<Rightarrow> (None, s1)
         | Some k \<Rightarrow>
             (let (m, s2) = kcall (e_nlmsg_put env k portid sq t (length payload) flags)
                                  (Nlmsg_put k portid sq t (length payload) flags) s1
              in case m of
                   None \<Rightarrow> (None, kdo (Kfree_skb k) s2)
                 | Some c \<Rightarrow>
                     (Some k, s2\<lparr>skbs := (skbs s2)(k := Some (c\<lparr>sk_payload := memcpy_at 0 (sk_payload c) payload\<rparr>))\<rparr>)))"

section \<open>The rate limiter\<close>

text \<open>\<^verbatim>\<open>packets\<close> is an \<^verbatim>\<open>int\<close> that is compared with the unsigned limit, so both are 32-bit words; jiffies
  wrap around as well.\<close>

definition cap_rate_check :: "nl_env \<Rightarrow> nl_st \<Rightarrow> int \<times> nl_st" where
  "cap_rate_check env s =
     (if cap_rate_limit s = 0 then (1, s)
      else let s1 = s\<lparr>packets := packets s + 1\<rparr>
           in if packets s1 < cap_rate_limit s1 then (1, s1)
              else let (now, s2) = kcall (e_jiffies env) Jiffies s1;
                       elapsed = now - last_check s2
                   in if e_HZ env < elapsed then (1, s2\<lparr>last_check := now, packets := 0\<rparr>)
                      else (0, s2))"

section \<open>What the history says\<close>

fun fl_ev :: "nl_ev \<Rightarrow> addr list \<Rightarrow> addr list" where
  "fl_ev (List_add a) l = a # l"
| "fl_ev (List_del a) l = remove1 a l"
| "fl_ev _ l = l"

definition freelist :: "nl_ev list \<Rightarrow> addr list" where
  "freelist tr = fold fl_ev tr []"

fun q_ev :: "nl_ev \<Rightarrow> addr list \<Rightarrow> addr list" where
  "q_ev Skb_queue_head_init l = []"
| "q_ev (Skb_queue_tail k) l = l @ [k]"
| "q_ev (Skb_dequeue (Some k)) l = remove1 k l"
| "q_ev _ l = l"

definition skbq :: "nl_ev list \<Rightarrow> addr list" where
  "skbq tr = fold q_ev tr []"

fun live_ev :: "nl_ev \<Rightarrow> addr list \<Rightarrow> addr list" where
  "live_ev (Kmalloc_cb (Some a)) l = a # l"
| "live_ev (Kfree_cb a) l = remove1 a l"
| "live_ev _ l = l"

definition cb_live :: "nl_ev list \<Rightarrow> addr list" where
  "cb_live tr = fold live_ev tr []"

text \<open>The references to a socket buffer: a fresh one has one, \<^verbatim>\<open>skb_get\<close> takes one, sending it or
  freeing it gives one back.\<close>

fun ref_ev :: "addr \<Rightarrow> nl_ev \<Rightarrow> int \<Rightarrow> int" where
  "ref_ev k (Nlmsg_new _ (Some k')) n = (if k' = k then 1 else n)"
| "ref_ev k (Skb_get k') n = (if k' = k then n + 1 else n)"
| "ref_ev k (Netlink_unicast _ k' _ _ _) n = (if k' = k then n - 1 else n)"
| "ref_ev k (Consume_skb k') n = (if k' = k then n - 1 else n)"
| "ref_ev k (Kfree_skb k') n = (if k' = k then n - 1 else n)"
| "ref_ev k _ n = n"

definition skb_refs :: "nl_ev list \<Rightarrow> addr \<Rightarrow> int" where
  "skb_refs tr k = fold (ref_ev k) tr 0"

text \<open>The messages handed to the socket so far, each with its port and the result.\<close>

fun sent_ev :: "nl_ev \<Rightarrow> (nlskb option \<times> u32 \<times> int) list" where
  "sent_ev (Netlink_unicast sk k c p e) = [(c, p, e)]"
| "sent_ev _ = []"

definition sent :: "nl_ev list \<Rightarrow> (nlskb option \<times> u32 \<times> int) list" where
  "sent tr = concat (map sent_ev tr)"

lemma freelist_append [simp]: "freelist (tr @ es) = fold fl_ev es (freelist tr)"
  by (simp add: freelist_def)

lemma skbq_append [simp]: "skbq (tr @ es) = fold q_ev es (skbq tr)"
  by (simp add: skbq_def)

lemma cb_live_append [simp]: "cb_live (tr @ es) = fold live_ev es (cb_live tr)"
  by (simp add: cb_live_def)

lemma skb_refs_append [simp]: "skb_refs (tr @ es) k = fold (ref_ev k) es (skb_refs tr k)"
  by (simp add: skb_refs_def)

lemma sent_append [simp]: "sent (tr @ es) = sent tr @ concat (map sent_ev es)"
  by (simp add: sent_def)

section \<open>The documented behaviour of the environment\<close>

definition list_laws :: "nl_env \<Rightarrow> bool" where
  "list_laws env \<longleftrightarrow> (\<forall>tr. e_list_empty env tr = (freelist tr = []) \<and>
     (freelist tr \<noteq> [] \<longrightarrow> e_list_next env tr = hd (freelist tr)))"

definition queue_laws :: "nl_env \<Rightarrow> bool" where
  "queue_laws env \<longleftrightarrow> (\<forall>tr. e_dequeue env tr = (case skbq tr of [] \<Rightarrow> None | k # _ \<Rightarrow> Some k) \<and>
     e_qlen env tr = length (skbq tr))"

definition alloc_laws :: "nl_env \<Rightarrow> bool" where
  "alloc_laws env \<longleftrightarrow>
     (\<forall>tr a. e_kmalloc env tr = Some a \<longrightarrow> a \<notin> set (cb_live tr)) \<and>
     (\<forall>n tr k. e_nlmsg_new env n tr = Some k \<longrightarrow> skb_refs tr k = 0)"

text \<open>\<^verbatim>\<open>nlmsg_put\<close> writes the header it is told to and reserves room for the payload.\<close>

definition put_laws :: "nl_env \<Rightarrow> bool" where
  "put_laws env \<longleftrightarrow>
     (\<forall>k p sq t n fl tr c. e_nlmsg_put env k p sq t n fl tr = Some c \<longrightarrow>
        nlmsg_pid (sk_hdr c) = p \<and> nlmsg_type (sk_hdr c) = t \<and> nlmsg_flags (sk_hdr c) = fl \<and>
        length (sk_payload c) = nl_align n \<and> sk_len c = NLMSG_HDRLEN + nl_align n)"

section \<open>The free list and its counter\<close>

text \<open>
  \<open>fl_ok\<close>: the counter is the length of the free list and at most \<^verbatim>\<open>CAP_MAXFREE\<close>; the buffers on the
  list are different, and they and all buffers in use are allocated. \<open>held s a\<close>: the code holds the
  buffer \<open>a\<close>, that is, it is allocated and not on the list.
\<close>

definition fl_ok :: "nl_st \<Rightarrow> bool" where
  "fl_ok s \<longleftrightarrow>
     cap_freelist_count s = int (length (freelist (evs s))) \<and> cap_freelist_count s \<le> CAP_MAXFREE \<and>
     distinct (freelist (evs s)) \<and> distinct (cb_live (evs s)) \<and>
     set (freelist (evs s)) \<subseteq> set (cb_live (evs s)) \<and>
     (\<forall>a. bufs s a \<noteq> None \<longleftrightarrow> a \<in> set (cb_live (evs s)))"

definition held :: "nl_st \<Rightarrow> addr \<Rightarrow> bool" where
  "held s a \<longleftrightarrow> a \<in> set (cb_live (evs s)) \<and> a \<notin> set (freelist (evs s))"

text \<open>\<open>same_rest\<close>: the operations on buffers leave the rest of the module's state alone.\<close>

definition same_rest :: "nl_st \<Rightarrow> nl_st \<Rightarrow> bool" where
  "same_rest s t \<longleftrightarrow>
     cap_nlk_portid t = cap_nlk_portid s \<and> users_tab t = users_tab s \<and>
     cap_rate_limit t = cap_rate_limit s \<and> last_check t = last_check s \<and> packets t = packets s \<and>
     cap_backlog_limit t = cap_backlog_limit s \<and> kcapd_task t = kcapd_task s \<and>
     cap_sock t = cap_sock s \<and> nfhk t = nfhk s \<and> skbq (evs t) = skbq (evs s) \<and>
     sent (evs t) = sent (evs s)"

lemma same_rest_refl [simp]: "same_rest s s"
  by (simp add: same_rest_def)

lemma same_rest_trans [trans]: "same_rest s t \<Longrightarrow> same_rest t u \<Longrightarrow> same_rest s u"
  by (simp add: same_rest_def)

lemma fl_ok_upd_buf [simp]: "fl_ok (upd_buf a f s) = fl_ok s"
  by (auto simp: fl_ok_def upd_buf_def)

lemma held_upd_buf [simp]: "held (upd_buf b f s) a = held s a"
  by (simp add: held_def upd_buf_def)

lemma evs_upd_buf [simp]: "evs (upd_buf b f s) = evs s"
  by (simp add: upd_buf_def)

lemma skbs_upd_buf [simp]: "skbs (upd_buf b f s) = skbs s"
  by (simp add: upd_buf_def)

lemma same_rest_upd_buf [simp]: "same_rest s (upd_buf b f t) = same_rest s t"
  by (simp add: same_rest_def upd_buf_def)

lemma fl_ok_kdo [simp]:
  "(\<And>l. fl_ev e l = l) \<Longrightarrow> (\<And>l. live_ev e l = l) \<Longrightarrow> fl_ok (kdo e s) = fl_ok s"
  by (simp add: fl_ok_def kdefs)

lemma held_kdo [simp]:
  "(\<And>l. fl_ev e l = l) \<Longrightarrow> (\<And>l. live_ev e l = l) \<Longrightarrow> held (kdo e s) a = held s a"
  by (simp add: held_def)

lemma same_rest_kdo [simp]:
  "(\<And>l. q_ev e l = l) \<Longrightarrow> sent_ev e = [] \<Longrightarrow> same_rest s (kdo e t) = same_rest s t"
  by (simp add: same_rest_def kdefs)

lemma bufs_kdo [simp]: "bufs (kdo e s) = bufs s"
  by (simp add: kdefs)

lemma skbs_kdo [simp]: "skbs (kdo e s) = skbs s"
  by (simp add: kdefs)

lemma fl_ok_skbs [simp]: "fl_ok (s\<lparr>skbs := m\<rparr>) = fl_ok s"
  by (simp add: fl_ok_def)

lemma held_skbs [simp]: "held (s\<lparr>skbs := m\<rparr>) a = held s a"
  by (simp add: held_def)

lemma same_rest_skbs [simp]: "same_rest s (t\<lparr>skbs := m\<rparr>) = same_rest s t"
  by (simp add: same_rest_def)

lemma cap_freelist_pop_spec:
  assumes "list_laws env" and "fl_ok s" and "cap_freelist_pop env s = (r, s')"
  shows "fl_ok s' \<and> same_rest s s' \<and> skbs s' = skbs s \<and>
    (\<forall>k. skb_refs (evs s') k = skb_refs (evs s) k) \<and>
    (case r of None \<Rightarrow> freelist (evs s) = [] \<and> freelist (evs s') = [] \<and> cb_live (evs s') = cb_live (evs s)
             | Some a \<Rightarrow> freelist (evs s) = a # freelist (evs s') \<and> held s' a)"
proof (cases "freelist (evs s)")
  case Nil
  with assms show ?thesis
    by (auto simp: cap_freelist_pop_def list_laws_def kdefs fl_ok_def same_rest_def)
next
  case (Cons a l)
  with assms show ?thesis
    by (auto simp: cap_freelist_pop_def list_laws_def kdefs fl_ok_def same_rest_def held_def)
qed

lemma cap_buffer_get_spec:
  assumes "list_laws env" and "alloc_laws env" and "fl_ok s" and "cap_buffer_get env s = (r, s')"
  shows "fl_ok s' \<and> same_rest s s' \<and> skbs s' = skbs s \<and>
    (\<forall>k. skb_refs (evs s') k = skb_refs (evs s) k) \<and>
    (r = None \<longrightarrow> freelist (evs s) = [] \<and> last (evs s') = Kmalloc_cb None) \<and>
    (\<forall>a. r = Some a \<longrightarrow> held s' a)"
proof (cases "cap_freelist_pop env s")
  case (Pair p s1)
  note pop = cap_freelist_pop_spec [OF assms(1,3) Pair]
  show ?thesis
  proof (cases p)
    case (Some a)
    with Pair pop assms(4) show ?thesis by (auto simp: cap_buffer_get_def)
  next
    case None
    with pop assms(2) have fresh: "e_kmalloc env (evs s1) = Some a \<Longrightarrow> a \<notin> set (cb_live (evs s1))" for a
      unfolding alloc_laws_def by blast
    show ?thesis
    proof (cases "e_kmalloc env (evs s1)")
      case None
      with \<open>p = None\<close> Pair pop assms(4) show ?thesis
        by (auto simp: cap_buffer_get_def kdefs fl_ok_def same_rest_def)
    next
      case (Some a)
      let ?b = "\<lparr>cb_skb = None, cb_data = None, cb_gfp = GFP_NONE\<rparr>"
      from Some \<open>p = None\<close> Pair assms(4)
      have "r = Some a" and "s' = s1\<lparr>evs := evs s1 @ [Kmalloc_cb (Some a)], bufs := (bufs s1)(a := Some ?b)\<rparr>"
        by (auto simp: cap_buffer_get_def kdefs)
      with pop fresh [OF Some] \<open>p = None\<close> show ?thesis
        by (auto simp: fl_ok_def same_rest_def held_def)
    qed
  qed
qed

lemma cap_buffer_free_spec:
  assumes "fl_ok s" and "held s a"
  shows "\<exists>s'. cap_buffer_free (Some a) s = Inr s' \<and> fl_ok s' \<and> same_rest s s' \<and> skbs s' = skbs s \<and>
    (\<forall>k. skb_refs (evs s') k = skb_refs (evs s) k)"
proof (cases "cap_freelist_count s \<ge> CAP_MAXFREE")
  case True
  with assms show ?thesis
    by (auto simp: cap_buffer_free_def fl_ok_def held_def same_rest_def kdefs)
next
  case False
  with assms show ?thesis
    by (auto simp: cap_buffer_free_def fl_ok_def held_def same_rest_def kdefs)
qed

text \<open>\<open>frame_skb s t k\<close>: every socket buffer but \<open>k\<close> has the same contents and references.\<close>

definition frame_skb :: "nl_st \<Rightarrow> nl_st \<Rightarrow> addr \<Rightarrow> bool" where
  "frame_skb s t k \<longleftrightarrow>
     (\<forall>j. j \<noteq> k \<longrightarrow> skbs t j = skbs s j \<and> skb_refs (evs t) j = skb_refs (evs s) j)"

lemma cap_buffer_err_spec:
  assumes "fl_ok s" and "held s a"
  shows "\<exists>s'. cap_buffer_err (Some a) s = Inr (None, s') \<and> fl_ok s' \<and> same_rest s s' \<and> skbs s' = skbs s \<and>
    (\<forall>k. skb_refs (evs s') k = skb_refs (evs s) k)"
  using cap_buffer_free_spec [OF assms] by (auto simp: cap_buffer_err_def)

text \<open>A message the code has built in the fresh socket buffer \<open>k\<close> for the packet \<open>pkt\<close>.\<close>

definition carries :: "nl_st \<Rightarrow> addr \<Rightarrow> u32 \<Rightarrow> u16 \<Rightarrow> byte list \<Rightarrow> bool" where
  "carries s k p t pkt \<longleftrightarrow>
     (\<exists>c. skbs s k = Some c \<and> take (length pkt) (sk_payload c) = pkt \<and>
        length (sk_payload c) = nl_align (length pkt) \<and> sk_len c = NLMSG_HDRLEN + nl_align (length pkt) \<and>
        nlmsg_pid (sk_hdr c) = p \<and> nlmsg_type (sk_hdr c) = t)"

lemma put_lawsD:
  assumes "put_laws env" and "e_nlmsg_put env k p sq t (length pkt) fl tr = Some c"
  shows "nlmsg_pid (sk_hdr c) = p \<and> nlmsg_type (sk_hdr c) = t \<and>
    take (length pkt) (memcpy_at 0 (sk_payload c) pkt) = pkt \<and>
    length (memcpy_at 0 (sk_payload c) pkt) = nl_align (length pkt) \<and>
    sk_len c = NLMSG_HDRLEN + nl_align (length pkt)"
proof -
  have "length (sk_payload c) = nl_align (length pkt)" and
    "sk_len c = NLMSG_HDRLEN + nl_align (length pkt)" and
    "nlmsg_pid (sk_hdr c) = p" and "nlmsg_type (sk_hdr c) = t"
    using assms unfolding put_laws_def by blast+
  then show ?thesis using nl_align_ge [of "length pkt"] by (simp add: memcpy_at_0)
qed

lemma cap_buffer_alloc_none:
  assumes "cap_buffer_get env s = (None, s1)"
  shows "cap_buffer_alloc env pkt data g t s = Inl NullDeref"
  using assms by (simp add: cap_buffer_alloc_def cap_buffer_err_def cap_buffer_free_def)

text \<open>\<open>built s s' a k p t pkt\<close>: from \<open>s\<close> to \<open>s'\<close> the code got hold of the buffer \<open>a\<close>, which owns the fresh
  socket buffer \<open>k\<close> with a message for \<open>pkt\<close>.\<close>

definition built :: "nl_st \<Rightarrow> nl_st \<Rightarrow> addr \<Rightarrow> addr \<Rightarrow> u32 \<Rightarrow> u16 \<Rightarrow> byte list \<Rightarrow> bool" where
  "built s s' a k p t pkt \<longleftrightarrow>
     held s' a \<and> (\<exists>b. bufs s' a = Some b \<and> cb_skb b = Some k) \<and> frame_skb s s' k \<and>
     skb_refs (evs s) k = 0 \<and> skb_refs (evs s') k = 1 \<and> carries s' k p t pkt"

text \<open>\<open>unbuilt s s'\<close>: no message was built, and no socket buffer is lost or left over.\<close>

definition unbuilt :: "nl_st \<Rightarrow> nl_st \<Rightarrow> bool" where
  "unbuilt s s' \<longleftrightarrow> fl_ok s' \<and> same_rest s s' \<and> skbs s' = skbs s \<and> (\<forall>k. skb_refs (evs s') k = skb_refs (evs s) k)"

lemma cap_buffer_err_unbuilt:
  assumes "fl_ok s1" and "held s1 a" and "same_rest s s1" and "skbs s1 = skbs s"
    and "\<And>k. skb_refs (evs s1) k = skb_refs (evs s) k"
  shows "\<exists>s'. cap_buffer_err (Some a) s1 = Inr (None, s') \<and> unbuilt s s'"
proof -
  obtain s' where "cap_buffer_err (Some a) s1 = Inr (None, s')" "fl_ok s'" "same_rest s1 s'"
    "skbs s' = skbs s1" "\<forall>k. skb_refs (evs s') k = skb_refs (evs s1) k"
    using cap_buffer_err_spec [OF assms(1,2)] by blast
  then show ?thesis using assms(4,5) same_rest_trans [OF assms(3)] by (auto simp: unbuilt_def)
qed

text \<open>The state after \<^verbatim>\<open>nlmsg_new\<close> and the assignment of its result to \<^verbatim>\<open>cb->skb\<close>.\<close>

definition after_new :: "nl_env \<Rightarrow> addr \<Rightarrow> addr option \<Rightarrow> gfp \<Rightarrow> nl_st \<Rightarrow> nl_st" where
  "after_new env a data g s1 =
     (let sk = e_nlmsg_new env MAX_SKB_BUFSIZE (evs s1)
      in upd_buf a (\<lambda>b. b\<lparr>cb_skb := sk\<rparr>) (kdo (Nlmsg_new MAX_SKB_BUFSIZE sk)
           (upd_buf a (\<lambda>b. b\<lparr>cb_data := data, cb_gfp := g\<rparr>) s1)))"

lemma after_new_spec:
  fixes data :: "addr option" and g :: gfp
  assumes "list_laws env" and "alloc_laws env" and "fl_ok s" and "cap_buffer_get env s = (Some a, s1)"
  defines "s4 \<equiv> after_new env a data g s1" and "sk \<equiv> e_nlmsg_new env MAX_SKB_BUFSIZE (evs s1)"
  shows "fl_ok s4" and "held s4 a" and "same_rest s s4" and "skbs s4 = skbs s"
    and "evs s4 = evs s1 @ [Nlmsg_new MAX_SKB_BUFSIZE sk]"
    and "\<exists>b. bufs s4 a = Some b \<and> cb_skb b = sk"
    and "\<And>k. skb_refs (evs s1) k = skb_refs (evs s) k"
    and "\<And>k. sk = Some k \<Longrightarrow> skb_refs (evs s) k = 0"
proof -
  note g = cap_buffer_get_spec [OF assms(1-4), simplified]
  show "fl_ok s4" "held s4 a" "same_rest s s4" "skbs s4 = skbs s"
    "evs s4 = evs s1 @ [Nlmsg_new MAX_SKB_BUFSIZE sk]" "\<And>k. skb_refs (evs s1) k = skb_refs (evs s) k"
    using g by (simp_all add: s4_def sk_def after_new_def Let_def)
  obtain b1 where "bufs s1 a = Some b1"
    using g unfolding fl_ok_def held_def by blast
  then show "\<exists>b. bufs s4 a = Some b \<and> cb_skb b = sk"
    by (simp add: s4_def sk_def after_new_def Let_def upd_buf_def kdefs)
  show "\<And>k. sk = Some k \<Longrightarrow> skb_refs (evs s) k = 0"
    using assms(2) g unfolding alloc_laws_def sk_def by metis
qed

lemma cap_buffer_alloc_steps:
  assumes "cap_buffer_get env s = (Some a, s1)"
  shows "cap_buffer_alloc env pkt data g t s =
    (let s4 = after_new env a data g s1
     in case e_nlmsg_new env MAX_SKB_BUFSIZE (evs s1) of
          None \<Rightarrow> cap_buffer_err (Some a) s4
        | Some k \<Rightarrow>
            let m = e_nlmsg_put env k (cap_nlk_portid s4) 0 t (length pkt) 0 (evs s4);
                s5 = kdo (Nlmsg_put k (cap_nlk_portid s4) 0 t (length pkt) 0 m) s4
            in case m of
                 None \<Rightarrow> cap_buffer_err (Some a) (upd_buf a (\<lambda>b. b\<lparr>cb_skb := None\<rparr>) (kdo (Kfree_skb k) s5))
               | Some c \<Rightarrow>
                   Inr (Some a, s5\<lparr>skbs := (skbs s5)(k := Some (c\<lparr>sk_payload := memcpy_at 0 (sk_payload c) pkt\<rparr>))\<rparr>))"
  using assms by (simp add: cap_buffer_alloc_def after_new_def Let_def kdefs upd_buf_def split: option.split)

lemma cap_buffer_alloc_built:
  fixes data :: "addr option" and g :: gfp
  assumes laws: "list_laws env" "alloc_laws env" "put_laws env" and ok: "fl_ok s"
    and get: "cap_buffer_get env s = (Some a, s1)"
    and new: "e_nlmsg_new env MAX_SKB_BUFSIZE (evs s1) = Some k"
  defines "s4 \<equiv> after_new env a data g s1"
  assumes put: "e_nlmsg_put env k (cap_nlk_portid s4) 0 t (length pkt) 0 (evs s4) = Some c"
  shows "\<exists>s'. cap_buffer_alloc env pkt data g t s = Inr (Some a, s') \<and> fl_ok s' \<and> same_rest s s' \<and>
    built s s' a k (cap_nlk_portid s) t pkt"
proof -
  note n = after_new_spec(1-6) [OF laws(1,2) ok get, of data g, folded s4_def]
    and m = after_new_spec(7,8) [OF laws(1,2) ok get]
  let ?s5 = "kdo (Nlmsg_put k (cap_nlk_portid s4) 0 t (length pkt) 0 (Some c)) s4"
  let ?s6 = "?s5\<lparr>skbs := (skbs ?s5)(k := Some (c\<lparr>sk_payload := memcpy_at 0 (sk_payload c) pkt\<rparr>))\<rparr>"
  have "cap_buffer_alloc env pkt data g t s = Inr (Some a, ?s6)"
    using put new by (simp add: cap_buffer_alloc_steps [OF get] s4_def Let_def)
  moreover have "fl_ok ?s6" "same_rest s ?s6" "held ?s6 a" "\<exists>b. bufs ?s6 a = Some b \<and> cb_skb b = Some k"
    using n(1-3,6) new by simp_all
  moreover have "frame_skb s ?s6 k" "skb_refs (evs ?s6) k = 1"
    using n(4,5) m(1) m(2) [OF new] new by (auto simp: frame_skb_def kdefs)
  moreover have "carries ?s6 k (cap_nlk_portid s) t pkt"
    using put_lawsD [OF laws(3) put] n(3) by (simp add: carries_def same_rest_def)
  ultimately show ?thesis using m(2) [OF new] unfolding built_def by blast
qed

lemma cap_buffer_alloc_outcomes:
  assumes laws: "list_laws env" "alloc_laws env" "put_laws env" and ok: "fl_ok s"
    and get: "cap_buffer_get env s = (Some a, s1)"
  shows "(\<exists>s'. cap_buffer_alloc env pkt data g t s = Inr (None, s') \<and> unbuilt s s') \<or>
    (\<exists>s' k. cap_buffer_alloc env pkt data g t s = Inr (Some a, s') \<and> fl_ok s' \<and> same_rest s s' \<and>
      built s s' a k (cap_nlk_portid s) t pkt)"
proof -
  let ?s4 = "after_new env a data g s1"
  note n = after_new_spec(1-6) [OF laws(1,2) ok get, of data g]
    and m = after_new_spec(7,8) [OF laws(1,2) ok get]
  show ?thesis
  proof (cases "e_nlmsg_new env MAX_SKB_BUFSIZE (evs s1)")
    case None
    with cap_buffer_err_unbuilt [OF n(1-4)] n(5) m(1) show ?thesis
      by (auto simp: cap_buffer_alloc_steps [OF get] Let_def)
  next
    case (Some k)
    let ?m = "e_nlmsg_put env k (cap_nlk_portid ?s4) 0 t (length pkt) 0 (evs ?s4)"
    show ?thesis
    proof (cases ?m)
      case None
      let ?s6 = "upd_buf a (\<lambda>b. b\<lparr>cb_skb := None\<rparr>)
        (kdo (Kfree_skb k) (kdo (Nlmsg_put k (cap_nlk_portid ?s4) 0 t (length pkt) 0 None) ?s4))"
      have "fl_ok ?s6" "held ?s6 a" "same_rest s ?s6" "skbs ?s6 = skbs s"
        using n(1-4) by simp_all
      moreover have "skb_refs (evs ?s6) j = skb_refs (evs s) j" for j
        using n(5) m(1) m(2) [OF Some] Some by (auto simp: kdefs upd_buf_def)
      ultimately show ?thesis
        using cap_buffer_err_unbuilt [of ?s6 a s] Some None by (auto simp: cap_buffer_alloc_steps [OF get] Let_def)
    next
      case (Some c)
      from cap_buffer_alloc_built [OF laws ok get \<open>e_nlmsg_new _ _ _ = Some k\<close> this] show ?thesis by blast
    qed
  qed
qed

lemma cap_buffer_alloc_some:
  assumes "list_laws env" "alloc_laws env" "put_laws env" and "fl_ok s" and "cap_buffer_get env s = (Some a, s1)"
  shows "\<exists>r s'. cap_buffer_alloc env pkt data g t s = Inr (r, s') \<and> fl_ok s' \<and> same_rest s s' \<and>
    (case r of None \<Rightarrow> skbs s' = skbs s \<and> (\<forall>k. skb_refs (evs s') k = skb_refs (evs s) k)
             | Some b \<Rightarrow> b = a \<and> (\<exists>k. built s s' a k (cap_nlk_portid s) t pkt))"
  using cap_buffer_alloc_outcomes [OF assms, of pkt data g t] by (auto simp: unbuilt_def)

section \<open>The rate limiter\<close>

lemma cap_rate_check_unlimited: "cap_rate_limit s = 0 \<Longrightarrow> cap_rate_check env s = (1, s)"
  by (simp add: cap_rate_check_def)

text \<open>Everything but the limiter's own variables and the clock reading stays as it is.\<close>

lemma cap_rate_check_frame:
  assumes "cap_rate_check env s = (r, s')"
  shows "\<exists>es. evs s' = evs s @ es \<and> (es = [] \<or> (\<exists>j. es = [Jiffies j])) \<and>
    bufs s' = bufs s \<and> skbs s' = skbs s \<and> cap_freelist_count s' = cap_freelist_count s \<and>
    cap_nlk_portid s' = cap_nlk_portid s \<and> users_tab s' = users_tab s \<and>
    cap_rate_limit s' = cap_rate_limit s \<and> cap_backlog_limit s' = cap_backlog_limit s \<and>
    kcapd_task s' = kcapd_task s \<and> cap_sock s' = cap_sock s \<and> nfhk s' = nfhk s"
  using assms by (auto simp: cap_rate_check_def kdefs split: if_splits)

text \<open>Inside the window that \<open>last_check\<close> opened, the limiter accepts as long as the counter stays
  below the limit.\<close>

definition in_window :: "nl_env \<Rightarrow> nl_st \<Rightarrow> bool" where
  "in_window env s \<longleftrightarrow> (\<forall>tr. \<not> e_HZ env < e_jiffies env tr - last_check s)"

fun accepted :: "nl_env \<Rightarrow> nat \<Rightarrow> nl_st \<Rightarrow> nat" where
  "accepted env 0 s = 0"
| "accepted env (Suc n) s =
     (case cap_rate_check env s of (r, s') \<Rightarrow> (if r = 1 then 1 else 0) + accepted env n s')"

lemma cap_rate_check_window:
  assumes "cap_rate_limit s \<noteq> 0" and "in_window env s" and "unat (packets s) + 1 < 2 ^ 32"
    and "cap_rate_check env s = (r, s')"
  shows "cap_rate_limit s' = cap_rate_limit s \<and> in_window env s' \<and>
    unat (packets s') = unat (packets s) + 1 \<and>
    r = (if unat (packets s) + 1 < unat (cap_rate_limit s) then 1 else 0)"
proof -
  have "unat (packets s + 1) = unat (packets s) + 1"
    using assms(3) by (simp add: unat_word_ariths)
  with assms show ?thesis
    by (auto simp: cap_rate_check_def kdefs in_window_def word_less_nat_alt split: if_splits)
qed

section \<open>An environment in which the laws hold\<close>

fun skb_of_ev :: "nl_ev \<Rightarrow> addr list" where
  "skb_of_ev (Nlmsg_new _ (Some k)) = [k]"
| "skb_of_ev (Skb_get k) = [k]"
| "skb_of_ev (Netlink_unicast _ k _ _ _) = [k]"
| "skb_of_ev (Consume_skb k) = [k]"
| "skb_of_ev (Kfree_skb k) = [k]"
| "skb_of_ev _ = []"

definition fresh_above :: "addr list \<Rightarrow> addr" where
  "fresh_above l = Suc (fold max l 0)"

definition demo_put :: "u32 \<Rightarrow> u32 \<Rightarrow> u16 \<Rightarrow> nat \<Rightarrow> u16 \<Rightarrow> nlskb" where
  "demo_put p sq t n fl =
     \<lparr>sk_hdr = \<lparr>nlmsg_len = of_nat (NLMSG_HDRLEN + n), nlmsg_type = t, nlmsg_flags = fl, nlmsg_seq = sq, nlmsg_pid = p\<rparr>,
      sk_payload = replicate (nl_align n) 0, sk_len = NLMSG_HDRLEN + nl_align n\<rparr>"

definition demo_env :: nl_env where
  "demo_env =
     \<lparr>e_list_empty = (\<lambda>tr. freelist tr = []), e_list_next = (\<lambda>tr. hd (freelist tr)),
      e_kmalloc = (\<lambda>tr. Some (fresh_above (cb_live tr))),
      e_nlmsg_new = (\<lambda>n tr. Some (fresh_above (concat (map skb_of_ev tr)))),
      e_nlmsg_put = (\<lambda>k p sq t n fl tr. if n \<le> MAX_SKB_BUFSIZE then Some (demo_put p sq t n fl) else None),
      e_jiffies = (\<lambda>tr. 0), e_HZ = 250,
      e_dequeue = (\<lambda>tr. case skbq tr of [] \<Rightarrow> None | k # _ \<Rightarrow> Some k), e_qlen = (\<lambda>tr. length (skbq tr)),
      e_unicast = (\<lambda>sk k p tr. 0), e_should_stop = (\<lambda>tr. False),
      e_kthread_run = (\<lambda>tr. Inr 1), e_sock_create = (\<lambda>tr. Some 1)\<rparr>"

lemma fold_max_ge: "(a :: nat) \<le> fold max l a"
proof (induction l arbitrary: a)
  case (Cons x l)
  from Cons [of "max x a"] show ?case by simp
qed simp

lemma fold_max_mem: "x \<in> set l \<Longrightarrow> (x :: nat) \<le> fold max l a"
proof (induction l arbitrary: a)
  case (Cons y l)
  then show ?case
    using fold_max_ge [of "max y a" l] by auto
qed simp

lemma fresh_above_notin: "fresh_above l \<notin> set l"
  using fold_max_mem [of "fresh_above l" l 0] by (auto simp: fresh_above_def)

lemma skb_refs_unmentioned: "k \<notin> set (concat (map skb_of_ev tr)) \<Longrightarrow> skb_refs tr k = 0"
proof (induction tr rule: rev_induct)
  case Nil
  then show ?case by (simp add: skb_refs_def)
next
  case (snoc e tr)
  then show ?case by (cases "(k, e, skb_refs tr k)" rule: ref_ev.cases) auto
qed

lemma demo_laws: "list_laws demo_env" "queue_laws demo_env" "alloc_laws demo_env" "put_laws demo_env"
proof -
  have "skb_refs tr (fresh_above (concat (map skb_of_ev tr))) = 0" for tr
    using skb_refs_unmentioned [OF fresh_above_notin] .
  then show "list_laws demo_env" "queue_laws demo_env" "alloc_laws demo_env" "put_laws demo_env"
    by (auto simp: list_laws_def queue_laws_def alloc_laws_def put_laws_def demo_env_def demo_put_def
        fresh_above_notin)
qed

section \<open>Properties\<close>

text \<open>
  C25. While the clock stays within \<^verbatim>\<open>HZ\<close> ticks of the last reset, \<^verbatim>\<open>cap_rate_check\<close> accepts exactly as
  many calls as the limit leaves: of \<open>n\<close> calls the smaller of \<open>n\<close> and limit - 1 - packets, for any
  number of calls before the 32-bit counter wraps around.
\<close>

theorem rate_limit_bound:
  assumes "cap_rate_limit s \<noteq> 0" and "in_window env s" and "unat (packets s) + n < 2 ^ 32"
  shows "accepted env n s = min n (unat (cap_rate_limit s) - 1 - unat (packets s))"
  using assms
proof (induction n arbitrary: s)
  case 0
  then show ?case by simp
next
  case (Suc n)
  obtain r s' where c: "cap_rate_check env s = (r, s')" by (cases "cap_rate_check env s")
  have w: "cap_rate_limit s' = cap_rate_limit s" "in_window env s'"
    "unat (packets s') = unat (packets s) + 1"
    "r = (if unat (packets s) + 1 < unat (cap_rate_limit s) then 1 else 0)"
    using cap_rate_check_window [OF Suc.prems(1,2) _ c] Suc.prems(3) by auto
  with Suc.IH [of s'] Suc.prems c show ?case by auto
qed

text \<open>A state with a limit of 3 packets; the clock of \<open>demo_env\<close> stands still.\<close>

definition rate_state :: nl_st where
  "rate_state =
     \<lparr>evs = [], bufs = (\<lambda>_. None), skbs = (\<lambda>_. None), cap_freelist_count = 0, cap_nlk_portid = 0,
      users_tab = demo_users, cap_rate_limit = 3, last_check = 0, packets = 0, cap_backlog_limit = 64,
      kcapd_task = None, cap_sock = None,
      nfhk = \<lparr>hk_hook = NoHook, hk_pf = PF_INET, hk_hooknum = PRE_ROUTING, hk_priority = PRI_UNSET\<rparr>\<rparr>"

theorem rate_limit_bound_witness: "accepted demo_env 100 rate_state = 2"
  using rate_limit_bound [of rate_state demo_env 100]
  by (simp add: in_window_def demo_env_def rate_state_def)


text \<open>
  C18. An outstanding request to build a message ends in one of three ways. Without a buffer the
  error path calls \<^verbatim>\<open>cap_buffer_free(NULL)\<close>, which dereferences NULL. Otherwise the free-list
  invariant is kept, and either NULL is returned with every socket buffer as before, or the caller
  holds a buffer whose fresh socket buffer carries the packet's bytes for the listening port.
\<close>

theorem cap_buffer_alloc_cases:
  assumes "list_laws env" and "alloc_laws env" and "put_laws env" and "fl_ok s"
  shows "(\<exists>s1. cap_buffer_get env s = (None, s1) \<and> cap_buffer_alloc env pkt d g t s = Inl NullDeref) \<or>
    (\<exists>r s'. cap_buffer_alloc env pkt d g t s = Inr (r, s') \<and> fl_ok s' \<and> same_rest s s' \<and>
      (case r of
         None \<Rightarrow> skbs s' = skbs s \<and> (\<forall>k. skb_refs (evs s') k = skb_refs (evs s) k)
       | Some a \<Rightarrow> \<exists>k. built s s' a k (cap_nlk_portid s) t pkt))"
proof (cases "cap_buffer_get env s")
  case (Pair r s1)
  show ?thesis
  proof (cases r)
    case None
    with Pair show ?thesis by (simp add: cap_buffer_alloc_none)
  next
    case (Some a)
    with Pair cap_buffer_alloc_some [OF assms, of a s1 pkt d g t] show ?thesis
      by (auto split: option.splits) blast+
  qed
qed

theorem cap_buffer_alloc_cases_witness:
  "\<exists>r s'. cap_buffer_alloc demo_env [1, 2] None GFP_KERNEL 3 rate_state = Inr (r, s') \<and> fl_ok s'"
proof -
  have ok: "fl_ok rate_state" by (simp add: fl_ok_def rate_state_def freelist_def cb_live_def)
  have "fst (cap_buffer_get demo_env rate_state) = Some 1"
    by (simp add: cap_buffer_get_def cap_freelist_pop_def kdefs demo_env_def rate_state_def freelist_def
        cb_live_def fresh_above_def)
  then show ?thesis
    using cap_buffer_alloc_cases [OF demo_laws(1,3,4) ok, of "[1, 2]" None GFP_KERNEL 3] by auto
qed

end
