(* ===== verification/Netlink.thy ===== *)
theory Netlink
  imports Capbuf
begin

text \<open>
  The rest of \<^verbatim>\<open>netlink/netlink.c\<close>: the two netfilter hooks, the command path from a user message to
  the table of users, the kernel thread that sends captured packets, and the module's start and
  end. A packet is the byte list \<^verbatim>\<open>skb->data\<close> of a linear socket buffer, so \<^verbatim>\<open>skb->len\<close> is its length.
  Log output (\<^verbatim>\<open>printk\<close>) is left out; a kernel call inside a \<^verbatim>\<open>printk\<close> is kept.

  A step of the running module (\<open>nl_step\<close>) is one packet that passes the registered hook, one
  message buffer from a user, or one round of the kernel thread. The invariant \<open>nl_inv\<close> holds in
  every reachable state.
\<close>

section \<open>Hooks\<close>

definition hook_func_queue :: "nl_env \<Rightarrow> byte list \<Rightarrow> nl_st \<Rightarrow> fault + (nf_verdict \<times> nl_st)" where
  "hook_func_queue env pkt s =
     (if cap_nlk_portid s = 0 then Inr (NF_ACCEPT, s)
      else case cap_buffer_alloc env pkt None GFP_KERNEL NLMSG_DONE s of
             Inl f \<Rightarrow> Inl f
           | Inr (None, s1) \<Rightarrow> Inr (NF_ACCEPT, s1)
           | Inr (Some a, s1) \<Rightarrow>
               (case cap_rate_check env s1 of
                  (ok, s2) \<Rightarrow>
                    if ok = 0 then Inr (NF_ACCEPT, s2)
                    else case Option.bind (bufs s2 a) cb_skb of
                           None \<Rightarrow> Inl NullDeref
                         | Some k \<Rightarrow>
                             (let s3 = upd_skb k (\<lambda>c. c\<lparr>sk_hdr := (sk_hdr c)\<lparr>nlmsg_len := of_nat (sk_len c)\<rparr>\<rparr>) s2;
                                  s4 = kdo Wake_up_kcapd (kdo (Skb_queue_tail k) s3);
                                  (n, s5) = kcall (e_qlen env) Skb_queue_len s4;
                                  s6 = upd_buf a (\<lambda>b. b\<lparr>cb_skb := None\<rparr>) s5
                              in case cap_buffer_free (Some a) s6 of
                                   Inl f \<Rightarrow> Inl f
                                 | Inr s7 \<Rightarrow> Inr (NF_ACCEPT, s7))))"

text \<open>\<^verbatim>\<open>hook_func\<close>, the variant that sends to every user of the table; the list is the loop's range.\<close>

fun hook_func_loop :: "nl_env \<Rightarrow> byte list \<Rightarrow> nat list \<Rightarrow> nl_st \<Rightarrow> nl_st" where
  "hook_func_loop env pkt [] s = s"
| "hook_func_loop env pkt (i # is) s =
     (let p = u_pid (usrtab (users_tab s) ! i)
      in if p \<noteq> 0
         then case cap_make_reply env p 0 NLMSG_DONE True False pkt s of
                (None, s1) \<Rightarrow> hook_func_loop env pkt is s1
              | (Some k, s1) \<Rightarrow>
                  (let (ret, s2) = kcall (e_unicast env (cap_sock s1) k p) (Netlink_unicast (cap_sock s1) k (skbs s1 k) p) s1;
                       s3 = (if ret = - ECONNREFUSED
                             then s2\<lparr>users_tab := delete_all_user (users_tab s2)\<rparr> else s2)
                   in hook_func_loop env pkt is s3)
         else hook_func_loop env pkt is s)"

definition hook_func :: "nl_env \<Rightarrow> byte list \<Rightarrow> nl_st \<Rightarrow> nf_verdict \<times> nl_st" where
  "hook_func env pkt s = (NF_ACCEPT, hook_func_loop env pkt [0..<MAX_TAB_SIZE] s)"

definition cap_hook_init :: "nl_st \<Rightarrow> int \<times> nl_st" where
  "cap_hook_init s =
     (let ops = (nfhk s)\<lparr>hk_hook := Hook_func_queue, hk_hooknum := LOCAL_OUT, hk_pf := PF_INET,
                         hk_priority := NF_IP_PRI_FIRST\<rparr>
      in (0, kdo (Nf_register_hook ops) (s\<lparr>nfhk := ops\<rparr>)))"

section \<open>Commands from user space\<close>

abbreviation CAP_ADD :: u16 where "CAP_ADD \<equiv> 0"
abbreviation CAP_DEL :: u16 where "CAP_DEL \<equiv> 1"
abbreviation CAP_PACKET :: u16 where "CAP_PACKET \<equiv> 2"
abbreviation CAP_GET_PACKET :: u16 where "CAP_GET_PACKET \<equiv> 3"

definition cap_netlink_ok :: "u16 \<Rightarrow> int" where
  "cap_netlink_ok msg_type =
     (if msg_type = CAP_ADD then 0
      else if msg_type = CAP_DEL then 0
      else if msg_type = CAP_GET_PACKET then 0
      else - EINVAL)"

text \<open>The switch at the end of \<^verbatim>\<open>cap_receive_msg\<close>.\<close>

definition cap_dispatch :: "u16 \<Rightarrow> u32 \<Rightarrow> nl_st \<Rightarrow> nl_st" where
  "cap_dispatch msg_type p s =
     (if msg_type = CAP_ADD
      then s\<lparr>cap_nlk_portid := p, users_tab := snd (user_join p (users_tab s))\<rparr>
      else if msg_type = CAP_DEL
      then s\<lparr>cap_nlk_portid := 0, users_tab := snd (user_leave p (users_tab s))\<rparr>
      else s)"

definition cap_receive_msg :: "nl_env \<Rightarrow> nlmsghdr \<Rightarrow> nl_st \<Rightarrow> int \<times> nl_st" where
  "cap_receive_msg env h s =
     (let err = cap_netlink_ok (nlmsg_type h)
      in if err \<noteq> 0 then (err, s)
         else if kcapd_task s = None
         then let (r, s1) = kcall (e_kthread_run env) Kthread_run s
              in case r of
                   Inl e \<Rightarrow> (e, s1)
                 | Inr t \<Rightarrow> (0, cap_dispatch (nlmsg_type h) (nlmsg_pid h) (s1\<lparr>kcapd_task := Some t\<rparr>))
         else (0, cap_dispatch (nlmsg_type h) (nlmsg_pid h) s))"

text \<open>The body of the loop of \<^verbatim>\<open>cap_receive_skb\<close>: handle the message, acknowledge it if it failed or
  asks for it.\<close>

definition cap_receive_one :: "nl_env \<Rightarrow> nlmsghdr \<Rightarrow> nat \<Rightarrow> nl_st \<Rightarrow> nl_st" where
  "cap_receive_one env h pos s =
     (case cap_receive_msg env h s of
        (err, s1) \<Rightarrow>
          if err \<noteq> 0 \<or> nlmsg_flags h AND NLM_F_ACK \<noteq> 0 then kdo (Netlink_ack pos err) s1 else s1)"

definition cap_receive_skb :: "nlmsg_api \<Rightarrow> nl_env \<Rightarrow> byte list \<Rightarrow> nl_st \<Rightarrow> nl_st option" where
  "cap_receive_skb api env bs s = nl_walk api bs (cap_receive_one env) 0 (int (length bs)) s"

text \<open>\<^verbatim>\<open>cap_receive\<close> only takes \<^verbatim>\<open>cap_cmd_mutex\<close> around it: one buffer is handled as one step.\<close>

definition cap_receive :: "nlmsg_api \<Rightarrow> nl_env \<Rightarrow> byte list \<Rightarrow> nl_st \<Rightarrow> nl_st option" where
  "cap_receive api env bs s = cap_receive_skb api env bs s"

section \<open>The sending thread\<close>

definition kcapd_send_reply :: "nl_env \<Rightarrow> addr \<Rightarrow> nl_st \<Rightarrow> fault + nl_st" where
  "kcapd_send_reply env k s =
     (let s1 = kdo (Skb_get k) s;
          (err, s2) = kcall (e_unicast env (cap_sock s1) k (cap_nlk_portid s1))
                            (Netlink_unicast (cap_sock s1) k (skbs s1 k) (cap_nlk_portid s1)) s1
      in if err < 0
         then if err \<noteq> - ECONNREFUSED then Inl BugOn else Inr (s2\<lparr>cap_nlk_portid := 0\<rparr>)
         else Inr (kdo (Consume_skb k) s2))"

text \<open>One round of the loop of \<^verbatim>\<open>kcapd_thread\<close>. It ends the thread, sends one buffer, or goes to sleep
  until the queue is not empty.\<close>

datatype kcapd_round = Stopped | Sent | Sleeping

definition kcapd_iter :: "nl_env \<Rightarrow> nl_st \<Rightarrow> fault + (kcapd_round \<times> nl_st)" where
  "kcapd_iter env s =
     (let (stop, s0) = kcall (e_should_stop env) Kthread_should_stop s
      in if stop then Inr (Stopped, s0)
         else let (sk, s1) = kcall (e_dequeue env) Skb_dequeue s0
              in case sk of
                   Some k \<Rightarrow>
                     (let (n, s2) = kcall (e_qlen env) Skb_queue_len s1;
                          (m, s3) = kcall (e_qlen env) Skb_queue_len s2;
                          s4 = (if m \<le> unat (cap_backlog_limit s3) then kdo Wake_up_backlog s3 else s3)
                      in case kcapd_send_reply env k s4 of
                           Inl f \<Rightarrow> Inl f
                         | Inr s5 \<Rightarrow> Inr (Sent, s5))
                 | None \<Rightarrow> Inr (Sleeping, kdo Wait_kcapd s1))"

text \<open>The thread until it ends or sleeps, \<open>None\<close> when the fuel (the number of rounds) is used up.\<close>

fun kcapd_thread :: "nl_env \<Rightarrow> nat \<Rightarrow> nl_st \<Rightarrow> (fault + (kcapd_round \<times> nl_st)) option" where
  "kcapd_thread env 0 s = None"
| "kcapd_thread env (Suc n) s =
     (case kcapd_iter env s of
        Inl f \<Rightarrow> Some (Inl f)
      | Inr (Sent, s1) \<Rightarrow> kcapd_thread env n s1
      | Inr (r, s1) \<Rightarrow> Some (Inr (r, s1)))"

section \<open>Module start and end\<close>

definition app_init :: "nl_env \<Rightarrow> nl_st \<Rightarrow> int \<times> nl_st" where
  "app_init env s =
     (let (sk, s1) = kcall (e_sock_create env) Netlink_kernel_create s;
          s2 = s1\<lparr>cap_sock := sk\<rparr>
      in case sk of
           None \<Rightarrow> (- ENOMEM, s2)
         | Some a \<Rightarrow>
             (let s3 = s2\<lparr>users_tab := usertab_init (users_tab s2)\<rparr>;
                  s4 = snd (cap_hook_init s3);
                  s5 = kdo Skb_queue_head_init s4
              in (0, s5\<lparr>cap_nlk_portid := 0\<rparr>)))"

definition app_exit :: "nl_st \<Rightarrow> nl_st" where
  "app_exit s = kdo (Nf_unregister_hook (nfhk s)) (kdo (Netlink_kernel_release (cap_sock s)) s)"

text \<open>The static variables as the module is loaded.\<close>

definition nl_boot :: nl_st where
  "nl_boot =
     \<lparr>evs = [], bufs = (\<lambda>_. None), skbs = (\<lambda>_. None), cap_freelist_count = 0, cap_nlk_portid = 0,
      users_tab = \<lparr>usrtab = replicate MAX_TAB_SIZE \<lparr>u_pid = 0, u_cmd = 0\<rparr>, usrcnt = 0\<rparr>,
      cap_rate_limit = 0, last_check = 0, packets = 0, cap_backlog_limit = 64,
      kcapd_task = None, cap_sock = None,
      nfhk = \<lparr>hk_hook = NoHook, hk_pf = PF_INET, hk_hooknum = PRE_ROUTING, hk_priority = PRI_UNSET\<rparr>\<rparr>"

section \<open>The running module\<close>

inductive nl_step :: "nlmsg_api \<Rightarrow> nl_env \<Rightarrow> nl_st \<Rightarrow> nl_st \<Rightarrow> bool" for api env where
  packet: "hook_func_queue env pkt s = Inr (v, t) \<Longrightarrow> nl_step api env s t"
| command: "cap_receive api env bs s = Some t \<Longrightarrow> nl_step api env s t"
| thread: "kcapd_task s \<noteq> None \<Longrightarrow> kcapd_iter env s = Inr (r, t) \<Longrightarrow> nl_step api env s t"

inductive_cases nl_stepE: "nl_step api env s t"

definition nl_started :: "nl_env \<Rightarrow> nl_st \<Rightarrow> bool" where
  "nl_started env s \<longleftrightarrow> app_init env nl_boot = (0, s)"

section \<open>The queue of captured packets\<close>

text \<open>\<open>q_ok\<close>: the buffers in the queue are different, hold a message, and have one reference each, the
  queue's.\<close>

definition q_ok :: "nl_st \<Rightarrow> bool" where
  "q_ok s \<longleftrightarrow> distinct (skbq (evs s)) \<and>
     (\<forall>k\<in>set (skbq (evs s)). skbs s k \<noteq> None \<and> skb_refs (evs s) k = 1)"

definition nl_inv :: "nl_st \<Rightarrow> bool" where
  "nl_inv s \<longleftrightarrow> fl_ok s \<and> q_ok s \<and> length (usrtab (users_tab s)) = MAX_TAB_SIZE \<and> cap_rate_limit s = 0"

text \<open>\<open>keeps_queued s t\<close>: no message in the queue of \<open>s\<close> changes on the way to \<open>t\<close>.\<close>

definition keeps_queued :: "nl_st \<Rightarrow> nl_st \<Rightarrow> bool" where
  "keeps_queued s t \<longleftrightarrow>
     (\<forall>k\<in>set (skbq (evs s)). skbs t k = skbs s k \<and> skb_refs (evs t) k = skb_refs (evs s) k)"

lemma q_ok_same:
  "q_ok s \<Longrightarrow> keeps_queued s t \<Longrightarrow> skbq (evs t) = skbq (evs s) \<Longrightarrow> q_ok t"
  by (auto simp: q_ok_def keeps_queued_def)

lemma frame_keeps_queued:
  "q_ok s \<Longrightarrow> frame_skb s t k \<Longrightarrow> skb_refs (evs s) k = 0 \<Longrightarrow> keeps_queued s t"
  unfolding q_ok_def frame_skb_def keeps_queued_def by (metis zero_neq_one)

text \<open>\<open>framed s k\<close>: the length field of the message is the length of the socket buffer.\<close>

definition framed :: "nl_st \<Rightarrow> addr \<Rightarrow> bool" where
  "framed s k \<longleftrightarrow> (\<exists>c. skbs s k = Some c \<and> nlmsg_len (sk_hdr c) = of_nat (sk_len c))"

text \<open>What \<^verbatim>\<open>hook_func_queue\<close> adds to the queue: the message built for the packet, its length field set
  to the length of the socket buffer.\<close>

definition enqueued :: "nl_st \<Rightarrow> nl_st \<Rightarrow> byte list \<Rightarrow> bool" where
  "enqueued s t pkt \<longleftrightarrow>
     (\<exists>k. skbq (evs t) = skbq (evs s) @ [k] \<and> k \<notin> set (skbq (evs s)) \<and> skb_refs (evs t) k = 1 \<and>
        carries t k (cap_nlk_portid s) NLMSG_DONE pkt \<and> framed t k \<and> keeps_queued s t \<and>
        cap_nlk_portid t = cap_nlk_portid s \<and> users_tab t = users_tab s \<and>
        cap_rate_limit t = cap_rate_limit s \<and> kcapd_task t = kcapd_task s \<and>
        sent (evs t) = sent (evs s))"

lemma enqueued_q_ok: "q_ok s \<Longrightarrow> enqueued s t pkt \<Longrightarrow> q_ok t"
  by (fastforce simp: q_ok_def enqueued_def keeps_queued_def carries_def)

text \<open>The part of \<^verbatim>\<open>hook_func_queue\<close> after the rate check.\<close>

lemma hook_enqueue_tail:
  assumes q: "q_ok s" and ok: "fl_ok s2" and bt: "built s s2 a k (cap_nlk_portid s) NLMSG_DONE pkt"
    and rest: "skbq (evs s2) = skbq (evs s)" "cap_nlk_portid s2 = cap_nlk_portid s"
      "users_tab s2 = users_tab s" "cap_rate_limit s2 = cap_rate_limit s" "kcapd_task s2 = kcapd_task s"
      "sent (evs s2) = sent (evs s)"
    and s6_def: "s6 = upd_buf a (\<lambda>b. b\<lparr>cb_skb := None\<rparr>) (kdo (Skb_queue_len n) (kdo Wake_up_kcapd (kdo (Skb_queue_tail k)
      (upd_skb k (\<lambda>c. c\<lparr>sk_hdr := (sk_hdr c)\<lparr>nlmsg_len := of_nat (sk_len c)\<rparr>\<rparr>) s2))))"
  shows "\<exists>s7. cap_buffer_free (Some a) s6 = Inr s7 \<and> fl_ok s7 \<and> enqueued s s7 pkt"
proof -
  have ok6: "fl_ok s6" "held s6 a" using ok bt
    by (simp_all add: s6_def upd_skb_def built_def)
  obtain s7 where s7: "cap_buffer_free (Some a) s6 = Inr s7" "fl_ok s7" "same_rest s6 s7"
    "skbs s7 = skbs s6" "\<forall>j. skb_refs (evs s7) j = skb_refs (evs s6) j"
    using cap_buffer_free_spec [OF ok6] by blast
  have k: "k \<notin> set (skbq (evs s))" using q bt by (auto simp: q_ok_def built_def)
  have s6: "skbq (evs s6) = skbq (evs s) @ [k]" "\<And>j. skb_refs (evs s6) j = skb_refs (evs s2) j"
    "\<And>j. j \<noteq> k \<Longrightarrow> skbs s6 j = skbs s2 j"
    using rest(1) by (simp_all add: s6_def upd_skb_def)
  have "carries s6 k (cap_nlk_portid s) NLMSG_DONE pkt"
    using bt by (auto simp: built_def carries_def s6_def upd_skb_def)
  then have "carries s7 k (cap_nlk_portid s) NLMSG_DONE pkt"
    using s7(4) by (simp add: carries_def)
  moreover have "framed s7 k"
    using bt s7(4) by (auto simp: built_def carries_def framed_def s6_def upd_skb_def)
  moreover have "keeps_queued s s7"
    using bt k s6 s7(4,5) unfolding keeps_queued_def built_def frame_skb_def by metis
  moreover have "cap_nlk_portid s7 = cap_nlk_portid s" "users_tab s7 = users_tab s"
    "cap_rate_limit s7 = cap_rate_limit s" "kcapd_task s7 = kcapd_task s" "skbq (evs s7) = skbq (evs s) @ [k]"
    "sent (evs s7) = sent (evs s)"
    using s7(3) rest s6(1) by (simp_all add: same_rest_def s6_def upd_skb_def upd_buf_def kdefs)
  moreover have "skb_refs (evs s7) k = 1"
    using s7(5) s6(2) bt by (simp add: built_def)
  ultimately have "enqueued s s7 pkt" using k unfolding enqueued_def by blast
  with s7(1,2) show ?thesis by blast
qed

text \<open>All the cases of \<^verbatim>\<open>hook_func_queue\<close>: nobody listens; no buffer can be had, and the error path
  dereferences NULL; the message cannot be built; the limiter refuses; the message is queued.\<close>

lemma hook_idle: "cap_nlk_portid s = 0 \<Longrightarrow> hook_func_queue env pkt s = Inr (NF_ACCEPT, s)"
  by (simp add: hook_func_queue_def)

lemma hook_no_buffer:
  "cap_nlk_portid s \<noteq> 0 \<Longrightarrow> cap_buffer_get env s = (None, s1) \<Longrightarrow>
   hook_func_queue env pkt s = Inl NullDeref"
  by (simp add: hook_func_queue_def cap_buffer_alloc_none)

lemma hook_no_message:
  "cap_nlk_portid s \<noteq> 0 \<Longrightarrow> cap_buffer_alloc env pkt None GFP_KERNEL NLMSG_DONE s = Inr (None, s') \<Longrightarrow>
   hook_func_queue env pkt s = Inr (NF_ACCEPT, s')"
  by (simp add: hook_func_queue_def)

lemma hook_refused:
  "cap_nlk_portid s \<noteq> 0 \<Longrightarrow> cap_buffer_alloc env pkt None GFP_KERNEL NLMSG_DONE s = Inr (Some a, s1) \<Longrightarrow>
   cap_rate_check env s1 = (0, s') \<Longrightarrow> hook_func_queue env pkt s = Inr (NF_ACCEPT, s')"
  by (simp add: hook_func_queue_def)

lemma built_frame:
  assumes "built s s1 a k p t pkt" and "fl_ok s1" and "skbq (evs s1) = skbq (evs s)"
    and "cap_rate_check env s1 = (r, s2)"
  shows "built s s2 a k p t pkt \<and> fl_ok s2 \<and> skbq (evs s2) = skbq (evs s)"
proof -
  obtain es where es: "evs s2 = evs s1 @ es" "es = [] \<or> (\<exists>j. es = [Jiffies j])"
    "bufs s2 = bufs s1" "skbs s2 = skbs s1" "cap_freelist_count s2 = cap_freelist_count s1"
    using cap_rate_check_frame [OF assms(4)] by blast
  then have "freelist (evs s2) = freelist (evs s1)" "cb_live (evs s2) = cb_live (evs s1)"
    "skbq (evs s2) = skbq (evs s1)" "\<And>j. skb_refs (evs s2) j = skb_refs (evs s1) j"
    by auto
  with es(3-5) assms(1-3) show ?thesis
    by (simp add: built_def fl_ok_def held_def frame_skb_def carries_def)
qed

lemma hook_queues:
  assumes q: "q_ok s" and port: "cap_nlk_portid s \<noteq> 0"
    and alloc: "cap_buffer_alloc env pkt None GFP_KERNEL NLMSG_DONE s = Inr (Some a, s1)"
    and ok: "fl_ok s1" and rest: "same_rest s s1"
    and bt: "built s s1 a k (cap_nlk_portid s) NLMSG_DONE pkt"
    and rate: "cap_rate_check env s1 = (r, s2)" "r \<noteq> 0"
  shows "\<exists>s'. hook_func_queue env pkt s = Inr (NF_ACCEPT, s') \<and> fl_ok s' \<and> enqueued s s' pkt"
proof -
  have sq: "skbq (evs s1) = skbq (evs s)" using rest by (simp add: same_rest_def)
  note b2 = built_frame [OF bt ok sq rate(1)]
  have r2: "cap_nlk_portid s2 = cap_nlk_portid s" "users_tab s2 = users_tab s"
    "cap_rate_limit s2 = cap_rate_limit s" "kcapd_task s2 = kcapd_task s" "sent (evs s2) = sent (evs s)"
    using cap_rate_check_frame [OF rate(1)] rest by (auto simp: same_rest_def)
  let ?s3 = "upd_skb k (\<lambda>c. c\<lparr>sk_hdr := (sk_hdr c)\<lparr>nlmsg_len := of_nat (sk_len c)\<rparr>\<rparr>) s2"
  let ?s4 = "kdo Wake_up_kcapd (kdo (Skb_queue_tail k) ?s3)"
  have owner: "Option.bind (bufs s2 a) cb_skb = Some k"
    using b2 by (auto simp: built_def)
  obtain s7 where s7: "cap_buffer_free (Some a)
      (upd_buf a (\<lambda>b. b\<lparr>cb_skb := None\<rparr>) (kdo (Skb_queue_len (e_qlen env (evs ?s4))) ?s4)) = Inr s7"
    "fl_ok s7" "enqueued s s7 pkt"
    using hook_enqueue_tail [OF q _ _ _ r2 refl] b2 by blast
  have "hook_func_queue env pkt s = Inr (NF_ACCEPT, s7)"
    using port alloc rate owner s7(1)
    by (simp add: hook_func_queue_def kcall_def kdo_def Let_def)
  with s7(2,3) show ?thesis by blast
qed

lemma hook_func_queue_inv:
  assumes laws: "list_laws env" "alloc_laws env" "put_laws env" and inv: "nl_inv s"
    and h: "hook_func_queue env pkt s = Inr (v, t)"
  shows "nl_inv t"
proof (cases "cap_nlk_portid s = 0")
  case True
  with h inv show ?thesis by (simp add: hook_idle)
next
  case False
  have i: "fl_ok s" "q_ok s" "cap_rate_limit s = 0" "length (usrtab (users_tab s)) = MAX_TAB_SIZE"
    using inv by (simp_all add: nl_inv_def)
  obtain a s1 where get: "cap_buffer_get env s = (Some a, s1)"
    using h hook_no_buffer [OF False] by (cases "cap_buffer_get env s"; cases "fst (cap_buffer_get env s)") auto
  obtain r s' where al: "cap_buffer_alloc env pkt None GFP_KERNEL NLMSG_DONE s = Inr (r, s')"
    "fl_ok s'" "same_rest s s'"
    "case r of None \<Rightarrow> skbs s' = skbs s \<and> (\<forall>k. skb_refs (evs s') k = skb_refs (evs s) k)
     | Some b \<Rightarrow> b = a \<and> (\<exists>k. built s s' a k (cap_nlk_portid s) NLMSG_DONE pkt)"
    using cap_buffer_alloc_some [OF laws i(1) get] by blast
  have rl: "cap_rate_check env s' = (1, s')"
    using al(3) i(3) by (simp add: cap_rate_check_unlimited same_rest_def)
  show ?thesis
  proof (cases r)
    case None
    with al h hook_no_message [OF False] have "t = s'" by auto
    moreover have "q_ok s'"
      using al None i(2) by (auto intro: q_ok_same simp: keeps_queued_def same_rest_def)
    ultimately show ?thesis using al i by (simp add: nl_inv_def same_rest_def)
  next
    case (Some b)
    then obtain k where "built s s' a k (cap_nlk_portid s) NLMSG_DONE pkt" and ba: "b = a"
      using al(4) by auto
    from hook_queues [OF i(2) False al(1) [unfolded Some ba] al(2,3) this(1) rl]
    have "fl_ok t" "enqueued s t pkt" using h by auto
    then show ?thesis
      using i enqueued_q_ok [OF i(2)] by (auto simp: nl_inv_def enqueued_def)
  qed
qed

section \<open>The sending thread\<close>

lemma queue_lawsD:
  assumes "queue_laws env"
  shows "e_dequeue env tr = (case skbq tr of [] \<Rightarrow> None | k # _ \<Rightarrow> Some k)"
    and "e_qlen env tr = length (skbq tr)"
  using assms unfolding queue_laws_def by blast+

text \<open>The events of a round up to the attempt to send.\<close>

definition round_evs :: "nl_env \<Rightarrow> nl_st \<Rightarrow> addr \<Rightarrow> nat \<Rightarrow> nl_ev list" where
  "round_evs env s k n =
     [Kthread_should_stop False, Skb_dequeue (Some k), Skb_queue_len n, Skb_queue_len n] @
     (if n \<le> unat (cap_backlog_limit s) then [Wake_up_backlog] else []) @ [Skb_get k]"

definition round_err :: "nl_env \<Rightarrow> nl_st \<Rightarrow> addr \<Rightarrow> nat \<Rightarrow> int" where
  "round_err env s k n = e_unicast env (cap_sock s) k (cap_nlk_portid s) (evs s @ round_evs env s k n)"

lemma kcapd_iter_cons:
  assumes laws: "queue_laws env" and go: "\<not> e_should_stop env (evs s)"
    and q: "skbq (evs s) = k # q"
  shows "kcapd_iter env s =
    (let err = round_err env s k (length q);
         t = s\<lparr>evs := evs s @ round_evs env s k (length q) @ [Netlink_unicast (cap_sock s) k (skbs s k) (cap_nlk_portid s) err]\<rparr>
     in if err < 0
        then if err \<noteq> - ECONNREFUSED then Inl BugOn else Inr (Sent, t\<lparr>cap_nlk_portid := 0\<rparr>)
        else Inr (Sent, kdo (Consume_skb k) t))"
  using go q
  by (simp add: kcapd_iter_def kcapd_send_reply_def round_err_def round_evs_def kdefs queue_lawsD [OF laws])

lemma kcapd_iter_nil:
  assumes "queue_laws env" and "\<not> e_should_stop env (evs s)" and "skbq (evs s) = []"
  shows "kcapd_iter env s =
    Inr (Sleeping, s\<lparr>evs := evs s @ [Kthread_should_stop False, Skb_dequeue None, Wait_kcapd]\<rparr>)"
  using assms(2,3) by (simp add: kcapd_iter_def kdefs queue_lawsD [OF assms(1)])

lemma kcapd_iter_stop:
  "e_should_stop env (evs s) \<Longrightarrow>
   kcapd_iter env s = Inr (Stopped, s\<lparr>evs := evs s @ [Kthread_should_stop True]\<rparr>)"
  by (simp add: kcapd_iter_def kdefs)

lemma round_evs_effect [simp]:
  "fold fl_ev (round_evs env s k n) l = l" "fold live_ev (round_evs env s k n) l = l"
  "fold q_ev (round_evs env s k n) l = remove1 k l" "concat (map sent_ev (round_evs env s k n)) = []"
  "fold (ref_ev j) (round_evs env s k n) i = (if j = k then i + 1 else i)"
  by (simp_all add: round_evs_def)

lemma kcapd_iter_inv:
  assumes laws: "queue_laws env" and inv: "nl_inv s" and it: "kcapd_iter env s = Inr (r, t)"
  shows "nl_inv t"
proof (cases "e_should_stop env (evs s)")
  case True
  with it inv show ?thesis by (auto simp: kcapd_iter_stop nl_inv_def fl_ok_def q_ok_def)
next
  case go: False
  show ?thesis
  proof (cases "skbq (evs s)")
    case Nil
    with it inv kcapd_iter_nil [OF laws go] show ?thesis
      by (auto simp: nl_inv_def fl_ok_def q_ok_def)
  next
    case (Cons k q)
    have "k \<notin> set q" "distinct q" "\<forall>j\<in>set q. skbs s j \<noteq> None \<and> skb_refs (evs s) j = 1"
      using inv Cons by (auto simp: nl_inv_def q_ok_def)
    with it inv kcapd_iter_cons [OF laws go Cons] Cons show ?thesis
      by (auto simp: nl_inv_def fl_ok_def q_ok_def kdefs split: if_splits)
  qed
qed

section \<open>Commands\<close>

lemma user_join_length [simp]: "length (usrtab (snd (user_join p u))) = length (usrtab u)"
  by (simp add: user_join_def split: option.splits)

lemma user_leave_length [simp]: "length (usrtab (snd (user_leave p u))) = length (usrtab u)"
  by (simp add: user_leave_def split: option.splits)

lemma cap_receive_one_inv: "nl_inv s \<Longrightarrow> nl_inv (cap_receive_one env h p s)"
  by (auto simp: cap_receive_one_def cap_receive_msg_def cap_dispatch_def kdefs nl_inv_def fl_ok_def q_ok_def
      split: sum.splits prod.splits)

interpretation cap_cmd: msg_handler "\<lambda>bs. cap_receive_one env" nl_inv for env
  by unfold_locales (rule cap_receive_one_inv)

lemma cap_receive_inv:
  "nlmsg_laws api \<Longrightarrow> nl_inv s \<Longrightarrow> cap_receive api env bs s = Some t \<Longrightarrow> nl_inv t"
  unfolding cap_receive_def cap_receive_skb_def by (rule cap_cmd.walk_inv)

section \<open>The invariant of the running module\<close>

definition env_laws :: "nlmsg_api \<Rightarrow> nl_env \<Rightarrow> bool" where
  "env_laws api env \<longleftrightarrow> nlmsg_laws api \<and> list_laws env \<and> queue_laws env \<and> alloc_laws env \<and> put_laws env"

lemma usrtab_boot: "length (usrtab (users_tab nl_boot)) = MAX_TAB_SIZE"
  by (simp add: nl_boot_def)

lemma nl_started_inv:
  assumes "nl_started env s"
  shows "nl_inv s \<and> cap_nlk_portid s = 0 \<and> usr_ok (users_tab s) \<and> members (users_tab s) = {#} \<and>
    kcapd_task s = None \<and> skbq (evs s) = [] \<and> sent (evs s) = []"
proof -
  obtain a where a: "e_sock_create env [] = Some a"
    using assms by (cases "e_sock_create env []")
      (auto simp: nl_started_def app_init_def nl_boot_def kdefs)
  then have u: "users_tab s = usertab_init (users_tab nl_boot)" and
    rest: "cap_nlk_portid s = 0" "kcapd_task s = None" "cap_rate_limit s = 0" "cap_freelist_count s = 0"
      "bufs s = (\<lambda>_. None)" "evs s = [Netlink_kernel_create (Some a), Nf_register_hook (nfhk s), Skb_queue_head_init]"
    using assms by (auto simp: nl_started_def app_init_def cap_hook_init_def nl_boot_def kdefs)
  have "usrcnt (users_tab nl_boot) = 0" by (simp add: nl_boot_def)
  then have "usr_ok (users_tab s)" "members (users_tab s) = {#}"
    using u usertab_init_members [OF usrtab_boot] usrtab_boot
    by (simp_all add: usr_ok_def usertab_init_length)
  with rest show ?thesis
    by (simp add: nl_inv_def fl_ok_def q_ok_def usr_ok_def freelist_def cb_live_def skbq_def sent_def)
qed

lemma nl_step_inv:
  assumes "env_laws api env" and "nl_inv s" and "nl_step api env s t"
  shows "nl_inv t"
  using assms(3,1,2)
  by (cases rule: nl_step.cases)
    (auto simp: env_laws_def intro: hook_func_queue_inv cap_receive_inv kcapd_iter_inv)

interpretation capture: transition_system
  "\<lambda>s. env_laws api env \<and> nl_started env s" "\<lambda>s t. env_laws api env \<and> nl_step api env s t" nl_inv
  for api env
  by unfold_locales (auto dest: nl_started_inv intro: nl_step_inv)

end
