(* ===== verification/Capture.thy ===== *)
theory Capture
  imports Netlink
begin

text \<open>
  What \<^verbatim>\<open>netlink/netlink.c\<close> promises as a whole: a packet that passes the hook while a user listens
  reaches the user's socket unchanged and in order; the commands of users end up in the table of
  users; and the error paths.
\<close>

lemma demo_env_laws: "env_laws linux_nlmsg demo_env"
  by (simp add: env_laws_def linux_nlmsg_laws demo_laws)

section \<open>Delivery of captured packets\<close>

text \<open>Memory is available, and a message of at most \<^verbatim>\<open>MAX_SKB_BUFSIZE\<close> payload bytes fits its buffer.\<close>

definition mem_ok :: "nl_env \<Rightarrow> bool" where
  "mem_ok env \<longleftrightarrow>
     (\<forall>tr. e_kmalloc env tr \<noteq> None) \<and> (\<forall>n tr. e_nlmsg_new env n tr \<noteq> None) \<and>
     (\<forall>k p sq t n fl tr. n \<le> MAX_SKB_BUFSIZE \<longrightarrow> e_nlmsg_put env k p sq t n fl tr \<noteq> None)"

text \<open>Packets that pass the hook one after the other.\<close>

fun hook_all :: "nl_env \<Rightarrow> byte list list \<Rightarrow> nl_st \<Rightarrow> fault + nl_st" where
  "hook_all env [] s = Inr s"
| "hook_all env (pkt # pkts) s =
     (case hook_func_queue env pkt s of Inl f \<Rightarrow> Inl f | Inr (v, s') \<Rightarrow> hook_all env pkts s')"

lemma cap_buffer_get_mem_ok:
  assumes "mem_ok env"
  shows "\<exists>a s1. cap_buffer_get env s = (Some a, s1)"
proof (cases "cap_freelist_pop env s")
  case (Pair r s1)
  obtain a where "e_kmalloc env (evs s1) = Some a"
    using assms unfolding mem_ok_def by blast
  with Pair show ?thesis
    by (cases r) (simp_all add: cap_buffer_get_def kdefs)
qed

lemma cap_buffer_alloc_mem_ok:
  assumes "mem_ok env" and "length pkt \<le> MAX_SKB_BUFSIZE"
    and "cap_buffer_alloc env pkt d g t s = Inr (r, s')"
  shows "r \<noteq> None"
proof -
  obtain a s1 where get: "cap_buffer_get env s = (Some a, s1)"
    using cap_buffer_get_mem_ok [OF assms(1)] by blast
  obtain k where "e_nlmsg_new env MAX_SKB_BUFSIZE (evs s1) = Some k"
    using assms(1) unfolding mem_ok_def by blast
  moreover obtain c where "e_nlmsg_put env k (cap_nlk_portid s1) 0 t (length pkt) 0
      (evs s1 @ [Nlmsg_new MAX_SKB_BUFSIZE (Some k)]) = Some c"
    using assms(1,2) unfolding mem_ok_def by blast
  ultimately show ?thesis
    using get assms(3) by (auto simp: cap_buffer_alloc_def kdefs upd_buf_def)
qed

lemma hook_enqueues:
  assumes laws: "env_laws api env" and inv: "nl_inv s" and mem: "mem_ok env"
    and port: "cap_nlk_portid s \<noteq> 0" and len: "length pkt \<le> MAX_SKB_BUFSIZE"
  shows "\<exists>s'. hook_func_queue env pkt s = Inr (NF_ACCEPT, s') \<and> nl_inv s' \<and> enqueued s s' pkt"
proof -
  have l: "list_laws env" "alloc_laws env" "put_laws env" using laws by (simp_all add: env_laws_def)
  have i: "fl_ok s" "q_ok s" "cap_rate_limit s = 0" using inv by (simp_all add: nl_inv_def)
  obtain a s1 where get: "cap_buffer_get env s = (Some a, s1)"
    using cap_buffer_get_mem_ok [OF mem] by blast
  obtain r s' where al: "cap_buffer_alloc env pkt None GFP_KERNEL NLMSG_DONE s = Inr (r, s')"
    "fl_ok s'" "same_rest s s'"
    "case r of None \<Rightarrow> skbs s' = skbs s \<and> (\<forall>k. skb_refs (evs s') k = skb_refs (evs s) k)
     | Some b \<Rightarrow> b = a \<and> (\<exists>k. built s s' a k (cap_nlk_portid s) NLMSG_DONE pkt)"
    using cap_buffer_alloc_some [OF l i(1) get] by blast
  obtain k where r: "r = Some a" and bt: "built s s' a k (cap_nlk_portid s) NLMSG_DONE pkt"
    using al(4) cap_buffer_alloc_mem_ok [OF mem len al(1)] by (cases r) auto
  have rl: "cap_rate_check env s' = (1, s')"
    using al(3) i(3) by (simp add: cap_rate_check_unlimited same_rest_def)
  obtain u where "hook_func_queue env pkt s = Inr (NF_ACCEPT, u)" "enqueued s u pkt"
    using hook_queues [OF i(2) port al(1) [unfolded r] al(2,3) bt rl] by auto
  then show ?thesis using hook_func_queue_inv [OF l inv] by blast
qed

lemma carries_kept:
  "skbs t k = skbs s k \<Longrightarrow> carries t k p ty pkt = carries s k p ty pkt" "skbs t k = skbs s k \<Longrightarrow> framed t k = framed s k"
  by (simp_all add: carries_def framed_def)

lemma hook_all_enqueues:
  assumes "env_laws api env" and "mem_ok env" and "nl_inv s" and "cap_nlk_portid s \<noteq> 0"
    and "\<forall>pkt\<in>set pkts. length pkt \<le> MAX_SKB_BUFSIZE"
  shows "\<exists>t ks. hook_all env pkts s = Inr t \<and> nl_inv t \<and> skbq (evs t) = skbq (evs s) @ ks \<and>
    cap_nlk_portid t = cap_nlk_portid s \<and> users_tab t = users_tab s \<and> sent (evs t) = sent (evs s) \<and>
    keeps_queued s t \<and> list_all2 (\<lambda>k. carries t k (cap_nlk_portid s) NLMSG_DONE) ks pkts \<and> (\<forall>k\<in>set ks. framed t k)"
  using assms(3-5)
proof (induction pkts arbitrary: s)
  case Nil
  then show ?case by (simp add: keeps_queued_def)
next
  case (Cons pkt pkts)
  obtain s1 k where h: "hook_func_queue env pkt s = Inr (NF_ACCEPT, s1)" "nl_inv s1"
    "skbq (evs s1) = skbq (evs s) @ [k]" "carries s1 k (cap_nlk_portid s) NLMSG_DONE pkt"
    "keeps_queued s s1" "cap_nlk_portid s1 = cap_nlk_portid s" "sent (evs s1) = sent (evs s)"
    "users_tab s1 = users_tab s" "framed s1 k"
    using hook_enqueues [OF assms(1) Cons.prems(1) assms(2) Cons.prems(2), of pkt] Cons.prems(3)
    unfolding enqueued_def by (metis list.set_intros(1))
  obtain t ks where t: "hook_all env pkts s1 = Inr t" "nl_inv t" "skbq (evs t) = skbq (evs s1) @ ks"
    "cap_nlk_portid t = cap_nlk_portid s1" "sent (evs t) = sent (evs s1)" "keeps_queued s1 t"
    "list_all2 (\<lambda>k. carries t k (cap_nlk_portid s1) NLMSG_DONE) ks pkts" "users_tab t = users_tab s1"
    "\<forall>k\<in>set ks. framed t k"
    using Cons.IH [OF h(2)] h(6) Cons.prems(2,3) by auto
  have "keeps_queued s t" using h(3,5) t(6) by (simp add: keeps_queued_def)
  moreover have "carries t k (cap_nlk_portid s) NLMSG_DONE pkt" "framed t k"
    using h(3,4,9) t(6) carries_kept [of t k s1] by (simp_all add: keeps_queued_def)
  ultimately show ?case
    using h t by (intro exI [of _ t] exI [of _ "k # ks"]) simp
qed

text \<open>The thread sends everything that is in the queue, in order, and then sleeps.\<close>

definition can_send :: "nl_env \<Rightarrow> bool" where
  "can_send env \<longleftrightarrow> (\<forall>tr. \<not> e_should_stop env tr) \<and> (\<forall>sk k p tr. 0 \<le> e_unicast env sk k p tr)"

lemma kcapd_drains:
  assumes "queue_laws env" and "can_send env" and "nl_inv s" and "length (skbq (evs s)) < fuel"
  shows "\<exists>t. kcapd_thread env fuel s = Some (Inr (Sleeping, t)) \<and> skbq (evs t) = [] \<and> nl_inv t \<and>
    cap_nlk_portid t = cap_nlk_portid s \<and> users_tab t = users_tab s \<and>
    map (\<lambda>(c, p, e). (c, p)) (sent (evs t)) =
      map (\<lambda>(c, p, e). (c, p)) (sent (evs s)) @ map (\<lambda>k. (skbs s k, cap_nlk_portid s)) (skbq (evs s))"
  using assms(3,4)
proof (induction fuel arbitrary: s)
  case 0
  then show ?case by simp
next
  case (Suc fuel)
  have go: "\<not> e_should_stop env (evs s)" using assms(2) by (simp add: can_send_def)
  show ?case
  proof (cases "skbq (evs s)")
    case Nil
    then have it: "kcapd_iter env s =
        Inr (Sleeping, s\<lparr>evs := evs s @ [Kthread_should_stop False, Skb_dequeue None, Wait_kcapd]\<rparr>)"
      by (rule kcapd_iter_nil [OF assms(1) go])
    from kcapd_iter_inv [OF assms(1) Suc.prems(1) it] it Nil show ?thesis by simp
  next
    case (Cons k q)
    let ?err = "round_err env s k (length q)"
    let ?t = "kdo (Consume_skb k) (s\<lparr>evs := evs s @ round_evs env s k (length q) @
      [Netlink_unicast (cap_sock s) k (skbs s k) (cap_nlk_portid s) ?err]\<rparr>)"
    have "0 \<le> ?err" using assms(2) by (simp add: can_send_def round_err_def)
    then have it: "kcapd_iter env s = Inr (Sent, ?t)"
      using kcapd_iter_cons [OF assms(1) go Cons] by (simp add: Let_def)
    have q: "skbq (evs ?t) = q" and "sent (evs ?t) = sent (evs s) @ [(skbs s k, cap_nlk_portid s, ?err)]"
      and "skbs ?t = skbs s" and "cap_nlk_portid ?t = cap_nlk_portid s" and "users_tab ?t = users_tab s"
      using Cons by (simp_all add: kdefs)
    then show ?thesis
      using Suc.IH [OF kcapd_iter_inv [OF assms(1) Suc.prems(1) it]] Suc.prems(2) it Cons by auto
  qed
qed

section \<open>The effect of a buffer of commands\<close>

fun ack_ev :: "nl_ev \<Rightarrow> (nat \<times> int) list" where
  "ack_ev (Netlink_ack p e) = [(p, e)]"
| "ack_ev _ = []"

definition acks :: "nl_ev list \<Rightarrow> (nat \<times> int) list" where
  "acks tr = concat (map ack_ev tr)"

lemma acks_append [simp]: "acks (tr @ es) = acks tr @ concat (map ack_ev es)"
  by (simp add: acks_def)

text \<open>What one message asks for, on the abstract state: the multiset of listening processes, the
  port that captured packets go to, and the acknowledgements.\<close>

definition cmd_members :: "nlmsghdr \<Rightarrow> u32 multiset \<Rightarrow> u32 multiset" where
  "cmd_members h M =
     (if nlmsg_type h = CAP_ADD then if size M < MAX_TAB_SIZE then add_mset (nlmsg_pid h) M else M
      else if nlmsg_type h = CAP_DEL then M - {#nlmsg_pid h#} else M)"

definition cmd_port :: "nlmsghdr \<Rightarrow> u32 \<Rightarrow> u32" where
  "cmd_port h p =
     (if nlmsg_type h = CAP_ADD then nlmsg_pid h else if nlmsg_type h = CAP_DEL then 0 else p)"

definition cmd_known :: "nlmsghdr \<Rightarrow> bool" where
  "cmd_known h \<longleftrightarrow> nlmsg_type h \<in> {CAP_ADD, CAP_DEL, CAP_GET_PACKET}"

definition cmd_acks :: "nlmsghdr \<times> nat \<Rightarrow> (nat \<times> int) list" where
  "cmd_acks hp = (case hp of (h, p) \<Rightarrow>
     if \<not> cmd_known h then [(p, - EINVAL)]
     else if nlmsg_flags h AND NLM_F_ACK \<noteq> 0 then [(p, 0)] else [])"

definition thread_starts :: "nl_env \<Rightarrow> bool" where
  "thread_starts env \<longleftrightarrow> (\<forall>tr. isl (e_kthread_run env tr) = False)"

lemma cap_netlink_ok_known: "cap_netlink_ok (nlmsg_type h) = (if cmd_known h then 0 else - EINVAL)"
  by (simp add: cap_netlink_ok_def cmd_known_def)

lemma cap_receive_one_obs:
  assumes "thread_starts env"
  shows "acks (evs (cap_receive_one env h p s)) = acks (evs s) @ cmd_acks (h, p)"
    and "cap_nlk_portid (cap_receive_one env h p s) = cmd_port h (cap_nlk_portid s)"
    and "users_tab (cap_receive_one env h p s) =
      (if nlmsg_type h = CAP_ADD then snd (user_join (nlmsg_pid h) (users_tab s))
       else if nlmsg_type h = CAP_DEL then snd (user_leave (nlmsg_pid h) (users_tab s)) else users_tab s)"
proof -
  obtain t where "e_kthread_run env (evs s) = Inr t"
    using assms by (cases "e_kthread_run env (evs s)") (auto simp: thread_starts_def dest: spec [of _ "evs s"])
  then show "acks (evs (cap_receive_one env h p s)) = acks (evs s) @ cmd_acks (h, p)"
    and "cap_nlk_portid (cap_receive_one env h p s) = cmd_port h (cap_nlk_portid s)"
    and "users_tab (cap_receive_one env h p s) =
      (if nlmsg_type h = CAP_ADD then snd (user_join (nlmsg_pid h) (users_tab s))
       else if nlmsg_type h = CAP_DEL then snd (user_leave (nlmsg_pid h) (users_tab s)) else users_tab s)"
    by (auto simp: cap_receive_one_def cap_receive_msg_def cap_netlink_ok_known cap_dispatch_def kdefs
        cmd_acks_def cmd_port_def cmd_known_def)
qed

lemma cap_receive_one_quiet:
  "skbq (evs (cap_receive_one env h p s)) = skbq (evs s)" "sent (evs (cap_receive_one env h p s)) = sent (evs s)"
  by (auto simp: cap_receive_one_def cap_receive_msg_def cap_dispatch_def kdefs split: sum.splits)

lemma cap_receive_one_users:
  assumes "thread_starts env" and "usr_ok (users_tab s)" and "nlmsg_pid h \<noteq> 0"
  shows "usr_ok (users_tab (cap_receive_one env h p s)) \<and>
    members (users_tab (cap_receive_one env h p s)) = cmd_members h (members (users_tab s))"
  using users.serve_keeps [OF assms(2), of "Inl (nlmsg_pid h)"] users.serve_members [OF assms(2), of "Inl (nlmsg_pid h)"]
    users.serve_keeps [OF assms(2), of "Inr (nlmsg_pid h)"] users.serve_members [OF assms(2), of "Inr (nlmsg_pid h)"]
    assms
  by (simp add: cap_receive_one_obs(3) cmd_members_def users.serve_def users.serve_spec_def users.valid_req_def)

lemma cap_receive_fold:
  assumes "nlmsg_laws api"
  shows "cap_receive api env bs s =
    Some (fold (\<lambda>(h, p). cap_receive_one env h p) (nl_msgs api bs (Suc (length bs)) 0 (int (length bs))) s)"
  unfolding cap_receive_def cap_receive_skb_def
  by (rule nl_walk_msgs [OF assms]) simp

lemma receive_fold_obs:
  assumes "thread_starts env"
  shows "acks (evs (fold (\<lambda>(h, p). cap_receive_one env h p) ms s)) = acks (evs s) @ concat (map cmd_acks ms) \<and>
    cap_nlk_portid (fold (\<lambda>(h, p). cap_receive_one env h p) ms s) =
      fold (\<lambda>(h, p). cmd_port h) ms (cap_nlk_portid s)"
  by (induction ms arbitrary: s) (auto simp: cap_receive_one_obs [OF assms])

lemma receive_fold_users:
  assumes "thread_starts env" and "usr_ok (users_tab s)" and "\<forall>(h, p)\<in>set ms. nlmsg_pid h \<noteq> 0"
  shows "usr_ok (users_tab (fold (\<lambda>(h, p). cap_receive_one env h p) ms s)) \<and>
    members (users_tab (fold (\<lambda>(h, p). cap_receive_one env h p) ms s)) =
      fold (\<lambda>(h, p). cmd_members h) ms (members (users_tab s))"
  using assms(2,3)
  by (induction ms arbitrary: s) (auto simp: cap_receive_one_users [OF assms(1)])

section \<open>The hook that sends to every user\<close>

text \<open>Memory and receivers are there for every user: each gets a copy.\<close>

definition all_listen :: "nl_env \<Rightarrow> byte list \<Rightarrow> bool" where
  "all_listen env pkt \<longleftrightarrow>
     (\<forall>tr. e_nlmsg_new env (length pkt) tr \<noteq> None) \<and>
     (\<forall>k p sq t fl tr. e_nlmsg_put env k p sq t (length pkt) fl tr \<noteq> None) \<and>
     (\<forall>sk k p tr. e_unicast env sk k p tr \<noteq> - ECONNREFUSED)"

lemma cap_make_reply_ok:
  assumes "put_laws env" and "all_listen env pkt"
  shows "\<exists>k s'. cap_make_reply env p sq t fin multi pkt s = (Some k, s') \<and>
    carries s' k p (if fin then NLMSG_DONE else t) pkt \<and> users_tab s' = users_tab s \<and> sent (evs s') = sent (evs s)"
proof -
  obtain k where k: "e_nlmsg_new env (length pkt) (evs s) = Some k"
    using assms(2) unfolding all_listen_def by blast
  let ?t = "if fin then NLMSG_DONE else t" and ?f = "if multi then NLM_F_MULTI else 0"
  obtain c where c: "e_nlmsg_put env k p sq ?t (length pkt) ?f (evs s @ [Nlmsg_new (length pkt) (Some k)]) = Some c"
    using assms(2) unfolding all_listen_def by blast
  from put_lawsD [OF assms(1) c] k c show ?thesis
    by (simp add: cap_make_reply_def kdefs carries_def)
qed

lemma hook_func_loop_sends:
  assumes "put_laws env" and "all_listen env pkt"
  shows "users_tab (hook_func_loop env pkt is s) = users_tab s \<and>
    (\<exists>cs. map (\<lambda>(c, p, e). (c, p)) (sent (evs (hook_func_loop env pkt is s))) =
       map (\<lambda>(c, p, e). (c, p)) (sent (evs s)) @
       zip (map Some cs) (filter (\<lambda>p. p \<noteq> 0) (map (\<lambda>i. u_pid (usrtab (users_tab s) ! i)) is)) \<and>
       length cs = length (filter (\<lambda>p. p \<noteq> 0) (map (\<lambda>i. u_pid (usrtab (users_tab s) ! i)) is)) \<and>
       (\<forall>c\<in>set cs. take (length pkt) (sk_payload c) = pkt))"
proof (induction "is" arbitrary: s)
  case Nil
  then show ?case by simp
next
  case (Cons i "is")
  let ?p = "u_pid (usrtab (users_tab s) ! i)"
  show ?case
  proof (cases "?p = 0")
    case True
    with Cons.IH [of s] show ?thesis by (simp add: Let_def)
  next
    case False
    obtain k s1 where m: "cap_make_reply env ?p 0 NLMSG_DONE True False pkt s = (Some k, s1)"
      "carries s1 k ?p NLMSG_DONE pkt" "users_tab s1 = users_tab s" "sent (evs s1) = sent (evs s)"
      using cap_make_reply_ok [OF assms, of ?p 0 NLMSG_DONE True False s] by auto
    obtain c where c: "skbs s1 k = Some c" "take (length pkt) (sk_payload c) = pkt"
      using m(2) by (auto simp: carries_def)
    let ?e = "e_unicast env (cap_sock s1) k ?p (evs s1)"
    let ?s2 = "kdo (Netlink_unicast (cap_sock s1) k (Some c) ?p ?e) s1"
    have loop: "hook_func_loop env pkt (i # is) s = hook_func_loop env pkt is ?s2"
      using False m(1) c(1) assms(2) by (simp add: Let_def kcall_def kdo_def all_listen_def)
    have s2: "users_tab ?s2 = users_tab s" "sent (evs ?s2) = sent (evs s) @ [(Some c, ?p, ?e)]"
      using m(3,4) by (simp_all add: kdefs)
    obtain cs where "map (\<lambda>(c, p, e). (c, p)) (sent (evs (hook_func_loop env pkt is ?s2))) =
        map (\<lambda>(c, p, e). (c, p)) (sent (evs ?s2)) @
        zip (map Some cs) (filter (\<lambda>p. p \<noteq> 0) (map (\<lambda>i. u_pid (usrtab (users_tab s) ! i)) is))"
      "length cs = length (filter (\<lambda>p. p \<noteq> 0) (map (\<lambda>i. u_pid (usrtab (users_tab s) ! i)) is))"
      "\<forall>c\<in>set cs. take (length pkt) (sk_payload c) = pkt"
      "users_tab (hook_func_loop env pkt is ?s2) = users_tab s"
      using Cons.IH [of ?s2] unfolding s2(1) by blast
    with loop s2 False c(2) show ?thesis
      by (auto intro!: exI [of _ "c # cs"])
  qed
qed

section \<open>Properties\<close>

text \<open>A module that was loaded and then got a \<^verbatim>\<open>CAP_ADD\<close> message of process 7.\<close>

definition demo_add :: nlmsghdr where
  "demo_add = \<lparr>nlmsg_len = 16, nlmsg_type = CAP_ADD, nlmsg_flags = NLM_F_ACK, nlmsg_seq = 0, nlmsg_pid = 7\<rparr>"

definition demo_loaded :: nl_st where
  "demo_loaded = snd (app_init demo_env nl_boot)"

definition demo_listening :: nl_st where
  "demo_listening = cap_receive_one demo_env demo_add 0 demo_loaded"

lemma demo_loaded_started: "nl_started demo_env demo_loaded"
  by (simp add: nl_started_def demo_loaded_def app_init_def demo_env_def kdefs)

lemma demo_thread: "thread_starts demo_env"
  by (simp add: thread_starts_def demo_env_def)

lemma demo_listening_state:
  "nl_inv demo_listening \<and> cap_nlk_portid demo_listening = 7 \<and> skbq (evs demo_listening) = [] \<and>
   sent (evs demo_listening) = []"
proof -
  note st = nl_started_inv [OF demo_loaded_started]
  have "nl_inv demo_listening"
    using st cap_receive_one_inv [of demo_loaded] by (simp add: demo_listening_def)
  moreover have "cap_nlk_portid demo_listening = 7"
    using st cap_receive_one_obs(2) [OF demo_thread] by (simp add: demo_listening_def cmd_port_def demo_add_def)
  moreover have "\<exists>es. evs demo_listening = evs demo_loaded @ es \<and> fold q_ev es [] = [] \<and> concat (map sent_ev es) = []"
    using st by (simp add: demo_listening_def cap_receive_one_def cap_receive_msg_def cap_netlink_ok_known
        cmd_known_def demo_add_def cap_dispatch_def demo_env_def kdefs)
  ultimately show ?thesis using st by auto
qed

lemma demo_env_good: "mem_ok demo_env" "can_send demo_env"
  by (simp_all add: mem_ok_def can_send_def demo_env_def)

text \<open>The message a packet travels in: its bytes, padded to a multiple of four, under a header that gives the
  length of the whole.\<close>

definition message_of :: "nlskb \<Rightarrow> byte list \<Rightarrow> bool" where
  "message_of m pkt \<longleftrightarrow>
     take (length pkt) (sk_payload m) = pkt \<and> length (sk_payload m) = nl_align (length pkt) \<and>
     nlmsg_type (sk_hdr m) = NLMSG_DONE \<and> nlmsg_len (sk_hdr m) = of_nat (NLMSG_HDRLEN + nl_align (length pkt))"

lemma carries_message_of: "carries s k p NLMSG_DONE pkt \<Longrightarrow> framed s k \<Longrightarrow> message_of (the (skbs s k)) pkt"
  by (auto simp: carries_def framed_def message_of_def)

lemma hook_then_kcapd:
  assumes "env_laws api env" and "mem_ok env" and "can_send env" and "nl_inv s"
    and "cap_nlk_portid s \<noteq> 0" and "skbq (evs s) = []"
    and "\<forall>pkt\<in>set pkts. length pkt \<le> MAX_SKB_BUFSIZE"
  shows "\<exists>t u ms. hook_all env pkts s = Inr t \<and>
    kcapd_thread env (Suc (length pkts)) t = Some (Inr (Sleeping, u)) \<and> skbq (evs u) = [] \<and> nl_inv u \<and>
    cap_nlk_portid u = cap_nlk_portid s \<and> users_tab u = users_tab s \<and>
    map (\<lambda>(c, p, e). (c, p)) (sent (evs u)) =
      map (\<lambda>(c, p, e). (c, p)) (sent (evs s)) @ map (\<lambda>m. (Some m, cap_nlk_portid s)) ms \<and>
    list_all2 message_of ms pkts"
proof -
  obtain t ks where t: "hook_all env pkts s = Inr t" "nl_inv t" "skbq (evs t) = ks"
    "cap_nlk_portid t = cap_nlk_portid s" "sent (evs t) = sent (evs s)" "users_tab t = users_tab s"
    "list_all2 (\<lambda>k. carries t k (cap_nlk_portid s) NLMSG_DONE) ks pkts" "\<forall>k\<in>set ks. framed t k"
    using hook_all_enqueues [OF assms(1,2,4,5,7)] assms(6) by auto
  then have len: "length ks = length pkts" by (simp add: list_all2_lengthD)
  obtain u where u: "kcapd_thread env (Suc (length pkts)) t = Some (Inr (Sleeping, u))" "skbq (evs u) = []" "nl_inv u"
    "cap_nlk_portid u = cap_nlk_portid t" "users_tab u = users_tab t"
    "map (\<lambda>(c, p, e). (c, p)) (sent (evs u)) =
      map (\<lambda>(c, p, e). (c, p)) (sent (evs t)) @ map (\<lambda>k. (skbs t k, cap_nlk_portid t)) (skbq (evs t))"
    using kcapd_drains [OF _ assms(3) t(2), of "Suc (length pkts)"] assms(1) len t(3)
    by (auto simp: env_laws_def)
  let ?ms = "map (\<lambda>k. the (skbs t k)) ks"
  have "map (\<lambda>k. (skbs t k, cap_nlk_portid t)) ks = map (\<lambda>m. (Some m, cap_nlk_portid s)) ?ms"
    using t(4,7) by (auto simp: list_all2_conv_all_nth in_set_conv_nth carries_def) force
  moreover have "list_all2 message_of ?ms pkts"
    using t(7,8) carries_message_of [of t _ "cap_nlk_portid s"] by (simp add: list_all2_conv_all_nth)
  moreover have "map (\<lambda>(c, p, e). (c, p)) (sent (evs u)) =
      map (\<lambda>(c, p, e). (c, p)) (sent (evs s)) @ map (\<lambda>m. (Some m, cap_nlk_portid s)) ?ms"
    using u(6) t(3,5) calculation(1) by simp
  ultimately show ?thesis using t(1,4,6) u(1-5)
    by (intro exI [of _ t] exI [of _ u] exI [of _ ?ms]) simp
qed

text \<open>
  C3. Packets captured while a process listens reach it unchanged and in order. If memory is
  available and sending works, then any number of packets (of at most 2000 bytes each) that pass
  the hook are queued without a fault, and the thread needs one round per packet and one more to
  send them all to the listening port, in the order in which they were captured, each in a message of its
  own whose payload is the packet padded to a multiple of four and whose length field is right; then the queue is
  empty and the thread sleeps.
\<close>

theorem capture_delivers_in_order:
  assumes "env_laws api env" and "mem_ok env" and "can_send env" and "nl_inv s"
    and "cap_nlk_portid s \<noteq> 0" and "skbq (evs s) = []"
    and "\<forall>pkt\<in>set pkts. length pkt \<le> MAX_SKB_BUFSIZE"
  shows "\<exists>t u ms. hook_all env pkts s = Inr t \<and>
    kcapd_thread env (Suc (length pkts)) t = Some (Inr (Sleeping, u)) \<and> skbq (evs u) = [] \<and>
    map (\<lambda>(c, p, e). (c, p)) (sent (evs u)) =
      map (\<lambda>(c, p, e). (c, p)) (sent (evs s)) @ map (\<lambda>m. (Some m, cap_nlk_portid s)) ms \<and>
    list_all2 message_of ms pkts"
  using hook_then_kcapd [OF assms] by blast

theorem capture_delivers_in_order_witness:
  "\<exists>t u ms. hook_all demo_env [[1, 2, 3], [4]] demo_listening = Inr t \<and>
    kcapd_thread demo_env 3 t = Some (Inr (Sleeping, u)) \<and>
    map (\<lambda>(c, p, e). (c, p)) (sent (evs u)) = map (\<lambda>m. (Some m, 7)) ms \<and>
    list_all2 message_of ms [[1, 2, 3], [4]]"
  using capture_delivers_in_order [OF demo_env_laws demo_env_good, of demo_listening "[[1, 2, 3], [4]]"]
    demo_listening_state
  by (fastforce simp: numeral_3_eq_3)

text \<open>
  In every state the loaded module can reach, whatever packets pass, whatever messages arrive and
  whenever the thread runs: the free list holds different, allocated buffers, its counter is its
  length and never above 1024, and the queued socket buffers are different, hold a message and are
  referenced by the queue alone.
\<close>

lemma netlink_reachable_invariant:
  assumes "env_laws api env" and "nl_started env s" and "(nl_step api env)\<^sup>*\<^sup>* s t"
  shows "cap_freelist_count t = int (length (freelist (evs t))) \<and> cap_freelist_count t \<le> CAP_MAXFREE \<and>
    distinct (freelist (evs t)) \<and> (\<forall>a\<in>set (freelist (evs t)). bufs t a \<noteq> None) \<and>
    distinct (skbq (evs t)) \<and> (\<forall>k\<in>set (skbq (evs t)). skbs t k \<noteq> None \<and> skb_refs (evs t) k = 1)"
proof -
  have "(\<lambda>s t. env_laws api env \<and> nl_step api env s t)\<^sup>*\<^sup>* s t"
    using assms(1,3) by simp
  with capture.reachable_inv [of api env s t] assms(1,2) have "nl_inv t" by simp
  then show ?thesis by (auto simp: nl_inv_def fl_ok_def q_ok_def)
qed

lemma netlink_reachable_invariant_witness:
  "\<exists>t. (nl_step linux_nlmsg demo_env)\<^sup>*\<^sup>* demo_loaded t \<and> t \<noteq> demo_loaded \<and>
     cap_freelist_count t = int (length (freelist (evs t)))"
proof -
  obtain t r where it: "cap_receive linux_nlmsg demo_env (hdr_bytes demo_add) demo_loaded = Some t"
    using cap_receive_fold [OF linux_nlmsg_laws] by blast
  have "nl_msgs linux_nlmsg (hdr_bytes demo_add) 17 0 16 = [(demo_add, 0)]"
    using linux_hdr_at_bytes [of "[]" demo_add "[]"]
    by (simp add: numeral_eq_Suc linux_nlmsg_def) (simp add: demo_add_def nl_align_def)
  then have "acks (evs t) = acks (evs demo_loaded) @ [(0, 0)]"
    using it receive_fold_obs [OF demo_thread, of "[(demo_add, 0)]" demo_loaded]
      cap_receive_fold [OF linux_nlmsg_laws, of demo_env "hdr_bytes demo_add" demo_loaded]
    by (simp add: cmd_acks_def cmd_known_def) (simp add: demo_add_def)
  then have "t \<noteq> demo_loaded" by auto
  moreover have st: "(nl_step linux_nlmsg demo_env)\<^sup>*\<^sup>* demo_loaded t"
    using nl_step.command [OF it] by blast
  ultimately show ?thesis
    using netlink_reachable_invariant [OF demo_env_laws demo_loaded_started st] by blast
qed

lemma hook_accepts:
  assumes "list_laws env" and "alloc_laws env" and "put_laws env" and "nl_inv s"
    and port: "cap_nlk_portid s \<noteq> 0" and get: "cap_buffer_get env s = (Some a, s1)"
  shows "\<exists>t. hook_func_queue env pkt s = Inr (NF_ACCEPT, t)"
proof -
  have i: "fl_ok s" "q_ok s" "cap_rate_limit s = 0" using assms(4) by (simp_all add: nl_inv_def)
  obtain q s' where al: "cap_buffer_alloc env pkt None GFP_KERNEL NLMSG_DONE s = Inr (q, s')"
    "fl_ok s'" "same_rest s s'"
    "case q of None \<Rightarrow> skbs s' = skbs s \<and> (\<forall>k. skb_refs (evs s') k = skb_refs (evs s) k)
     | Some b \<Rightarrow> b = a \<and> (\<exists>k. built s s' a k (cap_nlk_portid s) NLMSG_DONE pkt)"
    using cap_buffer_alloc_some [OF assms(1-3) i(1) get] by blast
  have rl: "cap_rate_check env s' = (1, s')"
    using al(3) i(3) by (simp add: cap_rate_check_unlimited same_rest_def)
  show ?thesis
  proof (cases q)
    case None
    with al hook_no_message [OF port] show ?thesis by auto
  next
    case (Some b)
    then obtain k where bt: "built s s' a k (cap_nlk_portid s) NLMSG_DONE pkt" and "q = Some a"
      using al(4) by auto
    then show ?thesis using hook_queues [OF i(2) port _ al(2,3) bt rl] al(1) by auto
  qed
qed

text \<open>
  C17. The registered hook accepts every packet it returns on. It fails to return in exactly one
  situation: somebody listens, no buffer is on the free list and \<^verbatim>\<open>kmalloc\<close> fails; then the error
  path of \<^verbatim>\<open>cap_buffer_alloc\<close> dereferences NULL, and the machine stops.
\<close>

theorem hook_faults_only_without_memory:
  assumes "list_laws env" and "alloc_laws env" and "put_laws env" and "nl_inv s"
  shows "(\<forall>v t. hook_func_queue env pkt s = Inr (v, t) \<longrightarrow> v = NF_ACCEPT) \<and>
    (\<forall>f. hook_func_queue env pkt s = Inl f \<longleftrightarrow>
       f = NullDeref \<and> cap_nlk_portid s \<noteq> 0 \<and> freelist (evs s) = [] \<and>
       e_kmalloc env (evs s @ [List_empty True]) = None)"
proof (cases "cap_nlk_portid s = 0")
  case True
  then show ?thesis by (simp add: hook_idle)
next
  case port: False
  have none: "fst (cap_buffer_get env s) = None \<longleftrightarrow>
      freelist (evs s) = [] \<and> e_kmalloc env (evs s @ [List_empty True]) = None"
    using assms(1) by (auto simp: cap_buffer_get_def cap_freelist_pop_def list_laws_def kdefs
        split: option.splits if_splits)
  show ?thesis
  proof (cases "cap_buffer_get env s")
    case (Pair r s1)
    show ?thesis
    proof (cases r)
      case None
      with Pair hook_no_buffer [OF port] none port show ?thesis by auto
    next
      case (Some a)
      then have "\<exists>t. hook_func_queue env pkt s = Inr (NF_ACCEPT, t)"
        using hook_accepts [OF assms port] Pair by simp
      with none Pair Some show ?thesis by auto
    qed
  qed
qed

theorem hook_faults_only_without_memory_witness:
  "hook_func_queue (demo_env\<lparr>e_kmalloc := (\<lambda>tr. None)\<rparr>) [1, 2] demo_listening = Inl NullDeref"
proof -
  let ?env = "demo_env\<lparr>e_kmalloc := (\<lambda>tr. None)\<rparr>"
  have laws: "list_laws ?env" "alloc_laws ?env" "put_laws ?env"
    using demo_laws by (simp_all add: list_laws_def alloc_laws_def put_laws_def)
  have "freelist (evs demo_listening) = []"
    by (simp add: demo_listening_def demo_loaded_def cap_receive_one_def cap_receive_msg_def cap_netlink_ok_known
        cmd_known_def demo_add_def cap_dispatch_def demo_env_def app_init_def cap_hook_init_def nl_boot_def
        kdefs freelist_def)
  then show ?thesis
    using hook_faults_only_without_memory [OF laws, of demo_listening "[1, 2]"] demo_listening_state by auto
qed

text \<open>
  C10. One buffer of messages from a user, with non-zero process ids, is handled to its end. The table
  of users stays in order and becomes what the messages ask for one after the other, on the multiset
  of listening processes; captured packets go to the process of the last \<^verbatim>\<open>CAP_ADD\<close>, to nobody after
  a \<^verbatim>\<open>CAP_DEL\<close>.
\<close>

theorem cap_receive_serves_commands:
  assumes "nlmsg_laws api" and "thread_starts env" and "usr_ok (users_tab s)"
    and "\<forall>(h, p)\<in>set (nl_msgs api bs (Suc (length bs)) 0 (int (length bs))). nlmsg_pid h \<noteq> 0"
  shows "\<exists>t. cap_receive api env bs s = Some t \<and> usr_ok (users_tab t) \<and>
    members (users_tab t) = fold (\<lambda>(h, p). cmd_members h)
      (nl_msgs api bs (Suc (length bs)) 0 (int (length bs))) (members (users_tab s)) \<and>
    cap_nlk_portid t = fold (\<lambda>(h, p). cmd_port h)
      (nl_msgs api bs (Suc (length bs)) 0 (int (length bs))) (cap_nlk_portid s)"
  using cap_receive_fold [OF assms(1)] receive_fold_users [OF assms(2-4)] receive_fold_obs [OF assms(2)]
  by (simp del: nl_msgs.simps)

lemma demo_msgs:
  "nl_msgs linux_nlmsg (hdr_bytes demo_add) (Suc (length (hdr_bytes demo_add))) 0
     (int (length (hdr_bytes demo_add))) = [(demo_add, 0)]"
  using linux_hdr_at_bytes [of "[]" demo_add "[]"]
  by (simp add: numeral_eq_Suc linux_nlmsg_def) (simp add: demo_add_def nl_align_def)

theorem cap_receive_serves_commands_witness:
  "\<exists>t. cap_receive linux_nlmsg demo_env (hdr_bytes demo_add) demo_loaded = Some t \<and>
     members (users_tab t) = {#7#} \<and> cap_nlk_portid t = 7"
  using cap_receive_serves_commands [OF linux_nlmsg_laws demo_thread, of demo_loaded "hdr_bytes demo_add"]
    nl_started_inv [OF demo_loaded_started] demo_msgs
  by (auto simp: demo_add_def cmd_members_def cmd_port_def)

text \<open>
  C24. Exactly the messages that fail or ask for it are acknowledged, in order: an unknown type
  (\<^verbatim>\<open>CAP_PACKET\<close> among them) gets \<^verbatim>\<open>-EINVAL\<close>, a known one with \<^verbatim>\<open>NLM_F_ACK\<close> gets 0.
\<close>

theorem cap_receive_acknowledges:
  assumes "nlmsg_laws api" and "thread_starts env"
  shows "\<exists>t. cap_receive api env bs s = Some t \<and>
    acks (evs t) = acks (evs s) @
      concat (map cmd_acks (nl_msgs api bs (Suc (length bs)) 0 (int (length bs))))"
  using cap_receive_fold [OF assms(1)] receive_fold_obs [OF assms(2)] by (simp del: nl_msgs.simps)

theorem cap_receive_acknowledges_witness:
  "\<exists>t. cap_receive linux_nlmsg demo_env (hdr_bytes demo_add) demo_loaded = Some t \<and>
     acks (evs t) = acks (evs demo_loaded) @ [(0, 0)]"
  using cap_receive_acknowledges [OF linux_nlmsg_laws demo_thread, of "hdr_bytes demo_add" demo_loaded] demo_msgs
  by (simp add: cmd_acks_def cmd_known_def del: nl_msgs.simps) (simp add: demo_add_def)

text \<open>
  C26. What a round of the thread does when sending fails. If the listening process is gone, it stops
  capturing but keeps the extra reference it took: the first socket buffer has left the queue and is
  still referenced, so nothing will ever free it; the rest of the queue is untouched. Any other
  failure is a failed \<^verbatim>\<open>BUG_ON\<close>.
\<close>

theorem kcapd_refused_keeps_reference:
  assumes "queue_laws env" and "nl_inv s" and "\<not> e_should_stop env (evs s)" and "skbq (evs s) = k # q"
    and "\<forall>tr. e_unicast env (cap_sock s) k (cap_nlk_portid s) tr = err" and "err < 0"
  shows "if err = - ECONNREFUSED
    then \<exists>t. kcapd_iter env s = Inr (Sent, t) \<and> cap_nlk_portid t = 0 \<and> skbq (evs t) = q \<and> k \<notin> set q \<and>
      skb_refs (evs t) k = 1 \<and> keeps_queued t s
    else kcapd_iter env s = Inl BugOn"
proof -
  have "k \<notin> set q" "skb_refs (evs s) k = 1" using assms(2,4) by (auto simp: nl_inv_def q_ok_def)
  moreover have "round_err env s k (length q) = err" using assms(5) by (simp add: round_err_def)
  ultimately show ?thesis
    using assms(4,6) kcapd_iter_cons [OF assms(1,3,4)] by (auto simp: Let_def keeps_queued_def)
qed

text \<open>A module with one captured packet in its queue.\<close>

definition demo_queued :: nl_st where
  "demo_queued = (case hook_all demo_env [[1, 2, 3]] demo_listening of Inr t \<Rightarrow> t | Inl f \<Rightarrow> demo_listening)"

theorem kcapd_refused_keeps_reference_witness:
  "\<exists>t k. kcapd_iter (demo_env\<lparr>e_unicast := (\<lambda>sk k p tr. - 111)\<rparr>) demo_queued = Inr (Sent, t) \<and> skbq (evs t) = [] \<and>
     skb_refs (evs t) k = 1"
proof -
  let ?env = "demo_env\<lparr>e_unicast := (\<lambda>sk k p tr. - 111)\<rparr>"
  obtain t ks where t: "hook_all demo_env [[1, 2, 3]] demo_listening = Inr t" "nl_inv t" "skbq (evs t) = ks"
    "list_all2 (\<lambda>k. carries t k 7 NLMSG_DONE) ks [[1, 2, 3]]"
    using hook_all_enqueues [OF demo_env_laws demo_env_good(1), of demo_listening "[[1, 2, 3]]"] demo_listening_state by auto
  then obtain k where k: "skbq (evs t) = [k]" by (auto simp: list_all2_Cons2)
  have "queue_laws ?env" using demo_laws by (simp add: queue_laws_def)
  moreover have "\<not> e_should_stop ?env tr" for tr by (simp add: demo_env_def)
  ultimately show ?thesis
    using kcapd_refused_keeps_reference [of ?env t k "[]" "- 111"] t(1,2) k by (auto simp: demo_queued_def)
qed

text \<open>
  C27. A packet that the rate limiter refuses is lost together with its memory: the hook returns
  holding the capture buffer, which is neither freed nor put back on the free list, and the buffer's
  socket buffer keeps its reference without being queued.
\<close>

theorem rate_limited_packet_leaks:
  assumes "list_laws env" and "alloc_laws env" and "put_laws env" and "fl_ok s" and "q_ok s"
    and "cap_nlk_portid s \<noteq> 0"
    and "cap_buffer_alloc env pkt None GFP_KERNEL NLMSG_DONE s = Inr (Some a, s1)"
    and "cap_rate_check env s1 = (0, s2)"
  shows "hook_func_queue env pkt s = Inr (NF_ACCEPT, s2) \<and> held s2 a \<and> skbq (evs s2) = skbq (evs s) \<and>
    (\<exists>k. skb_refs (evs s) k = 0 \<and> skb_refs (evs s2) k = 1 \<and> k \<notin> set (skbq (evs s2)))"
proof -
  obtain r' s1' where get: "cap_buffer_get env s = (r', s1')" by (cases "cap_buffer_get env s")
  then obtain b where b: "r' = Some b"
    using assms(7) cap_buffer_alloc_none [of env s s1' pkt None GFP_KERNEL NLMSG_DONE] by (cases r') auto
  obtain k where bt: "built s s1 a k (cap_nlk_portid s) NLMSG_DONE pkt" and "fl_ok s1" "same_rest s s1"
    using cap_buffer_alloc_some [OF assms(1-4) get [unfolded b], of pkt None GFP_KERNEL NLMSG_DONE] assms(7) by auto
  then have b2: "built s s2 a k (cap_nlk_portid s) NLMSG_DONE pkt" and sq: "skbq (evs s2) = skbq (evs s)"
    using built_frame [OF bt _ _ assms(8)] by (auto simp: same_rest_def)
  then have "k \<notin> set (skbq (evs s))" using assms(5) by (auto simp: q_ok_def built_def)
  with b2 sq show ?thesis using hook_refused [OF assms(6-8)] by (auto simp: built_def)
qed

text \<open>The same module with a limit of one packet per second.\<close>

definition demo_limited :: nl_st where
  "demo_limited = demo_listening\<lparr>cap_rate_limit := 1, packets := 0, last_check := 0\<rparr>"

theorem rate_limited_packet_leaks_witness:
  "\<exists>a t. hook_func_queue demo_env [1, 2] demo_limited = Inr (NF_ACCEPT, t) \<and> held t a"
proof -
  have ok: "fl_ok demo_limited" "q_ok demo_limited" "cap_nlk_portid demo_limited \<noteq> 0"
    using demo_listening_state by (simp_all add: demo_limited_def nl_inv_def fl_ok_def q_ok_def)
  obtain a s0 where "cap_buffer_get demo_env demo_limited = (Some a, s0)"
    using cap_buffer_get_mem_ok [OF demo_env_good(1)] by blast
  from cap_buffer_alloc_some [OF demo_laws(1,3,4) ok(1) this, of "[1, 2]" None GFP_KERNEL NLMSG_DONE]
  obtain r s1 where al: "cap_buffer_alloc demo_env [1, 2] None GFP_KERNEL NLMSG_DONE demo_limited = Inr (r, s1)"
    and sr: "same_rest demo_limited s1" by blast
  obtain b where r: "r = Some b"
    using cap_buffer_alloc_mem_ok [OF demo_env_good(1) _ al] by auto
  have "cap_rate_check demo_env s1 = (0, snd (cap_rate_check demo_env s1))"
    using sr by (simp add: cap_rate_check_def same_rest_def demo_limited_def demo_env_def kdefs)
  from rate_limited_packet_leaks [OF demo_laws(1,3,4) ok al [unfolded r] this] show ?thesis by blast
qed

text \<open>
  \<^verbatim>\<open>hook_func\<close>, the hook that is not registered, gives every user of the table its own copy of the
  packet, in table order, when memory is available and no user has gone away.
\<close>

lemma hook_func_sends_to_every_user:
  assumes "put_laws env" and "all_listen env pkt" and "length (usrtab (users_tab s)) = MAX_TAB_SIZE"
  shows "\<exists>t cs. hook_func env pkt s = (NF_ACCEPT, t) \<and> users_tab t = users_tab s \<and>
    map (\<lambda>(c, p, e). (c, p)) (sent (evs t)) = map (\<lambda>(c, p, e). (c, p)) (sent (evs s)) @
      zip (map Some cs) (filter (\<lambda>p. p \<noteq> 0) (map u_pid (usrtab (users_tab s)))) \<and>
    length cs = length (filter (\<lambda>p. p \<noteq> 0) (map u_pid (usrtab (users_tab s)))) \<and>
    (\<forall>c\<in>set cs. take (length pkt) (sk_payload c) = pkt)"
proof -
  have "map (\<lambda>i. u_pid (usrtab (users_tab s) ! i)) [0..<MAX_TAB_SIZE] = map u_pid (usrtab (users_tab s))"
    using assms(3) by (intro nth_equalityI) simp_all
  then show ?thesis
    using hook_func_loop_sends [OF assms(1,2), of "[0..<MAX_TAB_SIZE]" s] by (simp add: hook_func_def)
qed

lemma hook_func_sends_to_every_user_witness:
  "\<exists>t cs. hook_func demo_env [1, 2] (nl_boot\<lparr>users_tab := full_users\<rparr>) = (NF_ACCEPT, t) \<and> length cs = 32 \<and>
    map (\<lambda>(c, p, e). (c, p)) (sent (evs t)) = zip (map Some cs) (replicate 32 7)"
proof -
  have l: "all_listen demo_env [1, 2]" by (simp add: all_listen_def demo_env_def)
  have "filter (\<lambda>p. p \<noteq> 0) (map u_pid (usrtab full_users)) = replicate 32 7"
    by (simp add: full_users_def)
  then show ?thesis
    using hook_func_sends_to_every_user [OF demo_laws(4) l, of "nl_boot\<lparr>users_tab := full_users\<rparr>"]
    by (auto simp: nl_boot_def sent_def full_users_def)
qed

lemma cap_receive_one_skbs: "skbs (cap_receive_one env h p s) = skbs s"
  by (auto simp: cap_receive_one_def cap_receive_msg_def cap_dispatch_def kdefs split: sum.splits)

text \<open>
  C39. Packets that wait in the queue when a message arrives do not go to the process they were captured for. The
  thread sends all of them, in order, to the port it finds when it sends: after a \<^verbatim>\<open>CAP_ADD\<close> to the process that sent that
  message, after a \<^verbatim>\<open>CAP_DEL\<close> to port 0, which is the kernel itself.
\<close>

theorem backlog_follows_port:
  assumes "env_laws api env" and "can_send env" and "thread_starts env" and "nl_inv s"
  shows "\<exists>t. kcapd_thread env (Suc (length (skbq (evs s)))) (cap_receive_one env h p s) = Some (Inr (Sleeping, t)) \<and>
    skbq (evs t) = [] \<and>
    map (\<lambda>(c, p, e). (c, p)) (sent (evs t)) = map (\<lambda>(c, p, e). (c, p)) (sent (evs s)) @
      map (\<lambda>k. (skbs s k, if nlmsg_type h = CAP_ADD then nlmsg_pid h
                            else if nlmsg_type h = CAP_DEL then 0 else cap_nlk_portid s)) (skbq (evs s))"
proof -
  let ?t = "cap_receive_one env h p s"
  have "queue_laws env" using assms(1) by (simp add: env_laws_def)
  from kcapd_drains [OF this assms(2) cap_receive_one_inv [OF assms(4)], of env h p "Suc (length (skbq (evs s)))"]
  show ?thesis
    by (auto simp: cap_receive_one_obs(2) [OF assms(3)] cap_receive_one_quiet cap_receive_one_skbs cmd_port_def)
qed

theorem backlog_follows_port_witness:
  "\<exists>t m. kcapd_thread demo_env 2 (cap_receive_one demo_env (demo_add\<lparr>nlmsg_type := CAP_DEL\<rparr>) 0 demo_queued) =
      Some (Inr (Sleeping, t)) \<and> map (\<lambda>(c, p, e). (c, p)) (sent (evs t)) = [(Some m, 0)] \<and>
    take 3 (sk_payload m) = [1, 2, 3]"
proof -
  obtain ks where t: "nl_inv demo_queued" "skbq (evs demo_queued) = ks" "sent (evs demo_queued) = []"
    "list_all2 (\<lambda>k. carries demo_queued k 7 NLMSG_DONE) ks [[1, 2, 3]]"
    using hook_all_enqueues [OF demo_env_laws demo_env_good(1), of demo_listening "[[1, 2, 3]]"] demo_listening_state
    by (auto simp: demo_queued_def)
  then obtain k m where k: "skbq (evs demo_queued) = [k]" "skbs demo_queued k = Some m" "take 3 (sk_payload m) = [1, 2, 3]"
    by (auto simp: list_all2_Cons2 carries_def numeral_3_eq_3)
  then show ?thesis
    using backlog_follows_port [OF demo_env_laws demo_env_good(2) demo_thread t(1), of "demo_add\<lparr>nlmsg_type := CAP_DEL\<rparr>" 0] t(3)
    by (auto simp: numeral_2_eq_2)
qed

end
