(* ===== verification/Cnum.thy ===== *)
theory Cnum
  imports KPrelude
begin

text \<open>
  Numbers as text, the part of the C library the programs and modules use: \<^verbatim>\<open>%d\<close> and \<^verbatim>\<open>%ld\<close> of the \<^verbatim>\<open>printf\<close> family, and
  \<^verbatim>\<open>atoi\<close>, which reads what they print. \<open>atoi\<close> is the one of the GNU library, a \<^verbatim>\<open>long\<close> read by \<^verbatim>\<open>strtol\<close>, cut to an
  \<^verbatim>\<open>int\<close>; a number outside of \<^verbatim>\<open>long\<close> becomes the nearest one inside.
\<close>

section \<open>Printing\<close>

text \<open>The bytes of a C literal, without its terminator.\<close>

definition lit :: "string \<Rightarrow> byte list" where
  "lit cs = map (of_nat \<circ> of_char) cs"

fun dec :: "nat \<Rightarrow> byte list" where
  "dec n = (if n < 10 then [of_nat (48 + n)] else dec (n div 10) @ [of_nat (48 + n mod 10)])"

declare dec.simps [simp del]

definition sdec :: "int \<Rightarrow> byte list" where
  "sdec n = (if n < 0 then 45 # dec (nat (- n)) else dec (nat n))"

section \<open>Reading\<close>

definition isspace :: "byte \<Rightarrow> bool" where
  "isspace b \<longleftrightarrow> b \<in> {9, 10, 11, 12, 13, 32}"

definition isdigit :: "byte \<Rightarrow> bool" where
  "isdigit b \<longleftrightarrow> 48 \<le> b \<and> b \<le> 57"

definition undec :: "byte list \<Rightarrow> nat" where
  "undec bs = fold (\<lambda>b n. 10 * n + (unat b - 48)) bs 0"

definition sign_of :: "byte list \<Rightarrow> int \<times> byte list" where
  "sign_of bs = (if bs \<noteq> [] \<and> hd bs = 45 then (-1, tl bs) else if bs \<noteq> [] \<and> hd bs = 43 then (1, tl bs) else (1, bs))"

definition strtol10 :: "byte list \<Rightarrow> int" where
  "strtol10 bs =
     (let (sgn, ds) = sign_of (dropWhile isspace (cstr bs))
      in max (- (2 ^ 63)) (min (2 ^ 63 - 1) (sgn * int (undec (takeWhile isdigit ds)))))"

definition atoi :: "byte list \<Rightarrow> u32" where
  "atoi bs = of_int (strtol10 bs)"

section \<open>What is printed is read back\<close>

lemma digit_value: "d < 10 \<Longrightarrow> unat (48 + word_of_nat d :: byte) - 48 = d"
proof -
  assume "d < 10"
  moreover have "(48 + word_of_nat d :: byte) = word_of_nat (48 + d)" by simp
  ultimately show ?thesis by (simp only: unat_of_nat) (simp add: take_bit_nat_eq_self)
qed

lemma isdigit_of_nat: "d < 10 \<Longrightarrow> isdigit (48 + word_of_nat d)"
proof -
  assume "d < 10"
  moreover have "(48 + word_of_nat d :: byte) = word_of_nat (48 + d)" by simp
  ultimately show ?thesis
    by (simp only: isdigit_def word_le_nat_alt unat_of_nat) (simp add: take_bit_nat_eq_self)
qed

lemma undec_dec: "undec (dec n) = n"
proof (induction n rule: dec.induct)
  case (1 n)
  then show ?case
    by (cases "n < 10") (simp_all add: dec.simps [of n] undec_def digit_value mult.commute)
qed

lemma dec_digits: "\<forall>b\<in>set (dec n). isdigit b"
proof (induction n rule: dec.induct)
  case (1 n)
  then show ?case
    by (cases "n < 10") (simp_all add: dec.simps [of n] isdigit_of_nat)
qed

lemma dec_not_Nil: "dec n \<noteq> []"
  by (simp add: dec.simps [of n])

lemma length_dec: "n < 10 ^ Suc k \<Longrightarrow> length (dec n) \<le> Suc k"
proof (induction k arbitrary: n)
  case 0
  then show ?case by (simp add: dec.simps [of n])
next
  case (Suc k)
  then have "n div 10 < 10 ^ Suc k" by (simp add: less_mult_imp_div_less)
  from Suc.IH [OF this] show ?case by (cases "n < 10") (simp_all add: dec.simps [of n])
qed

lemma isdigit_graphic: "isdigit b \<Longrightarrow> b \<noteq> 0 \<and> b \<noteq> 45 \<and> b \<noteq> 43 \<and> \<not> isspace b"
  by (auto simp: isdigit_def isspace_def word_le_nat_alt)

lemma sdec_no_NUL: "0 \<notin> set (sdec n)"
proof -
  have "0 \<notin> set (dec k)" for k using dec_digits [of k] isdigit_graphic [of 0] by blast
  then show ?thesis by (simp add: sdec_def)
qed

lemma strtol10_sdec:
  assumes "- (2 ^ 63) \<le> n" and "n < 2 ^ 63"
  shows "strtol10 (sdec n @ 0 # rest) = n"
proof -
  have w: "takeWhile isdigit (dec k) = dec k" for k using dec_digits by (simp add: takeWhile_eq_all_conv)
  have h: "isdigit (hd (dec k))" for k using dec_digits [of k] dec_not_Nil [of k] by (simp add: hd_in_set)
  have "cstr (sdec n @ 0 # rest) = sdec n" using sdec_no_NUL by (simp add: cstr_id)
  moreover have "dropWhile isspace (sdec n) = sdec n"
    using isdigit_graphic [OF h] dec_not_Nil [of "nat n"]
    by (cases "dec (nat n)") (auto simp: sdec_def isspace_def dest: arg_cong [of _ _ hd])
  moreover have "sign_of (sdec n) = (if n < 0 then (-1, dec (nat (- n))) else (1, dec (nat n)))"
    using isdigit_graphic [OF h] by (simp add: sign_of_def sdec_def)
  ultimately show ?thesis
    using assms by (simp add: strtol10_def w undec_dec)
qed

lemma atoi_sdec:
  assumes "- (2 ^ 31) \<le> n" and "n < 2 ^ 31"
  shows "sint (atoi (sdec n @ 0 # rest)) = n"
proof -
  have "strtol10 (sdec n @ 0 # rest) = n" using assms by (intro strtol10_sdec) simp_all
  then show ?thesis using assms by (simp add: atoi_def signed_take_bit_int_eq_self sint_sbintrunc')
qed

text \<open>Text that does not start with a number is 0.\<close>

lemma atoi_garbage:
  assumes "\<not> isdigit b" and "b \<notin> {43, 45}" and "\<not> isspace b"
  shows "atoi (b # bs) = 0"
  using assms by (cases "b = 0") (simp_all add: atoi_def strtol10_def cstr_def sign_of_def undec_def)

end
