(* ===== verification/UserClient.thy ===== *)
theory UserClient
  imports Capture Cnum
begin

text \<open>
  \<^verbatim>\<open>netlink/user_client.c\<close>, the program that listens to the capture module of \<open>Netlink\<close>: it registers
  with \<^verbatim>\<open>CAP_ADD\<close>, receives as many packets as its argument says, and leaves with \<^verbatim>\<open>CAP_DEL\<close>.

  System calls and libc are the environment. \<^verbatim>\<open>malloc\<close> answers with an address and the contents of the
  block, since the program sends parts of it that it never wrote. The counter of the receive loop is a
  32-bit word; for an argument that is not positive the loop passes through the whole range of the
  type, signed overflow taken as wrap-around. \<^verbatim>\<open>exit\<close> is the left value of the result.
  \<^verbatim>\<open>recv_from_kernel_ntlkmsg\<close> is never called; it is modelled for completeness.
\<close>

datatype uc_ev =
    Uc_socket int
  | Uc_getpid u32
  | Uc_bind int u32 int
  | Uc_malloc nat "(addr \<times> byte list) option"
  | Uc_sendmsg int "byte list" int
  | Uc_recvmsg int "int \<times> byte list"
  | Show_packet u32 "byte list"
  | Show_ntlkmsg u32 u32 int "byte list"

record uc_env =
  uc_socket :: "uc_ev list \<Rightarrow> int"
  uc_getpid :: "uc_ev list \<Rightarrow> u32"
  uc_bind :: "int \<Rightarrow> u32 \<Rightarrow> uc_ev list \<Rightarrow> int"
  uc_malloc :: "nat \<Rightarrow> uc_ev list \<Rightarrow> (addr \<times> byte list) option"
  uc_sendmsg :: "int \<Rightarrow> byte list \<Rightarrow> uc_ev list \<Rightarrow> int"
  uc_recvmsg :: "int \<Rightarrow> uc_ev list \<Rightarrow> int \<times> byte list"

text \<open>The globals: the socket, and the message buffer \<^verbatim>\<open>nlh\<close> with its contents.\<close>

record uc_st = "uc_ev kst" +
  sock_fd :: int
  nlh :: "(addr \<times> byte list) option"

abbreviation MAX_PAYLOAD :: nat where "MAX_PAYLOAD \<equiv> 1600"
abbreviation MSG_SPACE :: nat where "MSG_SPACE \<equiv> 1616"

type_synonym 'a exits = "int + 'a"

definition netlink_init :: "uc_env \<Rightarrow> uc_st \<Rightarrow> uc_st exits" where
  "netlink_init env s =
     (let (fd, s1) = kcall (uc_socket env) Uc_socket s;
          s2 = s1\<lparr>sock_fd := fd\<rparr>
      in if fd < 0 then Inl (-1)
         else let (p, s3) = kcall (uc_getpid env) Uc_getpid s2;
                  (ret, s4) = kcall (uc_bind env fd p) (Uc_bind fd p) s3
              in if ret < 0 then Inl (-1) else Inr s4)"

text \<open>\<^verbatim>\<open>send_to_kernel\<close>: the sequence number and what \<^verbatim>\<open>strncpy\<close> does not reach are sent as \<^verbatim>\<open>malloc\<close> left
  them.\<close>

definition uc_message :: "u16 \<Rightarrow> u32 \<Rightarrow> byte list \<Rightarrow> nat \<Rightarrow> byte list \<Rightarrow> byte list" where
  "uc_message type p data len junk =
     memcpy_at NLMSG_HDRLEN
       (memcpy_at 0 junk
         (hdr_bytes \<lparr>nlmsg_len = of_nat MSG_SPACE, nlmsg_type = type, nlmsg_flags = 0,
                     nlmsg_seq = rd32 (drop 8 junk), nlmsg_pid = p\<rparr>))
       (strncpy len data)"

definition send_to_kernel :: "uc_env \<Rightarrow> byte list \<Rightarrow> nat \<Rightarrow> u16 \<Rightarrow> uc_st \<Rightarrow> uc_st exits" where
  "send_to_kernel env data len type s =
     (let (m, s1) = kcall (uc_malloc env MSG_SPACE) (Uc_malloc MSG_SPACE) s
      in case m of
           None \<Rightarrow> Inl (-1)
         | Some (a, junk) \<Rightarrow>
             (let (p, s2) = kcall (uc_getpid env) Uc_getpid s1;
                  bytes = uc_message type p data len junk;
                  s3 = s2\<lparr>nlh := Some (a, bytes)\<rparr>;
                  (r, s4) = kcall (uc_sendmsg env (sock_fd s3) bytes) (Uc_sendmsg (sock_fd s3) bytes) s3
              in Inr s4))"

text \<open>Both receive functions clear the buffer first and show what they find in it, \<^verbatim>\<open>recvmsg\<close> having
  stored at most its length.\<close>

definition recv_buffer :: "uc_env \<Rightarrow> uc_st \<Rightarrow> int \<times> byte list \<times> uc_st" where
  "recv_buffer env s =
     (let (r, s1) = kcall (uc_recvmsg env (sock_fd s)) (Uc_recvmsg (sock_fd s)) s;
          bytes = memcpy_at 0 (replicate MSG_SPACE 0) (take MSG_SPACE (snd r))
      in (fst r, bytes, s1\<lparr>nlh := map_option (\<lambda>(a, _). (a, bytes)) (nlh s1)\<rparr>))"

definition recv_from_kernel :: "uc_env \<Rightarrow> uc_st \<Rightarrow> uc_st" where
  "recv_from_kernel env s =
     (let (len, bytes, s1) = recv_buffer env s
      in kdo (Show_packet (of_int len - of_nat NLMSG_HDRLEN) (take 12 (drop NLMSG_HDRLEN bytes))) s1)"

definition recv_from_kernel_ntlkmsg :: "uc_env \<Rightarrow> uc_st \<Rightarrow> uc_st" where
  "recv_from_kernel_ntlkmsg env s =
     (let (len, bytes, s1) = recv_buffer env s; d = drop NLMSG_HDRLEN bytes
      in kdo (Show_ntlkmsg (rd32 d) (rd32 (drop 4 d)) len (cstr (drop 8 d))) s1)"

lemma unat_pred: "(x::u32) \<noteq> 0 \<Longrightarrow> unat (x - 1) + 1 = unat x"
  using unat_gt_0 [of x] by (simp add: unat_minus_one)

lemma unat_pred_wrap: "unat ((x::u32) - 1) + 1 = (if x = 0 then 2 ^ 32 else unat x)"
proof (cases "x = 0")
  case True
  have "unat (- 1 :: u32) = 2 ^ 32 - 1" by (simp add: unsigned_minus_1_eq_mask mask_eq_exp_minus_1)
  with True show ?thesis by simp
next
  case False
  with unat_pred [OF this] show ?thesis by simp
qed

text \<open>The endless loop of \<^verbatim>\<open>main\<close>, left when the counter reaches 0.\<close>

function uc_loop :: "uc_env \<Rightarrow> u32 \<Rightarrow> uc_st \<Rightarrow> uc_st" where
  "uc_loop env time s =
     (if time - 1 = 0 then recv_from_kernel env s else uc_loop env (time - 1) (recv_from_kernel env s))"
  by auto

termination
proof (relation "measure (\<lambda>(env, time, s). unat (time - 1))")
  fix env and time :: u32 and s :: uc_st
  assume "time - 1 \<noteq> 0"
  then show "((env, time - 1, recv_from_kernel env s), env, time, s) \<in> measure (\<lambda>(env, time, s). unat (time - 1))"
    using unat_pred [of "time - 1"] by simp
qed simp

declare uc_loop.simps [simp del]

definition hello :: "byte list" where
  "hello = lit ''hello, netlink world''"

definition bye :: "byte list" where
  "bye = lit ''Bye, netlink world''"

text \<open>\<^verbatim>\<open>main\<close> after \<^verbatim>\<open>time = atoi(argv[1])\<close>.\<close>

definition uc_main :: "uc_env \<Rightarrow> u32 \<Rightarrow> uc_st \<Rightarrow> uc_st exits" where
  "uc_main env time s =
     (let len = strlen hello + 1
      in case netlink_init env s of
           Inl e \<Rightarrow> Inl e
         | Inr s1 \<Rightarrow>
             (case send_to_kernel env hello len CAP_ADD s1 of
                Inl e \<Rightarrow> Inl e
              | Inr s2 \<Rightarrow> send_to_kernel env bye len CAP_DEL (uc_loop env time s2)))"

text \<open>The whole program, on the strings of its command line; without an argument \<^verbatim>\<open>argv[1]\<close> is NULL, which \<^verbatim>\<open>atoi\<close>
  dereferences.\<close>

definition uc_program :: "uc_env \<Rightarrow> byte list list \<Rightarrow> uc_st \<Rightarrow> fault + uc_st exits" where
  "uc_program env argv s = (if length argv < 2 then Inl NullDeref else Inr (uc_main env (atoi (argv ! 1)) s))"

section \<open>What the program does\<close>

fun uc_io_ev :: "uc_ev \<Rightarrow> (byte list + byte list) list" where
  "uc_io_ev (Uc_sendmsg fd bs r) = [Inl bs]"
| "uc_io_ev (Show_packet n bs) = [Inr bs]"
| "uc_io_ev _ = []"

definition uc_io :: "uc_ev list \<Rightarrow> (byte list + byte list) list" where
  "uc_io tr = concat (map uc_io_ev tr)"

lemma uc_io_append [simp]: "uc_io (tr @ es) = uc_io tr @ concat (map uc_io_ev es)"
  by (simp add: uc_io_def)

lemma recv_from_kernel_io:
  "\<exists>bs. uc_io (evs (recv_from_kernel env s)) = uc_io (evs s) @ [Inr bs] \<and> length bs = 12"
  by (simp add: recv_from_kernel_def recv_buffer_def kdefs memcpy_at_0)

lemma uc_loop_io:
  "\<exists>ps. uc_io (evs (uc_loop env time s)) = uc_io (evs s) @ map Inr ps \<and>
     length ps = unat (time - 1) + 1 \<and> (\<forall>p\<in>set ps. length p = 12)"
proof (induction env time s rule: uc_loop.induct)
  case (1 env time s)
  obtain b where b: "uc_io (evs (recv_from_kernel env s)) = uc_io (evs s) @ [Inr b]" "length b = 12"
    using recv_from_kernel_io by blast
  show ?case
  proof (cases "time - 1 = 0")
    case True
    then have "uc_loop env time s = recv_from_kernel env s" by (subst uc_loop.simps) simp
    with b True show ?thesis by (intro exI [of _ "[b]"]) simp
  next
    case False
    then obtain ps where "uc_io (evs (uc_loop env (time - 1) (recv_from_kernel env s))) = uc_io (evs s) @ [Inr b] @ map Inr ps"
      "length ps = unat (time - 1 - 1) + 1" "\<forall>p\<in>set ps. length p = 12"
      using "1" [OF False] b(1) by auto
    moreover have "unat (time - 1 - 1) + 1 = unat (time - 1)" by (rule unat_pred [OF False])
    ultimately show ?thesis
      using False b(2) by (intro exI [of _ "b # ps"]) (simp add: uc_loop.simps [of env time s])
  qed
qed

lemma uc_message_eq:
  assumes "length junk = MSG_SPACE" and "len \<le> MAX_PAYLOAD"
  shows "\<exists>rest. uc_message type p data len junk =
    hdr_bytes \<lparr>nlmsg_len = of_nat MSG_SPACE, nlmsg_type = type, nlmsg_flags = 0,
               nlmsg_seq = rd32 (drop 8 junk), nlmsg_pid = p\<rparr> @ rest \<and> length rest = MAX_PAYLOAD"
  using assms by (simp add: uc_message_def memcpy_at_def)

text \<open>The process has one id; a block from \<^verbatim>\<open>malloc\<close> has the length asked for; sockets and memory are
  there.\<close>

definition uc_laws :: "uc_env \<Rightarrow> u32 \<Rightarrow> bool" where
  "uc_laws env p \<longleftrightarrow> (\<forall>tr. uc_getpid env tr = p) \<and> (\<forall>tr. 0 \<le> uc_socket env tr) \<and>
     (\<forall>fd q tr. 0 \<le> uc_bind env fd q tr) \<and>
     (\<forall>n tr. \<exists>a junk. uc_malloc env n tr = Some (a, junk) \<and> length junk = n)"

lemma send_to_kernel_sends:
  assumes "uc_laws env p"
  shows "\<exists>t junk. send_to_kernel env data len type s = Inr t \<and> length junk = MSG_SPACE \<and>
    uc_io (evs t) = uc_io (evs s) @ [Inl (uc_message type p data len junk)]"
proof -
  obtain a junk where "uc_malloc env MSG_SPACE (evs s) = Some (a, junk)" "length junk = MSG_SPACE"
    using assms unfolding uc_laws_def by blast
  moreover have "\<And>tr. uc_getpid env tr = p" using assms by (simp add: uc_laws_def)
  ultimately show ?thesis by (auto simp: send_to_kernel_def kdefs)
qed

lemma netlink_init_ok:
  assumes "uc_laws env p"
  shows "\<exists>t. netlink_init env s = Inr t \<and> uc_io (evs t) = uc_io (evs s)"
  using assms by (auto simp: netlink_init_def uc_laws_def kdefs not_less [symmetric])

text \<open>The module, on receiving a message of the program.\<close>

lemma cap_receive_uc_message:
  assumes api: "nlmsg_laws api" "hdr_law api" and "length junk = MSG_SPACE" and "len \<le> MAX_PAYLOAD"
  shows "\<exists>h. nlmsg_type h = type \<and> nlmsg_pid h = p \<and>
    cap_receive api kenv (uc_message type p data len junk) ks = Some (cap_receive_one kenv h 0 ks)"
proof -
  let ?h = "\<lparr>nlmsg_len = of_nat MSG_SPACE, nlmsg_type = type, nlmsg_flags = 0, nlmsg_seq = rd32 (drop 8 junk), nlmsg_pid = p\<rparr>"
  obtain rest where m: "uc_message type p data len junk = hdr_bytes ?h @ rest" "length rest = MAX_PAYLOAD"
    using uc_message_eq [OF assms(3,4)] by blast
  have "nl_msgs api (hdr_bytes ?h @ rest) (Suc (length (hdr_bytes ?h @ rest))) 0 (int (length (hdr_bytes ?h @ rest))) = [(?h, 0)]"
    by (rule nl_msgs_single [OF api(1)]) (use api(2) m(2) in \<open>simp_all add: hdr_law_def\<close>)
  with cap_receive_fold [OF api(1), of kenv "hdr_bytes ?h @ rest" ks] show ?thesis
    unfolding m(1) by (intro exI [of _ ?h]) (simp del: nl_msgs.simps)
qed

lemma cap_receive_uc_port:
  assumes "nlmsg_laws api" "hdr_law api" and "thread_starts kenv" and "length junk = MSG_SPACE" and "len \<le> MAX_PAYLOAD"
  shows "\<exists>t. cap_receive api kenv (uc_message type p data len junk) ks = Some t \<and>
    cap_nlk_portid t = (if type = CAP_ADD then p else if type = CAP_DEL then 0 else cap_nlk_portid ks)"
  using cap_receive_uc_message [OF assms(1,2,4,5), of type p kenv data ks] cap_receive_one_obs(2) [OF assms(3)]
  by (auto simp: cmd_port_def)

text \<open>A whole run: a \<^verbatim>\<open>CAP_ADD\<close> message, the packets, a \<^verbatim>\<open>CAP_DEL\<close> message.\<close>

lemma uc_main_run:
  assumes "uc_laws env p" and "evs s = []"
  shows "\<exists>t j1 ps j2. uc_main env time s = Inr t \<and> length j1 = MSG_SPACE \<and> length j2 = MSG_SPACE \<and>
    uc_io (evs t) = Inl (uc_message CAP_ADD p hello 21 j1) # map Inr ps @ [Inl (uc_message CAP_DEL p bye 21 j2)] \<and>
    length ps = (if time = 0 then 2 ^ 32 else unat time) \<and> (\<forall>q\<in>set ps. length q = 12)"
proof -
  obtain s1 where s1: "netlink_init env s = Inr s1" "uc_io (evs s1) = []"
    using netlink_init_ok [OF assms(1), of s] assms(2) by (auto simp: uc_io_def)
  obtain s2 j1 where s2: "send_to_kernel env hello 21 CAP_ADD s1 = Inr s2" "length j1 = MSG_SPACE"
    "uc_io (evs s2) = [Inl (uc_message CAP_ADD p hello 21 j1)]"
    using send_to_kernel_sends [OF assms(1), of hello 21 CAP_ADD s1] s1(2) by auto
  obtain ps where ps: "uc_io (evs (uc_loop env time s2)) = uc_io (evs s2) @ map Inr ps"
    "length ps = unat (time - 1) + 1" "\<forall>q\<in>set ps. length q = 12"
    using uc_loop_io by blast
  obtain t j2 where t: "send_to_kernel env bye 21 CAP_DEL (uc_loop env time s2) = Inr t" "length j2 = MSG_SPACE"
    "uc_io (evs t) = uc_io (evs (uc_loop env time s2)) @ [Inl (uc_message CAP_DEL p bye 21 j2)]"
    using send_to_kernel_sends [OF assms(1), of bye 21 CAP_DEL "uc_loop env time s2"] by blast
  have "strlen hello + 1 = 21" by code_simp
  then have "uc_main env time s = Inr t" using s1(1) s2(1) t(1) by (simp add: uc_main_def)
  moreover have "length ps = (if time = 0 then 2 ^ 32 else unat time)"
    using ps(2) unat_pred_wrap by simp
  ultimately show ?thesis using s2(2,3) ps(1,3) t(2,3) by auto
qed

text \<open>
  The client registers, receives and leaves. With sockets and memory available it ends normally;
  what it does is: send one message, show the first 12 bytes of exactly as many packets as its argument
  says (all \<open>2 ^ 32\<close> of them if the argument is 0), send another message. The capture module, on receiving the first
  message in any state, sends captured packets to the client from then on; on receiving the second it
  stops capturing.
\<close>

lemma client_session:
  assumes "uc_laws env p" and "nlmsg_laws api" and "hdr_law api" and "thread_starts kenv" and "evs s = []"
  shows "\<exists>t m1 ps m2. uc_main env time s = Inr t \<and> uc_io (evs t) = Inl m1 # map Inr ps @ [Inl m2] \<and>
    length ps = (if time = 0 then 2 ^ 32 else unat time) \<and> (\<forall>q\<in>set ps. length q = 12) \<and>
    (\<forall>ks. \<exists>ks'. cap_receive api kenv m1 ks = Some ks' \<and> cap_nlk_portid ks' = p) \<and>
    (\<forall>ks. \<exists>ks'. cap_receive api kenv m2 ks = Some ks' \<and> cap_nlk_portid ks' = 0)"
proof -
  obtain t j1 ps j2 where t: "uc_main env time s = Inr t" "length j1 = MSG_SPACE" "length j2 = MSG_SPACE"
    "uc_io (evs t) = Inl (uc_message CAP_ADD p hello 21 j1) # map Inr ps @ [Inl (uc_message CAP_DEL p bye 21 j2)]"
    "length ps = (if time = 0 then 2 ^ 32 else unat time)" "\<forall>q\<in>set ps. length q = 12"
    using uc_main_run [OF assms(1,5)] by blast
  show ?thesis
    using t cap_receive_uc_port [OF assms(2-4) t(2), of 21 CAP_ADD p hello]
      cap_receive_uc_port [OF assms(2-4) t(3), of 21 CAP_DEL p bye]
    by (rule_tac exI [of _ t], rule_tac exI [of _ "uc_message CAP_ADD p hello 21 j1"], rule_tac exI [of _ ps],
        rule_tac exI [of _ "uc_message CAP_DEL p bye 21 j2"]) simp
qed

definition demo_uc :: uc_env where
  "demo_uc = \<lparr>uc_socket = (\<lambda>_. 3), uc_getpid = (\<lambda>_. 77), uc_bind = (\<lambda>_ _ _. 0),
     uc_malloc = (\<lambda>n tr. Some (100 + length tr, replicate n 0xEE)), uc_sendmsg = (\<lambda>_ bs _. int (length bs)),
     uc_recvmsg = (\<lambda>_ _. (20, replicate 20 1))\<rparr>"

lemma client_session_witness:
  "\<exists>t m1 ps m2. uc_main demo_uc 2 \<lparr>evs = [], sock_fd = 0, nlh = None\<rparr> = Inr t \<and>
    uc_io (evs t) = Inl m1 # map Inr ps @ [Inl m2] \<and> length ps = 2 \<and>
    (\<forall>ks. \<exists>ks'. cap_receive linux_nlmsg demo_env m1 ks = Some ks' \<and> cap_nlk_portid ks' = 77)"
proof -
  have "uc_laws demo_uc 77" by (simp add: uc_laws_def demo_uc_def)
  from client_session [OF this linux_nlmsg_laws linux_hdr_law demo_thread, of "\<lparr>evs = [], sock_fd = 0, nlh = None\<rparr>" 2]
  show ?thesis by fastforce
qed

section \<open>What the client shows\<close>

text \<open>The bytes of a message, and a socket that hands out messages one after the other, each cut to the size of the
  buffer.\<close>

definition msg_bytes :: "nlskb \<Rightarrow> byte list" where
  "msg_bytes m = hdr_bytes (sk_hdr m) @ sk_payload m"

fun recv_ev :: "uc_ev \<Rightarrow> bool" where
  "recv_ev (Uc_recvmsg fd r) = True"
| "recv_ev _ = False"

definition received :: "uc_ev list \<Rightarrow> nat" where
  "received tr = length (filter recv_ev tr)"

definition hands_out :: "uc_env \<Rightarrow> byte list list \<Rightarrow> bool" where
  "hands_out env bss \<longleftrightarrow>
     (\<forall>fd tr. received tr < length bss \<longrightarrow>
        uc_recvmsg env fd tr = (let bs = take MSG_SPACE (bss ! received tr) in (int (length bs), bs)))"

fun shown_ev :: "uc_ev \<Rightarrow> (u32 \<times> byte list) list" where
  "shown_ev (Show_packet n bs) = [(n, bs)]"
| "shown_ev _ = []"

definition shown :: "uc_ev list \<Rightarrow> (u32 \<times> byte list) list" where
  "shown tr = concat (map shown_ev tr)"

lemma shown_append [simp]:
  "shown (tr @ es) = shown tr @ concat (map shown_ev es)" "received (tr @ es) = received tr + received es"
  by (simp_all add: shown_def received_def)

lemma received_simps [simp]: "received [] = 0" "received (e # es) = (if recv_ev e then 1 else 0) + received es"
  by (simp_all add: received_def)

text \<open>The line of a message: the length without the header, and the first 12 bytes after it.\<close>

definition line_of :: "byte list \<Rightarrow> u32 \<times> byte list" where
  "line_of bs = (of_nat (min MSG_SPACE (length bs)) - of_nat NLMSG_HDRLEN,
     take 12 (drop NLMSG_HDRLEN (memcpy_at 0 (replicate MSG_SPACE 0) (take MSG_SPACE bs))))"

lemma recv_from_kernel_shows:
  assumes "hands_out env (pre @ bs # bss)" and "received (evs s) = length pre"
  shows "shown (evs (recv_from_kernel env s)) = shown (evs s) @ [line_of bs] \<and>
    received (evs (recv_from_kernel env s)) = Suc (length pre)"
proof -
  have "uc_recvmsg env (sock_fd s) (evs s) = (int (min MSG_SPACE (length bs)), take MSG_SPACE bs)"
    using assms by (simp add: hands_out_def Let_def min.commute)
  then show ?thesis
    using assms(2) by (simp add: recv_from_kernel_def recv_buffer_def kdefs line_of_def)
qed

lemma recv_many_shows:
  assumes "hands_out env (pre @ bss)" and "received (evs s) = length pre"
  shows "shown (evs ((recv_from_kernel env ^^ length bss) s)) = shown (evs s) @ map line_of bss"
  using assms
proof (induction bss arbitrary: pre s)
  case Nil
  then show ?case by simp
next
  case (Cons bs bss)
  note r = recv_from_kernel_shows [OF Cons.prems]
  with Cons.IH [of "pre @ [bs]" "recv_from_kernel env s"] Cons.prems(1) show ?case
    by (simp add: funpow_swap1)
qed

lemma uc_loop_funpow: "uc_loop env time s = (recv_from_kernel env ^^ (unat (time - 1) + 1)) s"
proof (induction env time s rule: uc_loop.induct)
  case (1 env time s)
  show ?case
  proof (cases "time - 1 = 0")
    case True
    then show ?thesis by (subst uc_loop.simps) simp
  next
    case False
    then have "uc_loop env time s = uc_loop env (time - 1) (recv_from_kernel env s)" by (subst uc_loop.simps) simp
    also have "\<dots> = (recv_from_kernel env ^^ unat (time - 1)) (recv_from_kernel env s)"
      using "1" [OF False] unfolding unat_pred [OF False] .
    finally show ?thesis by (simp add: funpow_swap1)
  qed
qed

lemma line_of_message:
  assumes "message_of m pkt" and "12 \<le> length pkt"
  shows "line_of (msg_bytes m) = (of_nat (min MAX_PAYLOAD (nl_align (length pkt))), take 12 pkt)"
proof -
  have "length (sk_payload m) = nl_align (length pkt)" and p: "take (length pkt) (sk_payload m) = pkt"
    using assms(1) by (simp_all add: message_of_def)
  then have l: "min MSG_SPACE (length (msg_bytes m)) = min MAX_PAYLOAD (nl_align (length pkt)) + NLMSG_HDRLEN"
    by (simp add: msg_bytes_def min_def)
  have "take 12 (sk_payload m) = take 12 pkt"
    by (subst p [symmetric]) (use assms(2) in \<open>simp add: min_def\<close>)
  then have "take 12 (drop NLMSG_HDRLEN (take MSG_SPACE (msg_bytes m))) = take 12 pkt" "12 \<le> length (sk_payload m)"
    using assms(2) \<open>length (sk_payload m) = _\<close> nl_align_ge [of "length pkt"] by (simp_all add: msg_bytes_def min_def)
  then show ?thesis
    unfolding line_of_def l by (simp add: memcpy_at_0 msg_bytes_def)
qed

lemma client_start_quiet:
  "netlink_init env s = Inr t \<Longrightarrow> shown (evs t) = shown (evs s) \<and> received (evs t) = received (evs s)"
  "send_to_kernel env data len type s = Inr t \<Longrightarrow> shown (evs t) = shown (evs s) \<and> received (evs t) = received (evs s)"
  by (auto simp: netlink_init_def send_to_kernel_def kdefs split: if_splits option.splits)

text \<open>
  C11. The client shows what was captured. When its socket hands out the messages the module's thread sent for the packets
  \<open>pkts\<close>, and its argument is their number in decimal digits, it shows one line per packet, in order, with the first 12 bytes of the
  packet unchanged. The length it shows is that of the packet rounded up to a multiple of four, and never
  more than 1600.
\<close>

theorem client_shows_packets:
  assumes "uc_laws env p" and "evs s = []" and "list_all2 message_of ms pkts" and "hands_out env (map msg_bytes ms)"
    and "\<forall>pkt\<in>set pkts. 12 \<le> length pkt" and "pkts \<noteq> []" and "length pkts < 2 ^ 31"
  shows "\<exists>t. uc_program env (prog # (sdec (int (length pkts)) @ [0]) # args) s = Inr (Inr t) \<and>
    shown (evs t) = map (\<lambda>pkt. (of_nat (min MAX_PAYLOAD (nl_align (length pkt))), take 12 pkt)) pkts"
proof -
  obtain s1 where s1: "netlink_init env s = Inr s1" using netlink_init_ok [OF assms(1)] by blast
  obtain s2 where s2: "send_to_kernel env hello 21 CAP_ADD s1 = Inr s2" using send_to_kernel_sends [OF assms(1)] by blast
  let ?s3 = "uc_loop env (of_nat (length pkts)) s2"
  obtain t where t: "send_to_kernel env bye 21 CAP_DEL ?s3 = Inr t" using send_to_kernel_sends [OF assms(1)] by blast
  have q: "shown (evs s2) = [] \<and> received (evs s2) = 0"
    using client_start_quiet(1) [OF s1] client_start_quiet(2) [OF s2] assms(2) by (simp add: shown_def)
  have n: "unat (of_nat (length pkts) :: u32) = length pkts" using assms(7) by (simp add: unat_of_nat take_bit_nat_eq_self)
  then have nz: "(of_nat (length pkts) :: u32) \<noteq> 0" using assms(6) by (metis length_0_conv unsigned_0)
  have "?s3 = (recv_from_kernel env ^^ length pkts) s2"
    using uc_loop_funpow [of env "of_nat (length pkts)" s2] unfolding unat_pred [OF nz] n .
  moreover have "length pkts = length (map msg_bytes ms)" using assms(3) by (simp add: list_all2_lengthD)
  ultimately have "shown (evs ?s3) = map line_of (map msg_bytes ms)"
    using recv_many_shows [of env "[]" "map msg_bytes ms" s2] assms(4) q by simp
  also have "\<dots> = map (\<lambda>pkt. (of_nat (min MAX_PAYLOAD (nl_align (length pkt))), take 12 pkt)) pkts"
    using assms(3,5) by (induction rule: list_all2_induct) (simp_all add: line_of_message)
  finally have "shown (evs t) = map (\<lambda>pkt. (of_nat (min MAX_PAYLOAD (nl_align (length pkt))), take 12 pkt)) pkts"
    using client_start_quiet(2) [OF t] by simp
  moreover have "strlen hello + 1 = 21" by code_simp
  then have "uc_main env (of_nat (length pkts)) s = Inr t" using s1 s2 t by (simp add: uc_main_def)
  moreover have "strtol10 (sdec (int (length pkts)) @ [0]) = int (length pkts)"
    using assms(7) by (intro strtol10_sdec) simp_all
  then have "atoi (sdec (int (length pkts)) @ [0]) = of_nat (length pkts)" by (simp add: atoi_def)
  ultimately show ?thesis by (simp add: uc_program_def)
qed

text \<open>A packet of 13 bytes in its message, on a socket that hands it out.\<close>

definition demo_msg :: nlskb where
  "demo_msg = \<lparr>sk_hdr = \<lparr>nlmsg_len = 32, nlmsg_type = NLMSG_DONE, nlmsg_flags = 0, nlmsg_seq = 0, nlmsg_pid = 77\<rparr>,
     sk_payload = replicate 13 9 @ [0, 0, 0], sk_len = 32\<rparr>"

definition demo_reader :: uc_env where
  "demo_reader = demo_uc\<lparr>uc_recvmsg := (\<lambda>_ tr. (32, msg_bytes demo_msg))\<rparr>"

theorem client_shows_packets_witness:
  "\<exists>t. uc_program demo_reader [lit ''client'' @ [0], lit ''1'' @ [0]] \<lparr>evs = [], sock_fd = 0, nlh = None\<rparr> = Inr (Inr t) \<and>
     shown (evs t) = [(16, replicate 12 9)]"
proof -
  have laws: "uc_laws demo_reader 77" by (simp add: uc_laws_def demo_reader_def demo_uc_def)
  have "message_of demo_msg (replicate 13 9)" by (simp add: message_of_def demo_msg_def nl_align_def)
  moreover have "hands_out demo_reader [msg_bytes demo_msg]"
    by (auto simp: hands_out_def demo_reader_def Let_def msg_bytes_def demo_msg_def)
  ultimately show ?thesis
    using client_shows_packets [OF laws, of "\<lparr>evs = [], sock_fd = 0, nlh = None\<rparr>" "[demo_msg]" "[replicate 13 9]" "lit ''client'' @ [0]" "[]"]
    by (simp add: nl_align_def sdec_def dec.simps lit_def)
qed

section \<open>The numbers of the commands\<close>

text \<open>The enumerations of the module and of the client, in order; the value of an enumerator is its place.\<close>

definition cap_commands :: "string list" where
  "cap_commands = [''CAP_ADD'', ''CAP_DEL'', ''CAP_PACKET'', ''CAP_GET_PACKET'']"

definition uc_commands :: "string list" where
  "uc_commands = [''CAP_ADD'', ''CAP_DEL'', ''CAP_GET_PACKET'']"

text \<open>Both sides agree on the two commands the client sends. A \<^verbatim>\<open>CAP_GET_PACKET\<close> of the client would reach the
  module as \<^verbatim>\<open>CAP_PACKET\<close>, and be refused.\<close>

lemma command_numbers:
  "cap_commands ! unat CAP_ADD = ''CAP_ADD'' \<and> uc_commands ! unat CAP_ADD = ''CAP_ADD'' \<and>
   cap_commands ! unat CAP_DEL = ''CAP_DEL'' \<and> uc_commands ! unat CAP_DEL = ''CAP_DEL'' \<and>
   cap_commands ! unat CAP_GET_PACKET = ''CAP_GET_PACKET'' \<and>
   uc_commands ! 2 = ''CAP_GET_PACKET'' \<and> cap_commands ! 2 = ''CAP_PACKET'' \<and> cap_netlink_ok 2 = - EINVAL"
  by (simp add: cap_commands_def uc_commands_def cap_netlink_ok_def)

end
