(* ===== verification/Netctrl.thy ===== *)
theory Netctrl
  imports Nlmsg
begin

text \<open>
  \<^verbatim>\<open>netctrl/netctrl.c\<close>: a module that takes authorisation settings (an address, a port, an id) from
  the program \<^verbatim>\<open>netctrl/app.c\<close> over netlink and prints them to the kernel log. The log line is all
  that the three handlers do, so their \<^verbatim>\<open>printk\<close> is an event of the history; the other log lines are
  left out. The loop over the messages of a buffer is the one of \<open>Nlmsg\<close>.

  Memory: \<open>skb_tail\<close> of the environment is what lies behind the data of the received buffer, and
  \<open>behind\<close> what lies behind an allocated block. The handlers read there when a message is shorter
  than the structure they cast it to.
\<close>

datatype nc_ev =
    Nc_sock_create "addr option"
  | Nc_sock_release "addr option"
  | Nf_register_hooks int
  | Nf_unregister_hooks
  | Kzalloc nat "addr option"
  | Kfree addr
  | Nc_ack nat int
  | Log_ip "byte list"
  | Log_port int
  | Log_id int

record nc_env =
  n_sock_create :: "nc_ev list \<Rightarrow> addr option"
  n_register_hooks :: "nc_ev list \<Rightarrow> int"
  n_kzalloc :: "nat \<Rightarrow> nc_ev list \<Rightarrow> addr option"
  skb_tail :: "byte list"
  behind :: "addr \<Rightarrow> byte list"

record nc_st = "nc_ev kst" +
  netctrl_sock :: "addr option"

section \<open>Hooks\<close>

datatype nc_hook =
  Bridge_hook_pre_routing | Netctrl_hook_local_out | Netctrl_hook_pre_routing | Netctrl_hook_post_routing

definition netctrl_hook_local_out :: "byte list \<Rightarrow> nf_verdict" where
  "netctrl_hook_local_out pkt = NF_ACCEPT"

definition netctrl_hook_pre_routing :: "byte list \<Rightarrow> nf_verdict" where
  "netctrl_hook_pre_routing pkt = NF_ACCEPT"

definition netctrl_hook_post_routing :: "byte list \<Rightarrow> nf_verdict" where
  "netctrl_hook_post_routing pkt = NF_ACCEPT"

definition bridge_hook_pre_routing :: "byte list \<Rightarrow> nf_verdict" where
  "bridge_hook_pre_routing pkt = NF_ACCEPT"

definition netctrl_hooks :: "nc_hook nf_hook_ops list" where
  "netctrl_hooks =
     [\<lparr>hk_hook = Bridge_hook_pre_routing, hk_pf = PF_BRIDGE, hk_hooknum = PRE_ROUTING, hk_priority = NF_BR_PRI_FIRST\<rparr>,
      \<lparr>hk_hook = Netctrl_hook_local_out, hk_pf = PF_INET, hk_hooknum = LOCAL_OUT, hk_priority = NF_IP_PRI_FIRST\<rparr>,
      \<lparr>hk_hook = Netctrl_hook_pre_routing, hk_pf = PF_INET, hk_hooknum = PRE_ROUTING, hk_priority = NF_IP_PRI_FIRST\<rparr>,
      \<lparr>hk_hook = Netctrl_hook_post_routing, hk_pf = PF_INET, hk_hooknum = POST_ROUTING, hk_priority = NF_IP_PRI_FIRST\<rparr>]"

definition netctrl_hooks_init :: "nc_env \<Rightarrow> nc_st \<Rightarrow> int \<times> nc_st" where
  "netctrl_hooks_init env s = kcall (n_register_hooks env) Nf_register_hooks s"

section \<open>The settings\<close>

abbreviation NETCTRL_AUTH_IP :: u16 where "NETCTRL_AUTH_IP \<equiv> 1"
abbreviation NETCTRL_AUTH_PORT :: u16 where "NETCTRL_AUTH_PORT \<equiv> 2"
abbreviation NETCTRL_AUTH_ID :: u16 where "NETCTRL_AUTH_ID \<equiv> 3"

definition type2string :: "int \<Rightarrow> string" where
  "type2string cmdtype =
     (if cmdtype = 1 then ''NETCTRL_AUTH_IP''
      else if cmdtype = 2 then ''NETCTRL_AUTH_PORT''
      else if cmdtype = 3 then ''NETCTRL_AUTH_ID''
      else ''unknown msg type'')"

text \<open>A handler gets the memory its pointer leads to: the rest of the block and what follows it.\<close>

definition netctrl_auth_ip :: "byte list \<Rightarrow> nc_st \<Rightarrow> int \<times> nc_st" where
  "netctrl_auth_ip mem s = (0, kdo (Log_ip (cstr mem)) s)"

definition netctrl_auth_port :: "byte list \<Rightarrow> nc_st \<Rightarrow> int \<times> nc_st" where
  "netctrl_auth_port mem s = (0, kdo (Log_port (sint (rd32 mem))) s)"

definition netctrl_auth_id :: "byte list \<Rightarrow> nc_st \<Rightarrow> int \<times> nc_st" where
  "netctrl_auth_id mem s = (0, kdo (Log_id (sint (rd32 mem))) s)"

text \<open>\<^verbatim>\<open>struct msg_buf\<close> is a 16-bit type, a 16-bit length and the data, from offset 4 on.\<close>

definition netctrl_proc_msg :: "byte list option \<Rightarrow> nc_st \<Rightarrow> int \<times> nc_st" where
  "netctrl_proc_msg buf s =
     (case buf of
        None \<Rightarrow> (-1, s)
      | Some mem \<Rightarrow>
          (let msg_type = rd16 mem
           in if msg_type = NETCTRL_AUTH_IP then netctrl_auth_ip (drop 4 mem) s
              else if msg_type = NETCTRL_AUTH_PORT then netctrl_auth_port (drop 4 mem) s
              else if msg_type = NETCTRL_AUTH_ID then netctrl_auth_id (drop 4 mem) s
              else (0, s)))"

definition netctrl_netlink_ok :: "u16 \<Rightarrow> int" where
  "netctrl_netlink_ok msg_type =
     (if msg_type = NETCTRL_AUTH_IP \<or> msg_type = NETCTRL_AUTH_PORT \<or> msg_type = NETCTRL_AUTH_ID
      then 0 else - EINVAL)"

text \<open>The number of bytes \<^verbatim>\<open>netctrl_receive_msg\<close> copies: \<^verbatim>\<open>nlmsg_len - NLMSG_SPACE(0) + NLMSG_ALIGNTO\<close>,
  32-bit arithmetic.\<close>

definition nc_datalen :: "nlmsghdr \<Rightarrow> nat" where
  "nc_datalen h = unat (nlmsg_len h - of_nat (nl_align NLMSG_HDRLEN) + of_nat NLMSG_ALIGNTO)"

text \<open>The block after \<^verbatim>\<open>memcpy(data, NLMSG_DATA(nlh), datalen)\<close>.\<close>

definition nc_data :: "nc_env \<Rightarrow> byte list \<Rightarrow> nlmsghdr \<Rightarrow> nat \<Rightarrow> byte list" where
  "nc_data env bs h pos =
     memcpy_at 0 (replicate (nc_datalen h) 0)
       (take (nc_datalen h) (drop (pos + NLMSG_HDRLEN) (bs @ skb_tail env)))"

definition netctrl_receive_msg :: "nc_env \<Rightarrow> byte list \<Rightarrow> nlmsghdr \<Rightarrow> nat \<Rightarrow> nc_st \<Rightarrow> int \<times> nc_st" where
  "netctrl_receive_msg env bs h pos s =
     (let err = netctrl_netlink_ok (nlmsg_type h)
      in if err \<noteq> 0 then (err, s)
         else let datalen = nc_datalen h;
                  (p, s1) = kcall (n_kzalloc env datalen) (Kzalloc datalen) s
              in case p of
                   None \<Rightarrow> (- ENOMEM, s1)
                 | Some a \<Rightarrow>
                     (let (r, s2) = netctrl_proc_msg (Some (nc_data env bs h pos @ behind env a)) s1
                      in (0, s2)))"

definition netctrl_receive_one :: "nc_env \<Rightarrow> byte list \<Rightarrow> nlmsghdr \<Rightarrow> nat \<Rightarrow> nc_st \<Rightarrow> nc_st" where
  "netctrl_receive_one env bs h pos s =
     (case netctrl_receive_msg env bs h pos s of
        (err, s1) \<Rightarrow>
          if err \<noteq> 0 \<or> nlmsg_flags h AND NLM_F_ACK \<noteq> 0 then kdo (Nc_ack pos err) s1 else s1)"

definition netctrl_receive_skb :: "nlmsg_api \<Rightarrow> nc_env \<Rightarrow> byte list \<Rightarrow> nc_st \<Rightarrow> nc_st option" where
  "netctrl_receive_skb api env bs s =
     nl_walk api bs (netctrl_receive_one env bs) 0 (int (length bs)) s"

definition netctrl_receive :: "nlmsg_api \<Rightarrow> nc_env \<Rightarrow> byte list \<Rightarrow> nc_st \<Rightarrow> nc_st option" where
  "netctrl_receive api env bs s = netctrl_receive_skb api env bs s"

section \<open>Module start and end\<close>

definition netctrl_init :: "nc_env \<Rightarrow> nc_st \<Rightarrow> int \<times> nc_st" where
  "netctrl_init env s =
     (let (sk, s1) = kcall (n_sock_create env) Nc_sock_create s;
          s2 = s1\<lparr>netctrl_sock := sk\<rparr>
      in if sk = None then (- ENOMEM, s2)
         else let (r, s3) = netctrl_hooks_init env s2 in (0, s3))"

definition netctrl_exit :: "nc_st \<Rightarrow> nc_st" where
  "netctrl_exit s = kdo Nf_unregister_hooks (kdo (Nc_sock_release (netctrl_sock s)) s)"

section \<open>What the module shows and keeps\<close>

text \<open>The log lines of a history, and the blocks allocated and not freed in it.\<close>

fun nc_log_ev :: "nc_ev \<Rightarrow> nc_ev list" where
  "nc_log_ev (Log_ip x) = [Log_ip x]"
| "nc_log_ev (Log_port x) = [Log_port x]"
| "nc_log_ev (Log_id x) = [Log_id x]"
| "nc_log_ev _ = []"

definition nc_log :: "nc_ev list \<Rightarrow> nc_ev list" where
  "nc_log tr = concat (map nc_log_ev tr)"

fun nc_live_ev :: "nc_ev \<Rightarrow> (addr \<times> nat) list \<Rightarrow> (addr \<times> nat) list" where
  "nc_live_ev (Kzalloc n (Some a)) l = l @ [(a, n)]"
| "nc_live_ev (Kfree a) l = filter (\<lambda>(b, _). b \<noteq> a) l"
| "nc_live_ev _ l = l"

definition nc_live :: "nc_ev list \<Rightarrow> (addr \<times> nat) list" where
  "nc_live tr = fold nc_live_ev tr []"

fun nc_ack_ev :: "nc_ev \<Rightarrow> (nat \<times> int) list" where
  "nc_ack_ev (Nc_ack p e) = [(p, e)]"
| "nc_ack_ev _ = []"

definition nc_acks :: "nc_ev list \<Rightarrow> (nat \<times> int) list" where
  "nc_acks tr = concat (map nc_ack_ev tr)"

lemma nc_log_append [simp]: "nc_log (tr @ es) = nc_log tr @ concat (map nc_log_ev es)"
  by (simp add: nc_log_def)

lemma nc_live_append [simp]: "nc_live (tr @ es) = fold nc_live_ev es (nc_live tr)"
  by (simp add: nc_live_def)

lemma nc_acks_append [simp]: "nc_acks (tr @ es) = nc_acks tr @ concat (map nc_ack_ev es)"
  by (simp add: nc_acks_def)

text \<open>What a message at offset \<open>p\<close> must print: the setting in its payload. It starts with the type and
  the length of the setting, 2 bytes each.\<close>

definition nc_payload :: "byte list \<Rightarrow> nlmsghdr \<Rightarrow> nat \<Rightarrow> byte list" where
  "nc_payload bs h p = take (unat (nlmsg_len h) - NLMSG_HDRLEN) (drop (p + NLMSG_HDRLEN) bs)"

definition nc_setting :: "byte list \<Rightarrow> nc_ev list" where
  "nc_setting pl =
     (if rd16 pl = NETCTRL_AUTH_IP then [Log_ip (cstr (drop 4 pl))]
      else if rd16 pl = NETCTRL_AUTH_PORT then [Log_port (sint (rd32 (drop 4 pl)))]
      else if rd16 pl = NETCTRL_AUTH_ID then [Log_id (sint (rd32 (drop 4 pl)))]
      else [])"

text \<open>A payload that holds the whole structure its type promises, an address with its terminator.\<close>

definition nc_wellformed :: "byte list \<Rightarrow> bool" where
  "nc_wellformed pl \<longleftrightarrow> 8 \<le> length pl \<and> (rd16 pl = NETCTRL_AUTH_IP \<longrightarrow> 0 \<in> set (drop 4 pl))"

lemma rd16_append: "2 \<le> length xs \<Longrightarrow> rd16 (xs @ ys) = rd16 xs"
  by (cases xs rule: rd16.cases) auto

lemma rd32_append: "4 \<le> length xs \<Longrightarrow> rd32 (xs @ ys) = rd32 xs"
  by (cases xs rule: rd32.cases) auto

lemma nc_datalen_eq:
  "NLMSG_HDRLEN \<le> unat (nlmsg_len h) \<Longrightarrow> nc_datalen h = unat (nlmsg_len h) - 12"
proof -
  assume "NLMSG_HDRLEN \<le> unat (nlmsg_len h)"
  then have "12 \<le> unat (nlmsg_len h)" by simp
  then have "unat (nlmsg_len h - 12) = unat (nlmsg_len h) - 12"
    by (simp add: unat_sub word_le_nat_alt)
  then show ?thesis by (simp add: nc_datalen_def nl_align_def)
qed

text \<open>The block the handler works on: the payload, the four bytes that follow it in the received buffer
  and beyond, and whatever the memory behind the block holds.\<close>

lemma nc_data_eq:
  assumes "NLMSG_HDRLEN \<le> unat (nlmsg_len h)" and "p + unat (nlmsg_len h) \<le> length bs"
    and "4 \<le> length (skb_tail env)"
  shows "nc_data env bs h p = nc_payload bs h p @ take 4 (drop (p + unat (nlmsg_len h)) (bs @ skb_tail env))"
proof -
  let ?n = "unat (nlmsg_len h)"
  let ?m = "bs @ skb_tail env"
  obtain k where k: "?n = 16 + k" using assms(1) le_Suc_ex by blast
  have dl: "nc_datalen h = k + 4" using nc_datalen_eq [OF assms(1)] k by simp
  have pl: "nc_payload bs h p = take k (drop (p + 16) ?m)" using assms(2) k by (simp add: nc_payload_def)
  have "take (k + 4) (drop (p + 16) ?m) = take k (drop (p + 16) ?m) @ take 4 (drop k (drop (p + 16) ?m))"
    by (rule take_add)
  also have "drop k (drop (p + 16) ?m) = drop (p + ?n) ?m"
    using k by (simp only: drop_drop) (simp add: ac_simps)
  finally have e: "take (k + 4) (drop (p + 16) ?m) = nc_payload bs h p @ take 4 (drop (p + ?n) ?m)"
    by (simp only: pl)
  have "k + 4 \<le> length (drop (p + 16) ?m)" using assms(2,3) k by simp
  then have "length (take (k + 4) (drop (p + 16) ?m)) = k + 4" by simp
  then show ?thesis
    unfolding nc_data_def dl e memcpy_at_0 by simp
qed

lemma nc_data_prefix:
  assumes "NLMSG_HDRLEN \<le> unat (nlmsg_len h)" and "p + unat (nlmsg_len h) \<le> length bs"
  shows "\<exists>x. nc_data env bs h p = nc_payload bs h p @ x"
proof -
  have n: "unat (nlmsg_len h) - 16 \<le> nc_datalen h" using nc_datalen_eq [OF assms(1)] by simp
  have "take (unat (nlmsg_len h) - 16) (nc_data env bs h p) = nc_payload bs h p"
    using assms n by (simp add: nc_data_def memcpy_at_0 nc_payload_def min_absorb1)
  then show ?thesis by (metis append_take_drop_id)
qed

lemma nc_setting_append:
  assumes "nc_wellformed pl"
  shows "nc_setting (pl @ x) = nc_setting pl"
proof -
  have "2 \<le> length pl" "4 \<le> length (drop 4 pl)" "drop 4 (pl @ x) = drop 4 pl @ x"
    using assms by (auto simp: nc_wellformed_def)
  with assms show ?thesis
    by (simp add: nc_setting_def rd16_append rd32_append nc_wellformed_def cstr_append_terminated)
qed

lemma netctrl_proc_msg_log:
  "netctrl_proc_msg (Some mem) s = (0, s\<lparr>evs := evs s @ nc_setting mem\<rparr>)"
  by (simp add: netctrl_proc_msg_def netctrl_auth_ip_def netctrl_auth_port_def netctrl_auth_id_def
      nc_setting_def kdefs)

lemma nc_setting_effects [simp]:
  "concat (map nc_log_ev (nc_setting x)) = nc_setting x" "fold nc_live_ev (nc_setting x) l = l"
  "concat (map nc_ack_ev (nc_setting x)) = []" "\<forall>e\<in>set (nc_setting x). nc_ack_ev e = []"
  by (simp_all add: nc_setting_def)

section \<open>One message\<close>

definition nc_known :: "nlmsghdr \<Rightarrow> bool" where
  "nc_known h \<longleftrightarrow> nlmsg_type h \<in> {NETCTRL_AUTH_IP, NETCTRL_AUTH_PORT, NETCTRL_AUTH_ID}"

lemma netctrl_netlink_ok_iff: "netctrl_netlink_ok t = 0 \<longleftrightarrow> t \<in> {NETCTRL_AUTH_IP, NETCTRL_AUTH_PORT, NETCTRL_AUTH_ID}"
  by (simp add: netctrl_netlink_ok_def)

definition nc_memory :: "nc_env \<Rightarrow> bool" where
  "nc_memory env \<longleftrightarrow> (\<forall>n tr. n_kzalloc env n tr \<noteq> None)"

definition nc_wants_ack :: "nlmsghdr \<times> nat \<Rightarrow> (nat \<times> int) list" where
  "nc_wants_ack hp = (case hp of (h, p) \<Rightarrow>
     if \<not> nc_known h then [(p, - EINVAL)]
     else if nlmsg_flags h AND NLM_F_ACK \<noteq> 0 then [(p, 0)] else [])"

lemma netctrl_receive_msg_known:
  assumes "nc_known h" and "n_kzalloc env (nc_datalen h) (evs s) = Some a"
  shows "netctrl_receive_msg env bs h p s =
    (0, s\<lparr>evs := evs s @ Kzalloc (nc_datalen h) (Some a) #
       nc_setting (nc_data env bs h p @ behind env a)\<rparr>)"
  using assms by (simp add: netctrl_receive_msg_def netctrl_netlink_ok_iff nc_known_def kdefs netctrl_proc_msg_log)

lemma netctrl_receive_msg_unknown:
  "\<not> nc_known h \<Longrightarrow> netctrl_receive_msg env bs h p s = (- EINVAL, s)"
  by (auto simp: netctrl_receive_msg_def netctrl_netlink_ok_def nc_known_def)

lemma netctrl_receive_one_effect:
  assumes mem: "nc_memory env" and h: "NLMSG_HDRLEN \<le> unat (nlmsg_len h)" "p + unat (nlmsg_len h) \<le> length bs"
  shows "\<exists>es. evs (netctrl_receive_one env bs h p s) = evs s @ es \<and>
    (\<forall>l. length (fold nc_live_ev es l) = length l + (if nc_known h then 1 else 0)) \<and>
    (nc_known h \<longrightarrow> nc_wellformed (nc_payload bs h p) \<longrightarrow>
       concat (map nc_log_ev es) = nc_setting (nc_payload bs h p)) \<and>
    (\<not> nc_known h \<longrightarrow> concat (map nc_log_ev es) = []) \<and>
    concat (map nc_ack_ev es) = nc_wants_ack (h, p)"
proof (cases "nc_known h")
  case True
  obtain a where a: "n_kzalloc env (nc_datalen h) (evs s) = Some a"
    using mem by (auto simp: nc_memory_def)
  obtain x where x: "nc_data env bs h p = nc_payload bs h p @ x"
    using nc_data_prefix [OF h] by blast
  show ?thesis
    using True nc_setting_append [of "nc_payload bs h p"]
    by (simp add: netctrl_receive_one_def netctrl_receive_msg_known [OF True a] x nc_wants_ack_def kdefs)
next
  case False
  then show ?thesis
    by (simp add: netctrl_receive_one_def netctrl_receive_msg_unknown nc_wants_ack_def kdefs)
qed

section \<open>A buffer of messages\<close>

abbreviation nc_buffer_msgs :: "nlmsg_api \<Rightarrow> byte list \<Rightarrow> (nlmsghdr \<times> nat) list" where
  "nc_buffer_msgs api bs \<equiv> nl_msgs api bs (Suc (length bs)) 0 (int (length bs))"

definition nc_all_wellformed :: "byte list \<Rightarrow> (nlmsghdr \<times> nat) list \<Rightarrow> bool" where
  "nc_all_wellformed bs ms \<longleftrightarrow> (\<forall>(h, p)\<in>set ms. nc_known h \<longrightarrow> nc_wellformed (nc_payload bs h p))"

definition nc_settings :: "byte list \<Rightarrow> (nlmsghdr \<times> nat) list \<Rightarrow> nc_ev list" where
  "nc_settings bs ms = concat (map (\<lambda>(h, p). nc_setting (nc_payload bs h p)) (filter (\<lambda>hp. nc_known (fst hp)) ms))"

definition nc_in_bounds :: "byte list \<Rightarrow> nlmsghdr \<times> nat \<Rightarrow> bool" where
  "nc_in_bounds bs hp \<longleftrightarrow> NLMSG_HDRLEN \<le> unat (nlmsg_len (fst hp)) \<and> snd hp + unat (nlmsg_len (fst hp)) \<le> length bs"

lemma nc_buffer_in_bounds:
  assumes "nlmsg_laws api"
  shows "list_all (nc_in_bounds bs) (nc_buffer_msgs api bs)"
  unfolding list_all_iff
proof
  fix x assume "x \<in> set (nc_buffer_msgs api bs)"
  then have "(fst x, snd x) \<in> set (nc_buffer_msgs api bs)" by simp
  from nl_msgs_in_bounds [OF assms this] show "nc_in_bounds bs x"
    unfolding nc_in_bounds_def by linarith
qed

lemma netctrl_fold_effect:
  assumes mem: "nc_memory env" and "list_all (nc_in_bounds bs) ms"
  shows "\<exists>es. evs (fold (\<lambda>(h, p). netctrl_receive_one env bs h p) ms s) = evs s @ es \<and>
    (\<forall>l. length (fold nc_live_ev es l) = length l + length (filter (\<lambda>hp. nc_known (fst hp)) ms)) \<and>
    (nc_all_wellformed bs ms \<longrightarrow> concat (map nc_log_ev es) = nc_settings bs ms) \<and>
    concat (map nc_ack_ev es) = concat (map nc_wants_ack ms)"
  using assms(2)
proof (induction ms arbitrary: s)
  case Nil
  then show ?case by (intro exI [of _ "[]"]) (simp add: nc_settings_def)
next
  case (Cons m ms)
  obtain h p where m: "m = (h, p)" by (cases m)
  let ?s1 = "netctrl_receive_one env bs h p s"
  obtain e1 where e1: "evs ?s1 = evs s @ e1"
    "\<forall>l. length (fold nc_live_ev e1 l) = length l + (if nc_known h then 1 else 0)"
    "nc_known h \<longrightarrow> nc_wellformed (nc_payload bs h p) \<longrightarrow> concat (map nc_log_ev e1) = nc_setting (nc_payload bs h p)"
    "\<not> nc_known h \<longrightarrow> concat (map nc_log_ev e1) = []" "concat (map nc_ack_ev e1) = nc_wants_ack (h, p)"
    using netctrl_receive_one_effect [OF mem, of h p bs s] Cons.prems by (auto simp: m nc_in_bounds_def)
  obtain e2 where e2: "evs (fold (\<lambda>(h, p). netctrl_receive_one env bs h p) ms ?s1) = evs ?s1 @ e2"
    "\<forall>l. length (fold nc_live_ev e2 l) = length l + length (filter (\<lambda>hp. nc_known (fst hp)) ms)"
    "nc_all_wellformed bs ms \<longrightarrow> concat (map nc_log_ev e2) = nc_settings bs ms"
    "concat (map nc_ack_ev e2) = concat (map nc_wants_ack ms)"
    using Cons.IH [of ?s1] Cons.prems unfolding list.pred_inject by blast
  show ?case
    using e1 e2 by (intro exI [of _ "e1 @ e2"]) (auto simp: m nc_all_wellformed_def nc_settings_def)
qed

lemma netctrl_receive_effect:
  assumes "nlmsg_laws api" and "nc_memory env"
  obtains t es where "netctrl_receive api env bs s = Some t" and "evs t = evs s @ es"
    and "\<And>l. length (fold nc_live_ev es l) = length l + length (filter (\<lambda>hp. nc_known (fst hp)) (nc_buffer_msgs api bs))"
    and "nc_all_wellformed bs (nc_buffer_msgs api bs) \<Longrightarrow>
      concat (map nc_log_ev es) = nc_settings bs (nc_buffer_msgs api bs)"
    and "concat (map nc_ack_ev es) = concat (map nc_wants_ack (nc_buffer_msgs api bs))"
proof -
  have "netctrl_receive api env bs s =
      Some (fold (\<lambda>(h, p). netctrl_receive_one env bs h p) (nc_buffer_msgs api bs) s)"
    unfolding netctrl_receive_def netctrl_receive_skb_def by (rule nl_walk_msgs [OF assms(1)]) simp
  with netctrl_fold_effect [OF assms(2) nc_buffer_in_bounds [OF assms(1)], of bs s] that show thesis
    by blast
qed

text \<open>The socket and the hooks stay as \<^verbatim>\<open>netctrl_init\<close> left them, whatever is received.\<close>

definition nc_up :: "nc_st \<Rightarrow> bool" where
  "nc_up s \<longleftrightarrow> netctrl_sock s \<noteq> None \<and> Nc_sock_create (netctrl_sock s) \<in> set (evs s) \<and>
     Nf_unregister_hooks \<notin> set (evs s) \<and> (\<forall>x. Nc_sock_release x \<notin> set (evs s))"

lemma netctrl_init_up:
  "evs s = [] \<Longrightarrow> netctrl_init env s = (0, t) \<Longrightarrow> nc_up t"
  by (auto simp: netctrl_init_def netctrl_hooks_init_def nc_up_def kdefs split: if_splits)

lemma netctrl_receive_one_up: "nc_up s \<Longrightarrow> nc_up (netctrl_receive_one env bs h p s)"
  by (auto simp: netctrl_receive_one_def netctrl_receive_msg_def netctrl_proc_msg_log nc_setting_def nc_up_def kdefs
      split: option.splits if_splits)

interpretation nc_cmd: msg_handler "netctrl_receive_one env" nc_up for env
  by unfold_locales (rule netctrl_receive_one_up)

section \<open>Properties of the module\<close>

text \<open>A module environment for concrete inputs: memory is there, blocks get increasing addresses.\<close>

definition demo_nc :: nc_env where
  "demo_nc = \<lparr>n_sock_create = (\<lambda>_. Some 1), n_register_hooks = (\<lambda>_. 0),
     n_kzalloc = (\<lambda>n tr. Some (100 + length tr)), skb_tail = replicate 8 0xAA, behind = (\<lambda>_. replicate 4 0)\<rparr>"

definition demo_nc_st :: nc_st where
  "demo_nc_st = \<lparr>evs = [], netctrl_sock = Some 1\<rparr>"

definition demo_port_msg :: "byte list" where
  "demo_port_msg = hdr_bytes \<lparr>nlmsg_len = 24, nlmsg_type = 2, nlmsg_flags = NLM_F_ACK, nlmsg_seq = 0, nlmsg_pid = 77\<rparr>
     @ le16 2 @ le16 4 @ le32 8080"

lemma demo_port_msgs:
  "nc_buffer_msgs linux_nlmsg demo_port_msg =
     [(\<lparr>nlmsg_len = 24, nlmsg_type = 2, nlmsg_flags = NLM_F_ACK, nlmsg_seq = 0, nlmsg_pid = 77\<rparr>, 0)]"
  by code_simp

lemma demo_nc_memory: "nc_memory demo_nc"
  by (simp add: nc_memory_def demo_nc_def)

text \<open>
  C23. A received buffer is handled to its end. If there is memory and every message of a known type
  holds the structure its type promises (an address with its terminator), the module prints exactly
  the settings of those messages, in order; it acknowledges exactly the messages of unknown type
  (with \<^verbatim>\<open>-EINVAL\<close>) and those that ask for it (with 0), in order.
\<close>

theorem netctrl_receive_prints_settings:
  assumes "nlmsg_laws api" and "nc_memory env" and "nc_all_wellformed bs (nc_buffer_msgs api bs)"
  shows "\<exists>t. netctrl_receive api env bs s = Some t \<and>
    nc_log (evs t) = nc_log (evs s) @ nc_settings bs (nc_buffer_msgs api bs) \<and>
    nc_acks (evs t) = nc_acks (evs s) @ concat (map nc_wants_ack (nc_buffer_msgs api bs))"
  by (rule netctrl_receive_effect [OF assms(1,2), of bs s]) (simp add: assms(3) del: nl_msgs.simps)

theorem netctrl_receive_prints_settings_witness:
  "\<exists>t. netctrl_receive linux_nlmsg demo_nc demo_port_msg demo_nc_st = Some t \<and>
     nc_log (evs t) = [Log_port 8080] \<and> nc_acks (evs t) = [(0, 0)]"
proof -
  have w: "nc_all_wellformed demo_port_msg (nc_buffer_msgs linux_nlmsg demo_port_msg)"
    unfolding demo_port_msgs by code_simp
  have "nc_settings demo_port_msg (nc_buffer_msgs linux_nlmsg demo_port_msg) = [Log_port 8080]"
    "concat (map nc_wants_ack (nc_buffer_msgs linux_nlmsg demo_port_msg)) = [(0, 0)]"
    unfolding demo_port_msgs by code_simp+
  with netctrl_receive_prints_settings [OF linux_nlmsg_laws demo_nc_memory w, of demo_nc_st]
  show ?thesis by (simp add: demo_nc_st_def nc_log_def nc_acks_def del: nl_msgs.simps)
qed

text \<open>
  Every message of a known type leaves one more block allocated that nothing in the module frees:
  \<^verbatim>\<open>netctrl_receive_msg\<close> never frees the copy it makes.
\<close>

lemma netctrl_receive_leaks:
  assumes "nlmsg_laws api" and "nc_memory env"
  shows "\<exists>t. netctrl_receive api env bs s = Some t \<and>
    length (nc_live (evs t)) = length (nc_live (evs s)) + length (filter (\<lambda>hp. nc_known (fst hp)) (nc_buffer_msgs api bs))"
  by (rule netctrl_receive_effect [OF assms, of bs s]) (simp del: nl_msgs.simps)

lemma netctrl_receive_leaks_witness:
  "\<exists>t. netctrl_receive linux_nlmsg demo_nc demo_port_msg demo_nc_st = Some t \<and> length (nc_live (evs t)) = 1"
proof -
  have "length (filter (\<lambda>hp. nc_known (fst hp)) (nc_buffer_msgs linux_nlmsg demo_port_msg)) = 1"
    unfolding demo_port_msgs by code_simp
  with netctrl_receive_leaks [OF linux_nlmsg_laws demo_nc_memory, of demo_port_msg demo_nc_st]
  show ?thesis by (simp add: demo_nc_st_def nc_live_def del: nl_msgs.simps)
qed

text \<open>
  As long as the module is loaded nothing that arrives closes its socket or removes its hooks:
  from a successful \<^verbatim>\<open>netctrl_init\<close>, any sequence of received buffers is handled to its end and leaves
  the socket of \<^verbatim>\<open>netctrl_init\<close> in place.
\<close>

lemma netctrl_stays_up:
  assumes "nlmsg_laws api" and "evs s = []" and "netctrl_init env s = (0, t)"
  shows "\<exists>u. foldr (\<lambda>bs r. Option.bind r (netctrl_receive api env bs)) bufs (Some t) = Some u \<and> nc_up u"
proof (induction bufs)
  case Nil
  then show ?case using netctrl_init_up [OF assms(2,3)] by simp
next
  case (Cons bs bufs)
  then obtain u where u: "foldr (\<lambda>bs r. Option.bind r (netctrl_receive api env bs)) bufs (Some t) = Some u" "nc_up u"
    by blast
  obtain v where v: "netctrl_receive api env bs u = Some v"
    unfolding netctrl_receive_def netctrl_receive_skb_def using nc_cmd.walk_returns [OF assms(1)] by blast
  then have "nc_up v"
    using nc_cmd.walk_inv [OF assms(1) u(2)] by (simp add: netctrl_receive_def netctrl_receive_skb_def)
  with u v show ?case by simp
qed

lemma netctrl_stays_up_witness:
  "\<exists>u. foldr (\<lambda>bs r. Option.bind r (netctrl_receive linux_nlmsg demo_nc bs)) [demo_port_msg, demo_port_msg]
     (Some (snd (netctrl_init demo_nc \<lparr>evs = [], netctrl_sock = None\<rparr>))) = Some u \<and> nc_up u"
  by (rule netctrl_stays_up [OF linux_nlmsg_laws, of "\<lparr>evs = [], netctrl_sock = None\<rparr>"])
    (simp_all add: netctrl_init_def netctrl_hooks_init_def demo_nc_def kdefs)

end
