(* ===== verification/NetctrlApp.thy ===== *)
theory NetctrlApp
  imports Netctrl Cnum
begin

text \<open>
  \<^verbatim>\<open>netctrl/app.c\<close>, the program that configures the module of \<open>Netctrl\<close>: it reads one setting from the
  command line, packs it into a \<^verbatim>\<open>struct msg_buf\<close>, wraps that into a netlink message and sends it.

  libc and the system calls are the environment. \<open>a_getopt\<close> answers a call of \<^verbatim>\<open>getopt_long\<close> with the
  option and the pointer \<^verbatim>\<open>optarg\<close> (0 is NULL); \<open>argv_str\<close> is the memory a pointer leads to. Pointers
  have 64 bits; the union in \<^verbatim>\<open>struct syscmd\<close> is one such word, of which the 32-bit member \<^verbatim>\<open>data\<close> is the
  lower half (the machine is little-endian), so storing a number keeps the upper half. The properties
  follow a setting from the command line into the log of the kernel module.
\<close>

datatype app_ev =
    Getopt_long "int \<times> ulong"
  | Socket nat int
  | Getpid u32
  | Bind int u32 int
  | Calloc nat "addr option"
  | Free addr
  | Sendmsg int "byte list" int
  | Close int
  | Say string
  | Say_ret int
  | Say_param ulong

record app_env =
  a_getopt :: "app_ev list \<Rightarrow> int \<times> ulong"
  argv_str :: "ulong \<Rightarrow> byte list"
  a_socket :: "nat \<Rightarrow> app_ev list \<Rightarrow> int"
  a_getpid :: "app_ev list \<Rightarrow> u32"
  a_bind :: "int \<Rightarrow> u32 \<Rightarrow> app_ev list \<Rightarrow> int"
  a_calloc :: "nat \<Rightarrow> app_ev list \<Rightarrow> addr option"
  a_sendmsg :: "int \<Rightarrow> byte list \<Rightarrow> app_ev list \<Rightarrow> int"

text \<open>\<^verbatim>\<open>struct syscmd\<close>; \<open>sc_word\<close> is the union of \<^verbatim>\<open>data\<close> and \<^verbatim>\<open>pdata\<close>.\<close>

record syscmd =
  sc_type :: u32
  sc_word :: ulong

definition sc_data :: "syscmd \<Rightarrow> u32" where
  "sc_data cmd = ucast (sc_word cmd)"

definition put_data :: "u32 \<Rightarrow> ulong \<Rightarrow> ulong" where
  "put_data d w = (w AND NOT (mask 32)) OR ucast d"

lemma ucast_put_data [simp]: "ucast (put_data d w) = d"
  by (rule bit_word_eqI) (auto simp: put_data_def bit_simps)

record app_st = "app_ev kst" +
  g_sys_cmd :: syscmd

abbreviation MAX_MSGSIZE :: nat where "MAX_MSGSIZE \<equiv> 2048"
abbreviation NETLINK_USERSOCK :: nat where "NETLINK_USERSOCK \<equiv> 2"

text \<open>\<^verbatim>\<open>atoi(optarg)\<close>.\<close>

definition a_atoi :: "app_env \<Rightarrow> ulong \<Rightarrow> u32" where
  "a_atoi env p = atoi (argv_str env p)"

section \<open>Sending\<close>

text \<open>The buffer of \<^verbatim>\<open>NLMSG_SPACE(MAX_MSGSIZE)\<close> zero bytes after the payload and the header were
  written.\<close>

definition app_nlhdr :: "byte list \<Rightarrow> u32 \<Rightarrow> byte list" where
  "app_nlhdr buf pid =
     memcpy_at 0 (memcpy_at NLMSG_HDRLEN (replicate (nl_align (NLMSG_HDRLEN + MAX_MSGSIZE)) 0) buf)
       (hdr_bytes \<lparr>nlmsg_len = of_nat (NLMSG_HDRLEN + length buf), nlmsg_type = rd16 buf, nlmsg_flags = 0,
                   nlmsg_seq = 0, nlmsg_pid = pid\<rparr>)"

definition send_msg_to_kernel :: "app_env \<Rightarrow> byte list \<Rightarrow> nat \<Rightarrow> app_st \<Rightarrow> fault + int \<times> app_st" where
  "send_msg_to_kernel env buf module s =
     (if MAX_MSGSIZE \<le> length buf then Inr (-1, s)
      else let (sockfd, s1) = kcall (a_socket env module) (Socket module) s
           in if sockfd < 0 then Inr (-1, s1)
              else let (p, s2) = kcall (a_getpid env) Getpid s1;
                       (ret, s3) = kcall (a_bind env sockfd p) (Bind sockfd p) s2
                   in if ret < 0 then Inr (ret, kdo (Close sockfd) s3)
                      else let (m, s4) = kcall (a_calloc env (nl_align (NLMSG_HDRLEN + MAX_MSGSIZE)))
                                               (Calloc (nl_align (NLMSG_HDRLEN + MAX_MSGSIZE))) s3
                           in case m of
                                None \<Rightarrow> Inl NullDeref
                              | Some nlhdr \<Rightarrow>
                                  (let (q, s5) = kcall (a_getpid env) Getpid s4;
                                       bytes = take (NLMSG_HDRLEN + length buf) (app_nlhdr buf q);
                                       (ret, s6) = kcall (a_sendmsg env sockfd bytes) (Sendmsg sockfd bytes) s5
                                   in Inr (ret, kdo (Free nlhdr) (kdo (Close sockfd) s6))))"

text \<open>\<^verbatim>\<open>struct msg_buf\<close> with the setting: zeroed by \<^verbatim>\<open>calloc\<close>, then type, length and data.\<close>

definition app_msg :: "u16 \<Rightarrow> byte list \<Rightarrow> byte list" where
  "app_msg operation buf =
     memcpy_at 4 (memcpy_at 2 (memcpy_at 0 (replicate (4 + length buf) 0) (le16 operation))
       (le16 (of_nat (length buf)))) buf"

definition auth_kernel_config_cmd :: "app_env \<Rightarrow> u16 \<Rightarrow> byte list \<Rightarrow> app_st \<Rightarrow> fault + int \<times> app_st" where
  "auth_kernel_config_cmd env operation buf s =
     (let (m, s1) = kcall (a_calloc env (4 + length buf)) (Calloc (4 + length buf)) s
      in case m of
           None \<Rightarrow> Inr (-1, kdo (Say ''malloc error'') s1)
         | Some msg \<Rightarrow>
             (case send_msg_to_kernel env (app_msg operation buf) NETLINK_USERSOCK s1 of
                Inl f \<Rightarrow> Inl f
              | Inr (ret, s2) \<Rightarrow>
                  Inr (0, kdo (Free msg) (if ret \<le> 0 then kdo (Say ''send msg to kernel errro'') s2 else s2))))"

section \<open>The commands\<close>

definition cmd_failed :: "fault + int \<times> app_st \<Rightarrow> fault + int \<times> app_st" where
  "cmd_failed r =
     (case r of
        Inl f \<Rightarrow> Inl f
      | Inr (ret, s) \<Rightarrow> Inr (ret, if ret < 0 then kdo (Say ''auth_kernel_config_cmd error'') s else s))"

definition syscmd_set_auth_port :: "app_env \<Rightarrow> syscmd \<Rightarrow> app_st \<Rightarrow> fault + int \<times> app_st" where
  "syscmd_set_auth_port env cmd s =
     cmd_failed (auth_kernel_config_cmd env (ucast (sc_type cmd)) (le32 (sc_data cmd)) s)"

definition syscmd_set_auth_ip :: "app_env \<Rightarrow> syscmd \<Rightarrow> app_st \<Rightarrow> fault + int \<times> app_st" where
  "syscmd_set_auth_ip env cmd s =
     cmd_failed (auth_kernel_config_cmd env (ucast (sc_type cmd)) (strncpy 32 (argv_str env (sc_word cmd))) s)"

definition syscmd_set_auth_id :: "app_env \<Rightarrow> syscmd \<Rightarrow> app_st \<Rightarrow> fault + int \<times> app_st" where
  "syscmd_set_auth_id env cmd s =
     cmd_failed (auth_kernel_config_cmd env (ucast (sc_type cmd)) (le32 (sc_data cmd)) s)"

definition syscmd_proc :: "app_env \<Rightarrow> syscmd \<Rightarrow> app_st \<Rightarrow> fault + int \<times> app_st" where
  "syscmd_proc env cmd s =
     (let r = (if sc_type cmd = 1 then syscmd_set_auth_ip env cmd s
               else if sc_type cmd = 2 then syscmd_set_auth_port env cmd s
               else if sc_type cmd = 3 then syscmd_set_auth_id env cmd s
               else Inr (0, kdo (Say ''unknown command'') s))
      in case r of Inl f \<Rightarrow> Inl f | Inr (_, s1) \<Rightarrow> Inr (0, s1))"

section \<open>The command line\<close>

definition usage :: "app_st \<Rightarrow> app_st" where
  "usage s = kdo (Say ''NETCTRL USAGE:'') s"

text \<open>The switch of \<^verbatim>\<open>syscmd_parse_args\<close>, on the codes of the letters h, d, p and i; \<open>ret\<close> is the
  value it leaves in the variable of that name.\<close>

definition parse_switch :: "app_env \<Rightarrow> int \<Rightarrow> ulong \<Rightarrow> int \<Rightarrow> app_st \<Rightarrow> int \<times> app_st" where
  "parse_switch env c optarg ret s =
     (if c = 104 then (-1, usage s)
      else if c = 100 then (ret, s\<lparr>g_sys_cmd := \<lparr>sc_type = 3, sc_word = put_data (a_atoi env optarg) (sc_word (g_sys_cmd s))\<rparr>\<rparr>)
      else if c = 112 then (ret, s\<lparr>g_sys_cmd := \<lparr>sc_type = 2, sc_word = put_data (a_atoi env optarg) (sc_word (g_sys_cmd s))\<rparr>\<rparr>)
      else if c = 105 then (ret, s\<lparr>g_sys_cmd := \<lparr>sc_type = 1, sc_word = optarg\<rparr>\<rparr>)
      else (-1, kdo (Say_param optarg) s))"

partial_function (option) parse_loop :: "app_env \<Rightarrow> int \<Rightarrow> app_st \<Rightarrow> (int \<times> app_st) option" where
  "parse_loop env ret s =
     (let (r, s1) = kcall (a_getopt env) Getopt_long s
      in if fst r = -1 then Some (ret, s1)
         else if snd r = 0 then Some (-1, kdo (Say ''arguments null'') s1)
         else parse_loop env (fst (parse_switch env (fst r) (snd r) ret s1))
                (snd (parse_switch env (fst r) (snd r) ret s1)))"

definition syscmd_parse_args :: "app_env \<Rightarrow> app_st \<Rightarrow> (int \<times> app_st) option" where
  "syscmd_parse_args env s = parse_loop env 0 s"

text \<open>\<^verbatim>\<open>main\<close>: \<open>None\<close> if the option loop never ends, a fault if the program crashes.\<close>

definition app_main :: "app_env \<Rightarrow> int \<Rightarrow> app_st \<Rightarrow> (fault + int \<times> app_st) option" where
  "app_main env argc s =
     (if argc \<le> 1 then Some (Inr (0, usage s))
      else Option.bind (syscmd_parse_args env s)
             (\<lambda>(ret, s1). let s2 = kdo (Say_ret ret) s1
                in if ret \<noteq> 0 then Some (Inr (0, usage s2))
                   else Some (case syscmd_proc env (g_sys_cmd s2) s2 of
                                Inl f \<Rightarrow> Inl f | Inr (_, s3) \<Rightarrow> Inr (0, s3))))"

section \<open>The documented behaviour of getopt and the system calls\<close>

text \<open>\<^verbatim>\<open>getopt_long\<close> hands out the options of the command line one after the other, then -1.\<close>

fun is_getopt :: "app_ev \<Rightarrow> bool" where
  "is_getopt (Getopt_long _) = True"
| "is_getopt _ = False"

definition getopt_law :: "app_env \<Rightarrow> (int \<times> ulong) list \<Rightarrow> bool" where
  "getopt_law env opts \<longleftrightarrow> (\<forall>(c, a)\<in>set opts. c \<noteq> -1) \<and>
     (\<forall>tr. a_getopt env tr =
        (let k = length (filter is_getopt tr) in if k < length opts then opts ! k else (-1, 0)))"

text \<open>The system has what the program asks for.\<close>

definition app_resources :: "app_env \<Rightarrow> bool" where
  "app_resources env \<longleftrightarrow>
     (\<forall>m tr. 0 \<le> a_socket env m tr) \<and> (\<forall>fd p tr. 0 \<le> a_bind env fd p tr) \<and>
     (\<forall>n tr. a_calloc env n tr \<noteq> None) \<and> (\<forall>fd bs tr. 0 < a_sendmsg env fd bs tr)"

text \<open>What the program sent, what it allocated and did not free, which sockets it left open.\<close>

fun app_sent_ev :: "app_ev \<Rightarrow> byte list list" where
  "app_sent_ev (Sendmsg fd bs r) = [bs]"
| "app_sent_ev _ = []"

definition app_sent :: "app_ev list \<Rightarrow> byte list list" where
  "app_sent tr = concat (map app_sent_ev tr)"

fun app_open_ev :: "app_ev \<Rightarrow> int list \<Rightarrow> int list" where
  "app_open_ev (Socket m fd) l = (if fd < 0 then l else l @ [fd])"
| "app_open_ev (Close fd) l = removeAll fd l"
| "app_open_ev _ l = l"

definition app_open :: "app_ev list \<Rightarrow> int list" where
  "app_open tr = fold app_open_ev tr []"

fun app_heap_ev :: "app_ev \<Rightarrow> addr list \<Rightarrow> addr list" where
  "app_heap_ev (Calloc n (Some a)) l = l @ [a]"
| "app_heap_ev (Free a) l = removeAll a l"
| "app_heap_ev _ l = l"

definition app_heap :: "app_ev list \<Rightarrow> addr list" where
  "app_heap tr = fold app_heap_ev tr []"

lemma app_sent_append [simp]: "app_sent (tr @ es) = app_sent tr @ concat (map app_sent_ev es)"
  by (simp add: app_sent_def)

lemma app_open_append [simp]: "app_open (tr @ es) = fold app_open_ev es (app_open tr)"
  by (simp add: app_open_def)

lemma app_heap_append [simp]: "app_heap (tr @ es) = fold app_heap_ev es (app_heap tr)"
  by (simp add: app_heap_def)

section \<open>Layout of the message\<close>

lemma app_msg_eq: "app_msg operation buf = le16 operation @ le16 (of_nat (length buf)) @ buf"
  by (simp add: app_msg_def memcpy_at_def le16_def)

text \<open>The netlink message for a setting: header, type, length, data.\<close>

definition app_frame :: "u16 \<Rightarrow> byte list \<Rightarrow> u32 \<Rightarrow> byte list" where
  "app_frame operation buf pid =
     hdr_bytes \<lparr>nlmsg_len = of_nat (20 + length buf), nlmsg_type = operation, nlmsg_flags = 0,
                nlmsg_seq = 0, nlmsg_pid = pid\<rparr> @ app_msg operation buf"

lemma app_nlhdr_frame:
  assumes "length (app_msg operation buf) < MAX_MSGSIZE"
  shows "take (NLMSG_HDRLEN + length (app_msg operation buf)) (app_nlhdr (app_msg operation buf) pid) =
    app_frame operation buf pid"
proof -
  have "rd16 (app_msg operation buf) = operation" by (simp add: app_msg_eq)
  moreover have "length (app_msg operation buf) = 4 + length buf" by (simp add: app_msg_eq)
  ultimately show ?thesis
    using assms by (simp add: app_nlhdr_def app_frame_def memcpy_at_def nl_align_def)
qed

section \<open>Sending a setting\<close>

lemma send_msg_to_kernel_sends:
  assumes "app_resources env" and "length (app_msg operation buf) < MAX_MSGSIZE"
  shows "\<exists>r t p. send_msg_to_kernel env (app_msg operation buf) m s = Inr (r, t) \<and> 0 < r \<and>
    app_sent (evs t) = app_sent (evs s) @ [app_frame operation buf p] \<and> g_sys_cmd t = g_sys_cmd s"
proof -
  have e: "\<And>m tr. 0 \<le> a_socket env m tr" "\<And>fd p tr. 0 \<le> a_bind env fd p tr"
    "\<And>n tr. \<exists>a. a_calloc env n tr = Some a" "\<And>fd bs tr. 0 < a_sendmsg env fd bs tr"
    using assms(1) by (auto simp: app_resources_def)
  have "\<And>x. \<not> a_socket env m (evs s) < 0" "\<And>fd p tr. \<not> a_bind env fd p tr < 0"
    using e(1,2) by (simp_all add: not_less)
  moreover obtain fd where "a_socket env m (evs s) = fd" by blast
  moreover obtain p tr where "a_getpid env (evs s @ [Socket m fd]) = p" "tr = evs s @ [Socket m fd, Getpid p]" by blast
  moreover obtain b where "a_bind env fd p tr = b" by blast
  moreover obtain a where "a_calloc env 2064 (tr @ [Bind fd p b]) = Some a" using e(3) by blast
  ultimately show ?thesis
    using assms(2) e(4) app_nlhdr_frame [OF assms(2)]
    by (auto simp: send_msg_to_kernel_def kdefs nl_align_def not_le)
qed

lemma auth_kernel_config_cmd_sends:
  assumes "app_resources env" and "length buf < 2044"
  shows "\<exists>t p. auth_kernel_config_cmd env operation buf s = Inr (0, t) \<and>
    app_sent (evs t) = app_sent (evs s) @ [app_frame operation buf p] \<and> g_sys_cmd t = g_sys_cmd s"
proof -
  obtain a where a: "a_calloc env (4 + length buf) (evs s) = Some a"
    using assms(1) unfolding app_resources_def by blast
  have "length (app_msg operation buf) < MAX_MSGSIZE" using assms(2) by (simp add: app_msg_eq)
  from send_msg_to_kernel_sends [OF assms(1) this, of NETLINK_USERSOCK "s\<lparr>evs := evs s @ [Calloc (4 + length buf) (Some a)]\<rparr>"]
  show ?thesis using a by (auto simp: auth_kernel_config_cmd_def kdefs)
qed

text \<open>The bytes of the setting that \<^verbatim>\<open>syscmd_proc\<close> sends.\<close>

definition cmd_data :: "app_env \<Rightarrow> syscmd \<Rightarrow> byte list" where
  "cmd_data env cmd = (if sc_type cmd = 1 then strncpy 32 (argv_str env (sc_word cmd)) else le32 (sc_data cmd))"

lemma syscmd_proc_sends:
  assumes "app_resources env" and "sc_type cmd \<in> {1, 2, 3}"
  shows "\<exists>t p. syscmd_proc env cmd s = Inr (0, t) \<and>
    app_sent (evs t) = app_sent (evs s) @ [app_frame (ucast (sc_type cmd)) (cmd_data env cmd) p]"
proof -
  have "length (cmd_data env cmd) < 2044" by (simp add: cmd_data_def)
  from auth_kernel_config_cmd_sends [OF assms(1) this, of "ucast (sc_type cmd)" s] assms(2)
  show ?thesis
    by (auto simp: syscmd_proc_def syscmd_set_auth_ip_def syscmd_set_auth_port_def syscmd_set_auth_id_def
        cmd_failed_def cmd_data_def)
qed

section \<open>The option loop\<close>

text \<open>\<open>tidy s t\<close>: from \<open>s\<close> to \<open>t\<close> no socket is left open and no block left allocated.\<close>

definition tidy :: "app_st \<Rightarrow> app_st \<Rightarrow> bool" where
  "tidy s t \<longleftrightarrow> set (app_open (evs t)) \<subseteq> set (app_open (evs s)) \<and> set (app_heap (evs t)) \<subseteq> set (app_heap (evs s))"

lemma tidy_trans: "tidy s t \<Longrightarrow> tidy t u \<Longrightarrow> tidy s u"
  by (auto simp: tidy_def)

lemma tidy_refl [simp]: "tidy s s" by (simp add: tidy_def)

text \<open>What the options of a command line ask for: the last setting, or -1 if one is bad.\<close>

fun parse_opts :: "app_env \<Rightarrow> (int \<times> ulong) list \<Rightarrow> int \<times> syscmd \<Rightarrow> int \<times> syscmd" where
  "parse_opts env [] rc = rc"
| "parse_opts env ((c, a) # os) (ret, cmd) =
     (if a = 0 then (-1, cmd)
      else if c = 100 then parse_opts env os (ret, \<lparr>sc_type = 3, sc_word = put_data (a_atoi env a) (sc_word cmd)\<rparr>)
      else if c = 112 then parse_opts env os (ret, \<lparr>sc_type = 2, sc_word = put_data (a_atoi env a) (sc_word cmd)\<rparr>)
      else if c = 105 then parse_opts env os (ret, \<lparr>sc_type = 1, sc_word = a\<rparr>)
      else parse_opts env os (-1, cmd))"

lemma parse_switch_frame:
  "length (filter is_getopt (evs (snd (parse_switch env c a ret s)))) = length (filter is_getopt (evs s))"
  "app_sent (evs (snd (parse_switch env c a ret s))) = app_sent (evs s)"
  "tidy s (snd (parse_switch env c a ret s))"
  by (simp_all add: parse_switch_def usage_def tidy_def kdefs)

lemma getopt_lawD:
  assumes "getopt_law env opts" and "length (filter is_getopt (evs s)) = length done" and "opts = done @ todo"
  shows "a_getopt env (evs s) = (case todo of [] \<Rightarrow> (-1, 0) | o1 # _ \<Rightarrow> o1)"
proof -
  have "a_getopt env (evs s) = (if length done < length opts then opts ! length done else (-1, 0))"
    using assms(1,2) by (simp add: getopt_law_def Let_def)
  with assms(3) show ?thesis by (auto split: list.split)
qed

lemma parse_loop_opts:
  assumes "getopt_law env opts" and "length (filter is_getopt (evs s)) = length done" and "opts = done @ todo"
  shows "\<exists>t. parse_loop env ret s = Some (fst (parse_opts env todo (ret, g_sys_cmd s)), t) \<and>
    g_sys_cmd t = snd (parse_opts env todo (ret, g_sys_cmd s)) \<and> app_sent (evs t) = app_sent (evs s) \<and> tidy s t"
  using assms(2,3)
proof (induction todo arbitrary: "done" ret s)
  case Nil
  from getopt_lawD [OF assms(1) Nil] show ?case
    by (simp add: parse_loop.simps [of env ret s] kdefs tidy_def)
next
  case (Cons x todo)
  obtain c a where x: "x = (c, a)" by (cases x)
  have g: "a_getopt env (evs s) = (c, a)" and c: "c \<noteq> -1"
    using getopt_lawD [OF assms(1) Cons.prems] assms(1) Cons.prems(2) by (auto simp: x getopt_law_def)
  let ?s1 = "s\<lparr>evs := evs s @ [Getopt_long (c, a)]\<rparr>"
  show ?case
  proof (cases "a = 0")
    case True
    with g c show ?thesis by (simp add: parse_loop.simps [of env ret s] kdefs x tidy_def)
  next
    case False
    let ?p = "parse_switch env c a ret ?s1"
    have "length (filter is_getopt (evs (snd ?p))) = length (done @ [x])"
      using Cons.prems(1) by (simp add: parse_switch_frame)
    from Cons.IH [OF this, of "fst ?p"] Cons.prems(2) obtain t where t:
      "parse_loop env (fst ?p) (snd ?p) = Some (fst (parse_opts env todo (fst ?p, g_sys_cmd (snd ?p))), t)"
      "g_sys_cmd t = snd (parse_opts env todo (fst ?p, g_sys_cmd (snd ?p)))" "app_sent (evs t) = app_sent (evs s)"
      "tidy (snd ?p) t"
      by (auto simp: parse_switch_frame)
    have td: "tidy s (snd ?p)"
      using parse_switch_frame(3) [of ?s1 env c a ret] by (simp add: tidy_def)
    have "parse_loop env ret s = parse_loop env (fst ?p) (snd ?p)"
      using g c False by (simp add: parse_loop.simps [of env ret s] kdefs)
    moreover have "parse_opts env (x # todo) (ret, g_sys_cmd s) = parse_opts env todo (fst ?p, g_sys_cmd (snd ?p))"
      using False by (simp add: x parse_switch_def usage_def kdefs)
    ultimately show ?thesis using t tidy_trans [OF td t(4)] by simp
  qed
qed

section \<open>Resources\<close>

lemma send_msg_to_kernel_tidy:
  "send_msg_to_kernel env buf m s = Inr (r, t) \<Longrightarrow> tidy s t"
  by (auto simp: send_msg_to_kernel_def tidy_def kdefs split: if_splits option.splits)

lemma auth_kernel_config_cmd_tidy:
  assumes "auth_kernel_config_cmd env op1 buf s = Inr (r, t)"
  shows "tidy s t"
proof (cases "a_calloc env (4 + length buf) (evs s)")
  case None
  with assms show ?thesis by (auto simp: auth_kernel_config_cmd_def kdefs tidy_def)
next
  case (Some a)
  let ?s1 = "s\<lparr>evs := evs s @ [Calloc (4 + length buf) (Some a)]\<rparr>"
  obtain ret s2 where "send_msg_to_kernel env (app_msg op1 buf) NETLINK_USERSOCK ?s1 = Inr (ret, s2)"
    "t = kdo (Free a) (if ret \<le> 0 then kdo (Say ''send msg to kernel errro'') s2 else s2)"
    using assms Some by (auto simp: auth_kernel_config_cmd_def kdefs split: sum.splits prod.splits)
  then show ?thesis using send_msg_to_kernel_tidy [of env "app_msg op1 buf" NETLINK_USERSOCK ?s1 ret s2]
    by (auto simp: tidy_def)
qed

lemma syscmd_proc_tidy:
  assumes "syscmd_proc env cmd s = Inr (r, t)"
  shows "tidy s t"
proof -
  have say: "\<And>u v. tidy s u \<Longrightarrow> v = u \<or> v = kdo (Say m) u \<Longrightarrow> tidy s v" for m by (auto simp: tidy_def)
  have "\<And>x op1 b. cmd_failed (auth_kernel_config_cmd env op1 b s) = Inr x \<Longrightarrow> tidy s (snd x)"
    using auth_kernel_config_cmd_tidy [of env _ _ s]
    by (fastforce simp: cmd_failed_def tidy_def split: sum.splits if_splits)
  then show ?thesis
    using assms by (fastforce simp: syscmd_proc_def syscmd_set_auth_ip_def syscmd_set_auth_port_def syscmd_set_auth_id_def
        tidy_def Let_def split: sum.splits if_splits)
qed

section \<open>The module receives the frame\<close>

abbreviation frame_hdr :: "u16 \<Rightarrow> byte list \<Rightarrow> u32 \<Rightarrow> nlmsghdr" where
  "frame_hdr operation buf pid \<equiv>
     \<lparr>nlmsg_len = of_nat (20 + length buf), nlmsg_type = operation, nlmsg_flags = 0, nlmsg_seq = 0, nlmsg_pid = pid\<rparr>"

lemma frame_len: "length buf < 2044 \<Longrightarrow> unat (nlmsg_len (frame_hdr operation buf pid)) = 20 + length buf"
  by (simp add: unat_of_nat take_bit_nat_eq_self del: of_nat_add of_nat_Suc)

lemma length_app_frame: "length (app_frame operation buf pid) = 20 + length buf"
  by (simp add: app_frame_def app_msg_eq)

lemma frame_msgs:
  assumes api: "nlmsg_laws api" "hdr_law api" and len: "length buf < 2044"
  shows "nc_buffer_msgs api (app_frame operation buf pid) = [(frame_hdr operation buf pid, 0)]"
proof (rule nl_msgs_single [OF api(1)])
  show "hdr_at api (app_frame operation buf pid) 0 = frame_hdr operation buf pid"
    using api(2) by (simp add: hdr_law_def app_frame_def del: of_nat_add)
  show "unat (nlmsg_len (frame_hdr operation buf pid)) = length (app_frame operation buf pid)"
    using frame_len [OF len] length_app_frame by simp
  show "NLMSG_HDRLEN \<le> length (app_frame operation buf pid)" by (simp add: length_app_frame)
qed

lemma frame_payload:
  assumes "length buf < 2044"
  shows "nc_payload (app_frame operation buf pid) (frame_hdr operation buf pid) 0 = app_msg operation buf"
  unfolding nc_payload_def frame_len [OF assms] by (simp add: app_frame_def app_msg_eq)

lemma nc_known_frame:
  "operation \<in> {1, 2, 3} \<Longrightarrow> nc_known (frame_hdr operation buf pid)"
  by (simp add: nc_known_def)

lemma app_frame_logged:
  assumes "nlmsg_laws api" and "hdr_law api" and "nc_memory nenv" and "operation \<in> {1, 2, 3}"
    and "nc_wellformed (app_msg operation buf)" and "length buf < 2044"
  shows "\<exists>t. netctrl_receive api nenv (app_frame operation buf pid) ns = Some t \<and>
    nc_log (evs t) = nc_log (evs ns) @ nc_setting (app_msg operation buf)"
proof -
  note ms = frame_msgs [OF assms(1,2,6), of operation pid]
  have "nc_all_wellformed (app_frame operation buf pid) (nc_buffer_msgs api (app_frame operation buf pid))"
    unfolding ms using assms(5) by (simp add: nc_all_wellformed_def frame_payload [OF assms(6), unfolded nlmsghdr.select_convs] del: of_nat_add)
  moreover have "nc_settings (app_frame operation buf pid) (nc_buffer_msgs api (app_frame operation buf pid)) =
      nc_setting (app_msg operation buf)"
    unfolding ms by (simp add: nc_settings_def nc_known_frame [OF assms(4)] frame_payload [OF assms(6)] del: of_nat_add)
  ultimately show ?thesis
    by (rule_tac netctrl_receive_effect [OF assms(1,3), of "app_frame operation buf pid" ns])
      (simp del: nl_msgs.simps)
qed

section \<open>Properties\<close>

definition asked_setting :: "app_env \<Rightarrow> int \<Rightarrow> ulong \<Rightarrow> nc_ev" where
  "asked_setting env c a =
     (if c = 112 then Log_port (sint (a_atoi env a))
      else if c = 100 then Log_id (sint (a_atoi env a))
      else Log_ip (cstr (argv_str env a)))"

definition cmd_of :: "app_env \<Rightarrow> int \<Rightarrow> ulong \<Rightarrow> ulong \<Rightarrow> syscmd" where
  "cmd_of env c a w =
     (if c = 112 then \<lparr>sc_type = 2, sc_word = put_data (a_atoi env a) w\<rparr>
      else if c = 100 then \<lparr>sc_type = 3, sc_word = put_data (a_atoi env a) w\<rparr>
      else \<lparr>sc_type = 1, sc_word = a\<rparr>)"

lemma app_main_sends:
  assumes "getopt_law env [(c, a)]" and "app_resources env" and "c \<in> {112, 100, 105}" and "a \<noteq> 0"
    and "1 < argc" and "filter is_getopt (evs s) = []"
  shows "\<exists>t p. app_main env argc s = Some (Inr (0, t)) \<and>
    app_sent (evs t) = app_sent (evs s) @ [app_frame (ucast (sc_type (cmd_of env c a (sc_word (g_sys_cmd s))))) (cmd_data env (cmd_of env c a (sc_word (g_sys_cmd s)))) p]"
proof -
  have p: "parse_opts env [(c, a)] (0, g_sys_cmd s) = (0, cmd_of env c a (sc_word (g_sys_cmd s)))"
    using assms(3,4) by (auto simp: cmd_of_def)
  have "length (filter is_getopt (evs s)) = length []" using assms(6) by simp
  from parse_loop_opts [OF assms(1) this, of "[(c, a)]" 0] obtain s1 where s1:
    "syscmd_parse_args env s = Some (0, s1)" "g_sys_cmd s1 = cmd_of env c a (sc_word (g_sys_cmd s))" "app_sent (evs s1) = app_sent (evs s)"
    unfolding p by (auto simp: syscmd_parse_args_def)
  have "sc_type (cmd_of env c a (sc_word (g_sys_cmd s))) \<in> {1, 2, 3}" by (simp add: cmd_of_def)
  from syscmd_proc_sends [OF assms(2) this, of "kdo (Say_ret 0) s1"] s1 show ?thesis
    using assms(5) by (auto simp: app_main_def kdefs)
qed

lemma asked_setting_laid_out:
  assumes "c \<in> {112, 100, 105}" and "c = 105 \<longrightarrow> length (cstr (argv_str env a)) < 32"
  shows "nc_wellformed (app_msg (ucast (sc_type (cmd_of env c a w))) (cmd_data env (cmd_of env c a w))) \<and>
    nc_setting (app_msg (ucast (sc_type (cmd_of env c a w))) (cmd_data env (cmd_of env c a w))) = [asked_setting env c a]"
proof (cases "c = 105")
  case True
  let ?d = "strncpy 32 (argv_str env a)"
  have "0 \<in> set ?d" "cstr ?d = cstr (argv_str env a)"
    using assms(2) True cstr_strncpy_fits [OF cstr_no_NUL, of "argv_str env a" 32]
    by (auto simp: strncpy_def cstr_id [OF cstr_no_NUL])
  moreover have "drop 4 (app_msg 1 ?d) = ?d" "rd16 (app_msg 1 ?d) = 1" "length (app_msg 1 ?d) = 36"
    by (simp_all add: app_msg_eq)
  ultimately show ?thesis
    using True by (simp add: nc_wellformed_def nc_setting_def asked_setting_def cmd_of_def cmd_data_def sc_data_def)
next
  case False
  have "drop 4 (app_msg x (le32 w)) = le32 w" "rd16 (app_msg x (le32 w)) = x" "length (app_msg x (le32 w)) = 8" for x w
    by (simp_all add: app_msg_eq)
  with False assms(1) rd32_le32 [of _ "[]"] show ?thesis
    by (auto simp: nc_wellformed_def nc_setting_def asked_setting_def cmd_of_def cmd_data_def sc_data_def)
qed

text \<open>
  From the command line to the kernel log. If the command line has one setting (\<open>-p\<close>, \<open>-d\<close> or
  \<open>-i\<close> with its argument, an address of less than 32 characters) and the system provides sockets and
  memory, the program sends exactly one message, and the module, on receiving it in any state,
  prints exactly the setting that was asked for.
\<close>

lemma setting_reaches_kernel_log:
  assumes "getopt_law env [(c, a)]" and "app_resources env" and "nlmsg_laws api" and "hdr_law api" and "nc_memory nenv"
    and "c \<in> {112, 100, 105}" and "a \<noteq> 0" and "c = 105 \<longrightarrow> length (cstr (argv_str env a)) < 32"
    and "1 < argc" and "evs s = []"
  shows "\<exists>t m. app_main env argc s = Some (Inr (0, t)) \<and> app_sent (evs t) = [m] \<and>
    (\<forall>ns. \<exists>ns'. netctrl_receive api nenv m ns = Some ns' \<and>
       nc_log (evs ns') = nc_log (evs ns) @ [asked_setting env c a])"
proof -
  let ?op = "ucast (sc_type (cmd_of env c a (sc_word (g_sys_cmd s))))" and ?d = "cmd_data env (cmd_of env c a (sc_word (g_sys_cmd s)))"
  obtain t p where t: "app_main env argc s = Some (Inr (0, t))" "app_sent (evs t) = [app_frame ?op ?d p]"
    using app_main_sends [OF assms(1,2,6,7,9), of s] assms(10) by (auto simp: app_sent_def)
  note w = asked_setting_laid_out [OF assms(6,8)]
  have "?op \<in> {1, 2, 3}" "length ?d < 2044" by (simp_all add: cmd_of_def cmd_data_def)
  from app_frame_logged [OF assms(3-5) this(1) conjunct1 [OF w] this(2)] t w show ?thesis by auto
qed

definition demo_app :: "int \<Rightarrow> byte list \<Rightarrow> app_env" where
  "demo_app c str =
     \<lparr>a_getopt = (\<lambda>tr. if length (filter is_getopt tr) < 1 then (c, 500) else (-1, 0)),
      argv_str = (\<lambda>_. str), a_socket = (\<lambda>_ _. 3), a_getpid = (\<lambda>_. 77), a_bind = (\<lambda>_ _ _. 0),
      a_calloc = (\<lambda>_ tr. Some (100 + length tr)), a_sendmsg = (\<lambda>_ bs _. int (length bs) + 1)\<rparr>"

abbreviation app_boot :: app_st where
  "app_boot \<equiv> \<lparr>evs = [], g_sys_cmd = \<lparr>sc_type = 0, sc_word = 0\<rparr>\<rparr>"

lemma demo_app_atoi: "a_atoi (demo_app c str) p = atoi str"
  by (simp add: a_atoi_def demo_app_def)

lemma demo_numbers: "atoi (lit ''8080'') = 8080" "atoi (lit ''42'') = 42"
  by code_simp+

lemma demo_app_laws: "c \<noteq> -1 \<Longrightarrow> getopt_law (demo_app c str) [(c, 500)] \<and> app_resources (demo_app c str)"
  by (simp add: getopt_law_def app_resources_def demo_app_def Let_def)

lemma setting_reaches_kernel_log_witness:
  "\<exists>t m. app_main (demo_app 112 (lit ''8080'')) 3 app_boot = Some (Inr (0, t)) \<and> app_sent (evs t) = [m] \<and>
    (\<forall>ns. \<exists>ns'. netctrl_receive linux_nlmsg demo_nc m ns = Some ns' \<and> nc_log (evs ns') = nc_log (evs ns) @ [Log_port 8080])"
proof -
  have "asked_setting (demo_app 112 (lit ''8080'')) 112 500 = Log_port 8080"
    by (simp add: asked_setting_def demo_app_atoi demo_numbers)
  with setting_reaches_kernel_log [of "demo_app 112 (lit ''8080'')" 112 500 linux_nlmsg demo_nc 3 app_boot]
    demo_app_laws [of 112 "lit ''8080''"] linux_nlmsg_laws linux_hdr_law demo_nc_memory
  show ?thesis by simp
qed

text \<open>
  C32. \<^verbatim>\<open>syscmd_parse_args\<close> returns on every command line. It stores the last setting given; it reports
  -1 if an option is unknown or comes without argument, and stops reading at the latter. In
  particular \<open>-h\<close>, which has no argument, is reported as a missing argument and never reaches its own
  case of the switch.
\<close>

theorem syscmd_parse_args_total:
  assumes "getopt_law env opts" and "evs s = []"
  shows "\<exists>t. syscmd_parse_args env s = Some (fst (parse_opts env opts (0, g_sys_cmd s)), t) \<and>
    g_sys_cmd t = snd (parse_opts env opts (0, g_sys_cmd s)) \<and>
    (\<forall>pre. opts = pre @ [(104, 0)] \<longrightarrow> fst (parse_opts env opts (0, g_sys_cmd s)) = -1)"
proof -
  have "fst (parse_opts env (pre @ [(104, 0)]) rc) = -1" for pre rc
    by (induction env pre rc rule: parse_opts.induct) (auto split: prod.splits)
  moreover have "length (filter is_getopt (evs s)) = length []" using assms(2) by simp
  ultimately show ?thesis
    using parse_loop_opts [OF assms(1), of s "[]" opts 0] by (auto simp: syscmd_parse_args_def)
qed

theorem syscmd_parse_args_total_witness:
  "\<exists>t. syscmd_parse_args (demo_app 100 (lit ''42'')) app_boot = Some (0, t) \<and> sc_type (g_sys_cmd t) = 3 \<and> sc_data (g_sys_cmd t) = 42"
  using syscmd_parse_args_total [of "demo_app 100 (lit ''42'')" "[(100, 500)]" app_boot] demo_app_laws [of 100 "lit ''42''"]
  by (auto simp: demo_app_atoi demo_numbers sc_data_def)

text \<open>
  C33. The program leaves nothing behind: whenever it returns, successfully or after any error of a
  system call, every socket it opened is closed and every block it allocated is freed.
\<close>

theorem app_main_releases:
  assumes "getopt_law env opts" and "evs s = []" and "app_main env argc s = Some (Inr (r, t))"
  shows "app_open (evs t) = [] \<and> app_heap (evs t) = []"
proof -
  have "length (filter is_getopt (evs s)) = length []" using assms(2) by simp
  from parse_loop_opts [OF assms(1) this, of opts 0] obtain q u where
    u: "syscmd_parse_args env s = Some (q, u)" "tidy s u"
    by (auto simp: syscmd_parse_args_def)
  have "tidy s (kdo (Say_ret q) u)" using u(2) by (simp add: tidy_def)
  then have "tidy s t"
    using assms(3) u(1) syscmd_proc_tidy [of env "g_sys_cmd u" "kdo (Say_ret q) u"]
    by (fastforce simp: app_main_def usage_def kdefs tidy_def split: if_splits sum.splits)
  with assms(2) show ?thesis by (simp add: tidy_def app_open_def app_heap_def)
qed

theorem app_main_releases_witness:
  "\<exists>t. app_main (demo_app 112 (lit ''8080'')) 3 app_boot = Some (Inr (0, t)) \<and> app_open (evs t) = [] \<and> app_heap (evs t) = []"
proof -
  have l: "getopt_law (demo_app 112 (lit ''8080'')) [(112, 500)]" "app_resources (demo_app 112 (lit ''8080''))"
    using demo_app_laws [of 112 "lit ''8080''"] by simp_all
  then obtain t where "app_main (demo_app 112 (lit ''8080'')) 3 app_boot = Some (Inr (0, t))"
    using app_main_sends [OF l, of 3 app_boot] by auto
  with app_main_releases [OF l(1), of app_boot] show ?thesis by simp
qed

text \<open>How the module takes a frame with an address of 32 bytes and no terminator.\<close>

lemma unterminated_logged:
  assumes "nlmsg_laws api" and "hdr_law api" and "32 \<le> length (cstr (argv_str env a))"
    and "n_kzalloc nenv 40 (evs ns) = Some b" and "4 \<le> length (skb_tail nenv)"
  shows "\<exists>ns'. netctrl_receive api nenv (app_frame NETCTRL_AUTH_IP (cmd_data env \<lparr>sc_type = 1, sc_word = a\<rparr>) p) ns = Some ns' \<and>
    nc_log (evs ns') = nc_log (evs ns) @
      [Log_ip (take 32 (cstr (argv_str env a)) @ cstr (take 4 (skb_tail nenv) @ behind nenv b))]"
proof -
  let ?d = "take 32 (cstr (argv_str env a))"
  let ?bs = "app_frame NETCTRL_AUTH_IP ?d p" and ?h = "frame_hdr NETCTRL_AUTH_IP ?d p"
  have d: "cmd_data env \<lparr>sc_type = 1, sc_word = a\<rparr> = ?d" "length ?d = 32" "length ?d < 2044"
    using assms(3) by (simp_all add: cmd_data_def strncpy_def)
  have z: "0 \<notin> set ?d" using cstr_no_NUL by (meson in_set_takeD)
  have u: "unat (nlmsg_len ?h) = 52" "length ?bs = 52"
    using frame_len [OF d(3), of NETCTRL_AUTH_IP p] length_app_frame d(2) by simp_all
  have "nc_data nenv ?bs ?h 0 = app_msg NETCTRL_AUTH_IP ?d @ take 4 (skb_tail nenv)"
    using nc_data_eq [of ?h 0 ?bs nenv] assms(5) u frame_payload [OF d(3)] by simp
  moreover have "nc_datalen ?h = 40" using nc_datalen_eq [of ?h] u by simp
  moreover have "nc_setting (app_msg NETCTRL_AUTH_IP ?d @ x) = [Log_ip (?d @ cstr x)]" for x
    using cstr_append [OF z] by (simp add: nc_setting_def app_msg_eq)
  ultimately have "netctrl_receive_msg nenv ?bs ?h 0 ns =
      (0, ns\<lparr>evs := evs ns @ [Kzalloc 40 (Some b), Log_ip (?d @ cstr (take 4 (skb_tail nenv) @ behind nenv b))]\<rparr>)"
    using netctrl_receive_msg_known [OF nc_known_frame [of NETCTRL_AUTH_IP], of nenv ?d p ns b ?bs 0] assms(4) by simp
  then have "evs (netctrl_receive_one nenv ?bs ?h 0 ns) =
      evs ns @ [Kzalloc 40 (Some b), Log_ip (?d @ cstr (take 4 (skb_tail nenv) @ behind nenv b))]"
    by (simp add: netctrl_receive_one_def)
  moreover have "netctrl_receive api nenv ?bs ns = Some (netctrl_receive_one nenv ?bs ?h 0 ns)"
    using nl_walk_msgs [OF assms(1), of "int (length ?bs)" "Suc (length ?bs)" ?bs "netctrl_receive_one nenv ?bs" 0 ns]
    unfolding netctrl_receive_def netctrl_receive_skb_def frame_msgs [OF assms(1,2) d(3)] by simp
  ultimately show ?thesis unfolding d(1) by simp
qed

end
