(* ===== verification/MonTab.thy ===== *)
theory MonTab
  imports KPrelude
begin

text \<open>
  The data of \<^verbatim>\<open>mon/mon.c\<close>: what the device tells the kernel about itself, the numbers of its private
  commands, their argument descriptions and their handlers; functions in tables are named by constructors. How the
  wireless core and \<^verbatim>\<open>iwpriv\<close> look a command up in these tables is their code and not modelled. The device
  record, shared with \<^verbatim>\<open>nic/nic.c\<close>, is the part of the kernel's \<^verbatim>\<open>struct net_device\<close> the modules
  write; its parameter is the driver's private data.
\<close>

section \<open>Kernel data\<close>

datatype iw_handler = Ioctl_setpara_mon | Ioctl_getpara_mon | Ioctl_char128_mon

record iw_priv_args =
  ip_cmd :: u32
  ip_set :: u16
  ip_get :: u16
  ip_name :: string

record iw_handler_def =
  hd_private :: "iw_handler list"
  hd_num_private :: nat
  hd_private_args :: "iw_priv_args list"
  hd_num_private_args :: nat

record net_device_ops =
  ndo_open :: "addr option"
  ndo_stop :: "addr option"
  ndo_do_ioctl :: "addr option"
  ndo_start_xmit :: "addr option"

datatype dev_destructor = Free_netdev

datatype irqreturn = IRQ_NONE | IRQ_HANDLED

text \<open>The private data of the device; \<^verbatim>\<open>info\<close> has 128 bytes.\<close>

record dev_mon_private =
  pri_dev :: "addr option"
  pri_info :: "byte list"

record 'p net_device =
  nd_name :: "byte list"
  nd_addr :: "byte list"
  nd_mtu :: nat
  nd_hard_header_len :: nat
  nd_addr_len :: nat
  nd_tx_queue_len :: nat
  nd_flags :: u32
  nd_type :: u16
  nd_broadcast :: "byte list"
  nd_destructor :: "dev_destructor option"
  nd_ops :: "net_device_ops option"
  nd_wireless :: "iw_handler_def option"
  nd_priv :: 'p

section \<open>Constants\<close>

abbreviation SIOCIWFIRSTPRIV :: u32 where "SIOCIWFIRSTPRIV \<equiv> 0x8BE0"
abbreviation IW_PRIV_TYPE_CHAR :: u16 where "IW_PRIV_TYPE_CHAR \<equiv> 0x2000"
abbreviation IW_PRIV_TYPE_INT :: u16 where "IW_PRIV_TYPE_INT \<equiv> 0x4000"
abbreviation IW_PRIV_SIZE_FIXED :: u16 where "IW_PRIV_SIZE_FIXED \<equiv> 0x0800"
abbreviation IW_HEADER_TYPE_CHAR :: u16 where "IW_HEADER_TYPE_CHAR \<equiv> 2"

abbreviation IOCTL_MON_HELLO :: nat where "IOCTL_MON_HELLO \<equiv> 0x11"
abbreviation IOCTL_MON_SET_LOVER :: nat where "IOCTL_MON_SET_LOVER \<equiv> 0x12"
abbreviation IOCTL_MON_GET_LOVER :: nat where "IOCTL_MON_GET_LOVER \<equiv> 0x13"
abbreviation IOCTL_MON_SET_MAXSTA :: nat where "IOCTL_MON_SET_MAXSTA \<equiv> 0x14"
abbreviation IOCTL_MON_GET_MAXSTA :: nat where "IOCTL_MON_GET_MAXSTA \<equiv> 0x15"
abbreviation IOCTL_CHAR128 :: nat where "IOCTL_CHAR128 \<equiv> 128"

abbreviation IOCTL_SETPARA_MON :: u32 where "IOCTL_SETPARA_MON \<equiv> SIOCIWFIRSTPRIV + 0"
abbreviation IOCTL_GETPARA_MON :: u32 where "IOCTL_GETPARA_MON \<equiv> SIOCIWFIRSTPRIV + 1"
abbreviation IOCTL_CHAR128_MON :: u32 where "IOCTL_CHAR128_MON \<equiv> SIOCIWFIRSTPRIV + 2"

text \<open>The sub-commands as the enumeration lists them, and the commands they run through.\<close>

definition mon_ioctls :: "nat list" where
  "mon_ioctls = [IOCTL_MON_HELLO, IOCTL_MON_SET_LOVER, IOCTL_MON_GET_LOVER, IOCTL_MON_SET_MAXSTA, IOCTL_MON_GET_MAXSTA]"

definition mon_private_cmds :: "u32 list" where
  "mon_private_cmds = [IOCTL_SETPARA_MON, IOCTL_GETPARA_MON, IOCTL_CHAR128_MON]"

section \<open>The tables\<close>

definition iw_handlers_mon :: "iw_handler list" where
  "iw_handlers_mon = [Ioctl_setpara_mon, Ioctl_getpara_mon, Ioctl_char128_mon]"

abbreviation priv_entry :: "u32 \<Rightarrow> u16 \<Rightarrow> u16 \<Rightarrow> string \<Rightarrow> iw_priv_args" where
  "priv_entry c st gt nm \<equiv> \<lparr>ip_cmd = c, ip_set = st, ip_get = gt, ip_name = nm\<rparr>"

definition priv_args_mon :: "iw_priv_args list" where
  "priv_args_mon =
     [priv_entry IOCTL_SETPARA_MON (IW_PRIV_TYPE_INT OR IW_PRIV_SIZE_FIXED OR 1) 0 '''',
      priv_entry IOCTL_GETPARA_MON 0 (IW_PRIV_TYPE_INT OR IW_PRIV_SIZE_FIXED OR 1) '''',
      priv_entry IOCTL_CHAR128_MON (IW_PRIV_TYPE_CHAR OR 128) (IW_HEADER_TYPE_CHAR OR 128) '''',
      priv_entry (of_nat IOCTL_MON_HELLO) (IW_PRIV_TYPE_CHAR OR 128) (IW_HEADER_TYPE_CHAR OR 128) ''hello'',
      priv_entry (of_nat IOCTL_MON_SET_LOVER) (IW_PRIV_TYPE_CHAR OR 128) (IW_HEADER_TYPE_CHAR OR 128) ''setlover'',
      priv_entry (of_nat IOCTL_MON_GET_LOVER) (IW_PRIV_TYPE_CHAR OR 128) (IW_HEADER_TYPE_CHAR OR 128) ''getlover'',
      priv_entry (of_nat IOCTL_MON_SET_MAXSTA) (IW_PRIV_TYPE_INT OR IW_PRIV_SIZE_FIXED OR 1) 0 ''setmaxsta'',
      priv_entry (of_nat IOCTL_MON_GET_MAXSTA) 0 (IW_PRIV_TYPE_INT OR IW_PRIV_SIZE_FIXED OR 1) ''getmaxsta'']"

definition iw_handler_def_mon :: iw_handler_def where
  "iw_handler_def_mon =
     \<lparr>hd_private = iw_handlers_mon, hd_num_private = length iw_handlers_mon,
      hd_private_args = priv_args_mon, hd_num_private_args = length priv_args_mon\<rparr>"

definition ioctl_handlers_mon :: "iw_handler option list" where
  "ioctl_handlers_mon = [None]"

definition mon_ops :: net_device_ops where
  "mon_ops = \<lparr>ndo_open = None, ndo_stop = None, ndo_do_ioctl = None, ndo_start_xmit = None\<rparr>"

text \<open>The table of arguments has one entry for each of them, in this order, and the table of handlers one for each command.\<close>

lemma priv_args_mon_complete:
  "map ip_cmd priv_args_mon = mon_private_cmds @ map of_nat mon_ioctls \<and> distinct (map ip_cmd priv_args_mon) \<and>
   length iw_handlers_mon = length mon_private_cmds"
  by (simp add: priv_args_mon_def mon_private_cmds_def mon_ioctls_def iw_handlers_mon_def)

text \<open>The tables are laid out as the kernel's header wants them: the counts are the lengths, no number is used twice,
  and names fit the 16 bytes they have.\<close>

lemma mon_tables_sound:
  "hd_num_private_args iw_handler_def_mon = length (hd_private_args iw_handler_def_mon) \<and>
   hd_num_private iw_handler_def_mon = length (hd_private iw_handler_def_mon) \<and>
   distinct (map ip_cmd priv_args_mon) \<and> (\<forall>p\<in>set priv_args_mon. length (ip_name p) < 16)"
  by (simp add: priv_args_mon_def iw_handler_def_mon_def)

end
