(* ===== verification/Mon.thy ===== *)
theory Mon
  imports MonTab
begin

text \<open>
  \<^verbatim>\<open>mon/mon.c\<close>: a virtual network device with private wireless ioctls that set and read a number
  (\<^verbatim>\<open>g_maxsta\<close>) and a name (\<^verbatim>\<open>g_lover\<close>), and the creation and removal of the device.

  The wireless core hands an ioctl either a block of integers (\<open>extra\<close>) or an \<open>iw_point\<close>, the user
  buffer with its length and the sub-command in its flags. Copies from and to user memory are calls
  of the environment, \<open>m_from_user\<close> answers with the bytes that arrive. Log output is left out, but for
  the greeting, which is all its handler does.
\<close>

datatype mon_ev =
    M_kzalloc nat "addr option"
  | M_kfree addr
  | Copy_from_user addr "byte list"
  | Copy_to_user addr "byte list" nat
  | Log_hello addr
  | Log_interrupt int
  | Dev_get_by_name "addr option"
  | Dev_put addr
  | Alloc_etherdev "addr option"
  | Register_netdev addr int
  | Request_irq nat addr int
  | Unregister_netdev addr
  | Free_irq nat addr

type_synonym mon_device = "dev_mon_private net_device"

record mon_env =
  m_kzalloc :: "nat \<Rightarrow> mon_ev list \<Rightarrow> addr option"
  m_from_user :: "addr \<Rightarrow> nat \<Rightarrow> mon_ev list \<Rightarrow> byte list"
  m_to_user :: "addr \<Rightarrow> byte list \<Rightarrow> mon_ev list \<Rightarrow> nat"
  m_dev_get :: "mon_ev list \<Rightarrow> addr option"
  m_alloc_etherdev :: "mon_ev list \<Rightarrow> addr option"
  m_new_dev :: mon_device
  m_ether_setup :: "mon_device \<Rightarrow> mon_device"
  m_register :: "mon_device \<Rightarrow> mon_ev list \<Rightarrow> int"
  m_request_irq :: "addr \<Rightarrow> mon_ev list \<Rightarrow> int"

record mon_st = "mon_ev kst" +
  g_maxsta :: u32
  g_lover :: "byte list"
  dev_mon :: "addr option"
  devs :: "addr \<rightharpoonup> mon_device"

record iw_point =
  iw_pointer :: addr
  iw_length :: u16
  iw_flags :: u16

section \<open>Integer ioctls\<close>

definition ioctl_setpara_mon :: "byte list \<Rightarrow> mon_st \<Rightarrow> int \<times> mon_st" where
  "ioctl_setpara_mon extra s =
     (let param = rd32 extra; v = rd32 (drop 4 extra)
      in if param = of_nat IOCTL_MON_SET_MAXSTA then (0, s\<lparr>g_maxsta := v\<rparr>) else (- EOPNOTSUPP, s))"

text \<open>Returns the block as well, since the answer is stored in it.\<close>

definition ioctl_getpara_mon :: "byte list \<Rightarrow> mon_st \<Rightarrow> int \<times> byte list" where
  "ioctl_getpara_mon extra s =
     (if rd32 extra = of_nat IOCTL_MON_GET_MAXSTA then (0, memcpy_at 0 extra (le32 (g_maxsta s)))
      else (- EOPNOTSUPP, extra))"

section \<open>Character ioctls\<close>

definition mon_hello_handler :: "addr \<Rightarrow> mon_st \<Rightarrow> mon_st" where
  "mon_hello_handler msg s = kdo (Log_hello msg) s"

definition set_lover :: "byte list \<Rightarrow> mon_st \<Rightarrow> mon_st" where
  "set_lover buf s = s\<lparr>g_lover := take 32 buf\<rparr>"

definition get_lover :: "byte list \<Rightarrow> mon_st \<Rightarrow> byte list" where
  "get_lover buf s = (memcpy_at 0 buf (g_lover s))[IOCTL_CHAR128 - 1 := 0]"

definition ioctl_char128_mon :: "mon_env \<Rightarrow> iw_point \<Rightarrow> mon_st \<Rightarrow> fault + int \<times> iw_point \<times> mon_st" where
  "ioctl_char128_mon env u s =
     (let (p, s1) = kcall (m_kzalloc env IOCTL_CHAR128) (M_kzalloc IOCTL_CHAR128) s;
          u1 = (if IOCTL_CHAR128 < unat (iw_length u) then u\<lparr>iw_length := of_nat IOCTL_CHAR128\<rparr> else u)
      in case p of
           None \<Rightarrow> Inl NullDeref
         | Some a \<Rightarrow>
             (let (src, s2) = kcall (m_from_user env (iw_pointer u1) (unat (iw_length u1)))
                                    (Copy_from_user (iw_pointer u1)) s1;
                  buf = (memcpy_at 0 (replicate IOCTL_CHAR128 0) src)[IOCTL_CHAR128 - 1 := 0];
                  (ret, u2, s3) =
                    (if unat (iw_flags u1) = IOCTL_MON_HELLO
                     then (0, u1, mon_hello_handler (iw_pointer u1) s2)
                     else if unat (iw_flags u1) = IOCTL_MON_SET_LOVER then (0, u1, set_lover buf s2)
                     else if unat (iw_flags u1) = IOCTL_MON_GET_LOVER
                     then let name = get_lover buf s2;
                              n = strlen name + 1;
                              (left, s3) = kcall (m_to_user env (iw_pointer u1) (take n name))
                                                 (Copy_to_user (iw_pointer u1) (take n name)) s2
                          in (if left \<noteq> 0 then - EFAULT else 0, u1\<lparr>iw_length := of_nat n\<rparr>, s3)
                     else (0, u1, s2))
              in Inr (ret, u2, kdo (M_kfree a) s3)))"

section \<open>The device\<close>

abbreviation mon_irq :: nat where "mon_irq \<equiv> 16"
abbreviation IFF_BROADCAST :: u32 where "IFF_BROADCAST \<equiv> 2"
abbreviation IFF_MULTICAST :: u32 where "IFF_MULTICAST \<equiv> 0x1000"
abbreviation ARPHRD_IEEE80211_PRISM :: u16 where "ARPHRD_IEEE80211_PRISM \<equiv> 802"

text \<open>The fields \<^verbatim>\<open>create_dev_mon\<close> sets, before and after \<^verbatim>\<open>ether_setup\<close>. The name is "mon".\<close>

definition mon_setup :: "mon_env \<Rightarrow> addr \<Rightarrow> mon_device \<Rightarrow> mon_device" where
  "mon_setup env dev d =
     (m_ether_setup env (d\<lparr>nd_priv := (nd_priv d)\<lparr>pri_dev := Some dev\<rparr>, nd_name := strncpy 16 [109, 111, 110], nd_addr := [0, 1, 2, 3, 4, 5] @ drop 6 (nd_addr d)\<rparr>))
     \<lparr>nd_destructor := Some Free_netdev, nd_ops := Some mon_ops, nd_mtu := 16 * 1024 + 20 + 20 + 12, nd_hard_header_len := 14, nd_addr_len := 6, nd_tx_queue_len := 0,
      nd_flags := IFF_BROADCAST OR IFF_MULTICAST, nd_type := ARPHRD_IEEE80211_PRISM,
      nd_wireless := Some iw_handler_def_mon\<rparr>"

definition irq_handler :: "int \<Rightarrow> addr \<Rightarrow> mon_st \<Rightarrow> irqreturn \<times> mon_st" where
  "irq_handler data dev_id s = (IRQ_NONE, kdo (Log_interrupt data) s)"

definition create_dev_mon :: "mon_env \<Rightarrow> mon_st \<Rightarrow> int \<times> mon_st" where
  "create_dev_mon env s =
     (let (d, s1) = kcall (m_dev_get env) Dev_get_by_name s
      in case d of
           Some dev \<Rightarrow> (0, kdo (Dev_put dev) s1)
         | None \<Rightarrow>
             (let (d, s2) = kcall (m_alloc_etherdev env) Alloc_etherdev s1
              in case d of
                   None \<Rightarrow> (0, s2)
                 | Some dev \<Rightarrow>
                     (let nd = mon_setup env dev (m_new_dev env);
                          nd = nd\<lparr>nd_broadcast := memcpy_at 0 (nd_broadcast nd) (replicate 6 0xFF)\<rparr>;
                          s3 = s2\<lparr>devs := (devs s2)(dev \<mapsto> nd)\<rparr>;
                          (rc, s4) = kcall (m_register env nd) (Register_netdev dev) s3;
                          s5 = s4\<lparr>dev_mon := Some dev\<rparr>;
                          (ret, s6) = kcall (m_request_irq env dev) (Request_irq mon_irq dev) s5
                      in (0, s6))))"

definition delete_dev_mon :: "mon_st \<Rightarrow> mon_st" where
  "delete_dev_mon s =
     (case dev_mon s of
        None \<Rightarrow> s
      | Some dev \<Rightarrow> (kdo (Free_irq mon_irq dev) (kdo (Unregister_netdev dev) s))\<lparr>dev_mon := None\<rparr>)"

section \<open>Integer ioctls: round trip\<close>

definition mon_boot :: mon_st where
  "mon_boot = \<lparr>evs = [], g_maxsta = 1, g_lover = replicate 32 0, dev_mon = None, devs = (\<lambda>_. None)\<rparr>"

lemma rd32_memcpy: "4 \<le> length bs \<Longrightarrow> rd32 (memcpy_at 0 bs (le32 w)) = w"
  by (simp add: memcpy_at_0)

text \<open>
  The number set with \<open>setmaxsta\<close> is the number \<open>getmaxsta\<close> returns, whatever the block of the second
  call holds behind the sub-command; other sub-commands of either call are refused with
  \<^verbatim>\<open>-EOPNOTSUPP\<close> and change nothing.
\<close>

lemma maxsta_roundtrip:
  assumes "rd32 x = 0x14" and "rd32 (drop 4 x) = v" and "rd32 y = 0x15" and "4 \<le> length y"
    and "rd32 z \<noteq> 0x14" and "rd32 w \<noteq> 0x15"
  shows "fst (ioctl_setpara_mon x s) = 0 \<and>
    fst (ioctl_getpara_mon y (snd (ioctl_setpara_mon x s))) = 0 \<and>
    rd32 (snd (ioctl_getpara_mon y (snd (ioctl_setpara_mon x s)))) = v \<and>
    drop 4 (snd (ioctl_getpara_mon y (snd (ioctl_setpara_mon x s)))) = drop 4 y \<and>
    ioctl_setpara_mon z s = (- EOPNOTSUPP, s) \<and> ioctl_getpara_mon w s = (- EOPNOTSUPP, w)"
  using assms
  by (simp add: ioctl_setpara_mon_def ioctl_getpara_mon_def Let_def rd32_memcpy memcpy_at_above)

lemma maxsta_roundtrip_witness:
  "rd32 (snd (ioctl_getpara_mon (le32 0x15) (snd (ioctl_setpara_mon (le32 0x14 @ le32 123) mon_boot)))) = 123"
  using maxsta_roundtrip [of "le32 0x14 @ le32 123" 123 "le32 0x15" "le32 0" "le32 0" mon_boot]
    rd32_le32 [of _ "[]"] by simp

section \<open>Character ioctls\<close>

text \<open>Copying from user memory brings as many bytes as were asked for.\<close>

definition from_user_law :: "mon_env \<Rightarrow> bool" where
  "from_user_law env \<longleftrightarrow> (\<forall>p n tr. length (m_from_user env p n tr) = n)"

fun mon_heap_ev :: "mon_ev \<Rightarrow> addr list \<Rightarrow> addr list" where
  "mon_heap_ev (M_kzalloc n (Some a)) l = l @ [a]"
| "mon_heap_ev (M_kfree a) l = removeAll a l"
| "mon_heap_ev _ l = l"

definition mon_heap :: "mon_ev list \<Rightarrow> addr list" where
  "mon_heap tr = fold mon_heap_ev tr []"

lemma mon_heap_append [simp]: "mon_heap (tr @ es) = fold mon_heap_ev es (mon_heap tr)"
  by (simp add: mon_heap_def)

fun mon_reply_ev :: "mon_ev \<Rightarrow> (addr \<times> byte list) list" where
  "mon_reply_ev (Copy_to_user p bs r) = [(p, bs)]"
| "mon_reply_ev _ = []"

definition mon_replies :: "mon_ev list \<Rightarrow> (addr \<times> byte list) list" where
  "mon_replies tr = concat (map mon_reply_ev tr)"

lemma mon_replies_append [simp]: "mon_replies (tr @ es) = mon_replies tr @ concat (map mon_reply_ev es)"
  by (simp add: mon_replies_def)

definition mon_inv :: "mon_st \<Rightarrow> bool" where
  "mon_inv s \<longleftrightarrow> length (g_lover s) = 32"

text \<open>The kernel copy of the user's bytes: at most 128 of them, the last byte of the buffer zero.\<close>

definition mon_buf :: "byte list \<Rightarrow> byte list" where
  "mon_buf src = (memcpy_at 0 (replicate IOCTL_CHAR128 0) src)[IOCTL_CHAR128 - 1 := 0]"

lemma length_mon_buf [simp]: "length src \<le> 128 \<Longrightarrow> length (mon_buf src) = 128"
  by (simp add: mon_buf_def)

definition clamp :: "u16 \<Rightarrow> nat" where
  "clamp n = min (unat n) IOCTL_CHAR128"

lemma length_get_lover: "length buf = 128 \<Longrightarrow> mon_inv s \<Longrightarrow> length (get_lover buf s) = 128"
  by (simp add: get_lover_def mon_inv_def)

lemma get_lover_terminated: "length buf = 128 \<Longrightarrow> mon_inv s \<Longrightarrow> 0 \<in> set (get_lover buf s)"
  by (metis get_lover_def length_get_lover length_list_update numeral_eq_Suc lessI set_update_memI
      diff_Suc_1 zero_less_numeral)

lemma cstr_mon_buf: "length (cstr src) < 128 \<Longrightarrow> length src \<le> 128 \<Longrightarrow> cstr (mon_buf src) = cstr src"
  using cstr_update [of "src @ replicate (128 - length src) 0" 127]
  by (simp add: mon_buf_def memcpy_at_0 cstr_pad)

lemma mon_buf_last: "length src \<le> 128 \<Longrightarrow> mon_buf src ! 127 = 0"
  by (simp add: mon_buf_def)

text \<open>The answer of \<open>getlover\<close>: the stored name, and if that fills its 32 bytes, the bytes the caller
  sent from offset 32 on.\<close>

lemma get_lover_eq:
  assumes "length src \<le> 128" and "mon_inv s"
  shows "get_lover (mon_buf src) s = g_lover s @ drop 32 (mon_buf src)"
proof -
  have "(g_lover s @ drop 32 (mon_buf src)) ! 127 = 0"
    using assms mon_buf_last by (simp add: nth_append mon_inv_def)
  then show ?thesis
    using assms(2) by (simp add: get_lover_def memcpy_at_0 mon_inv_def list_update_same_conv assms(1))
qed

interpretation lover: stored_value "\<lambda>src. set_lover (mon_buf src)" "\<lambda>s. cstr (get_lover (mon_buf junk) s)" cstr
  "\<lambda>s. mon_inv s \<and> length junk \<le> 128" "\<lambda>src. length src \<le> 128 \<and> length (cstr src) < 32" for junk
proof
  fix s :: mon_st and src :: "byte list"
  assume s: "mon_inv s \<and> length junk \<le> 128" and v: "length src \<le> 128 \<and> length (cstr src) < 32"
  then show inv: "mon_inv (set_lover (mon_buf src) s) \<and> length junk \<le> 128"
    by (simp add: mon_inv_def set_lover_def)
  have c: "cstr (take 32 (mon_buf src)) = cstr src"
    using v cstr_mon_buf [of src] by (simp add: cstr_take)
  then have "0 \<in> set (take 32 (mon_buf src))"
    using v cstr_id [of "take 32 (mon_buf src)"] by (metis length_mon_buf length_take less_irrefl min.absorb4 numeral_less_iff
        min.absorb2 numeral_le_iff semiring_norm(71) semiring_norm(68) order_less_imp_le)
  then show "cstr (get_lover (mon_buf junk) (set_lover (mon_buf src) s)) = cstr src"
    using c inv s by (simp add: get_lover_eq set_lover_def cstr_append_terminated)
qed

text \<open>The bytes one call copies in, the state after that, and the outcome of the call.\<close>

definition mon_src :: "mon_env \<Rightarrow> iw_point \<Rightarrow> mon_st \<Rightarrow> addr \<Rightarrow> byte list" where
  "mon_src env u s a = m_from_user env (iw_pointer u) (clamp (iw_length u)) (evs s @ [M_kzalloc 128 (Some a)])"

definition mon_copied :: "mon_env \<Rightarrow> iw_point \<Rightarrow> mon_st \<Rightarrow> addr \<Rightarrow> mon_st" where
  "mon_copied env u s a = s\<lparr>evs := evs s @ [M_kzalloc 128 (Some a), Copy_from_user (iw_pointer u) (mon_src env u s a)]\<rparr>"

lemma mon_copied_simps [simp]:
  "g_lover (mon_copied env u s a) = g_lover s" "g_maxsta (mon_copied env u s a) = g_maxsta s"
  "mon_heap (evs (mon_copied env u s a)) = mon_heap (evs s) @ [a]"
  "mon_replies (evs (mon_copied env u s a)) = mon_replies (evs s)"
  by (simp_all add: mon_copied_def)

lemma mon_src_bound: "from_user_law env \<Longrightarrow> length (mon_src env u s a) \<le> 128"
  by (simp add: mon_src_def from_user_law_def clamp_def)

lemma clamped_point:
  "(if IOCTL_CHAR128 < unat (iw_length u) then u\<lparr>iw_length := of_nat IOCTL_CHAR128\<rparr> else u) =
     u\<lparr>iw_length := of_nat (clamp (iw_length u))\<rparr>"
  "unat (of_nat (clamp (iw_length u)) :: u16) = clamp (iw_length u)"
  by (simp_all add: clamp_def min_def unat_of_nat take_bit_nat_eq_self)

lemma ioctl_char128_set:
  assumes "m_kzalloc env IOCTL_CHAR128 (evs s) = Some a" and "iw_flags u = 0x12"
  shows "ioctl_char128_mon env u s = Inr (0, u\<lparr>iw_length := of_nat (clamp (iw_length u))\<rparr>,
    kdo (M_kfree a) (set_lover (mon_buf (mon_src env u s a)) (mon_copied env u s a)))"
  unfolding ioctl_char128_mon_def clamped_point(1)
  using assms by (simp add: clamped_point(2) kdefs mon_src_def mon_copied_def mon_buf_def)

lemma ioctl_char128_get:
  fixes u s env a
  defines "name \<equiv> get_lover (mon_buf (mon_src env u s a)) s"
  defines "left \<equiv> m_to_user env (iw_pointer u) (take (strlen name + 1) name) (evs (mon_copied env u s a))"
  assumes "m_kzalloc env IOCTL_CHAR128 (evs s) = Some a" and "iw_flags u = 0x13"
  shows "ioctl_char128_mon env u s =
    Inr (if left \<noteq> 0 then - EFAULT else 0, u\<lparr>iw_length := of_nat (strlen name + 1)\<rparr>,
      kdo (M_kfree a) (kdo (Copy_to_user (iw_pointer u) (take (strlen name + 1) name) left) (mon_copied env u s a)))"
  unfolding ioctl_char128_mon_def clamped_point(1) name_def left_def
  using assms(3,4) by (simp add: clamped_point(2) kdefs mon_src_def mon_copied_def mon_buf_def get_lover_def)

lemma ioctl_char128_other:
  assumes "m_kzalloc env IOCTL_CHAR128 (evs s) = Some a" and "iw_flags u \<notin> {0x12, 0x13}"
  shows "ioctl_char128_mon env u s = Inr (0, u\<lparr>iw_length := of_nat (clamp (iw_length u))\<rparr>,
    kdo (M_kfree a) (if iw_flags u = 0x11 then mon_hello_handler (iw_pointer u) (mon_copied env u s a)
                     else mon_copied env u s a))"
proof -
  have "unat (iw_flags u) \<noteq> 0x12" "unat (iw_flags u) \<noteq> 0x13" "unat (iw_flags u) = 0x11 \<longleftrightarrow> iw_flags u = 0x11"
    using assms(2) by (auto simp: unat_arith_simps)
  then show ?thesis
    unfolding ioctl_char128_mon_def clamped_point(1)
    using assms(1) by (simp add: clamped_point(2) kdefs mon_src_def mon_copied_def mon_buf_def)
qed

section \<open>Properties of the character ioctls\<close>

text \<open>
  C21. After \<open>setlover\<close> with a name of less than 32 characters, \<open>getlover\<close> hands exactly that name and its
  terminator back to the caller's buffer and reports its length, whatever the caller's buffer held
  and however many other names were set before.
\<close>

theorem lover_roundtrip:
  assumes "from_user_law env" and "\<forall>n tr. m_kzalloc env n tr \<noteq> None" and "mon_inv s"
    and "iw_flags u = 0x12" and "iw_flags v = 0x13"
    and "\<forall>tr. cstr (m_from_user env (iw_pointer u) (clamp (iw_length u)) tr) = name" and "length name < 32"
  shows "\<exists>u' s1 r v' t. ioctl_char128_mon env u s = Inr (0, u', s1) \<and> ioctl_char128_mon env v s1 = Inr (r, v', t) \<and>
    mon_replies (evs t) = mon_replies (evs s) @ [(iw_pointer v, name @ [0])] \<and>
    unat (iw_length v') = length name + 1 \<and> mon_inv t"
proof -
  obtain a where a: "m_kzalloc env IOCTL_CHAR128 (evs s) = Some a" using assms(2) by blast
  let ?src = "mon_src env u s a"
  let ?s1 = "kdo (M_kfree a) (set_lover (mon_buf ?src) (mon_copied env u s a))"
  have src: "length ?src \<le> 128 \<and> length (cstr ?src) < 32" "cstr ?src = name"
    using mon_src_bound [OF assms(1)] assms(6,7) by (simp_all add: mon_src_def)
  obtain b where b: "m_kzalloc env IOCTL_CHAR128 (evs ?s1) = Some b" using assms(2) by blast
  let ?name = "get_lover (mon_buf (mon_src env v ?s1 b)) ?s1"
  have s1: "g_lover ?s1 = g_lover (set_lover (mon_buf ?src) s)" "mon_replies (evs ?s1) = mon_replies (evs s)" "mon_inv ?s1"
    using src(1) by (simp_all add: set_lover_def mon_inv_def kdefs mon_copied_def)
  have jb: "length (mon_src env v ?s1 b) \<le> 128" using mon_src_bound [OF assms(1)] .
  have "cstr ?name = cstr (get_lover (mon_buf (mon_src env v ?s1 b)) (set_lover (mon_buf ?src) s))"
    unfolding get_lover_def s1(1) ..
  also have "\<dots> = name"
    using lover.get_put [of s "mon_src env v ?s1 b" ?src] assms(3) jb src by simp
  finally have n: "cstr ?name = name" .
  have z: "0 \<in> set ?name"
    using get_lover_terminated [OF length_mon_buf [OF jb] s1(3)] .
  have "unat (of_nat (length name + 1) :: u16) = length name + 1"
    using assms(7) by (simp add: unat_of_nat take_bit_nat_eq_self del: of_nat_add of_nat_Suc)
  then show ?thesis
    using ioctl_char128_set [OF a assms(4)] ioctl_char128_get [OF b assms(5)] s1 n take_Suc_strlen [OF z]
    by (simp add: strlen_def mon_inv_def kdefs mon_copied_def del: of_nat_add of_nat_Suc)
qed

text \<open>An environment with memory, where reading user memory at 10 gives "wbl" and elsewhere twos.\<close>

definition demo_mon :: mon_env where
  "demo_mon =
     \<lparr>m_kzalloc = (\<lambda>_ tr. Some (100 + length tr)),
      m_from_user = (\<lambda>p n tr. take n ((if p = 10 then [119, 98, 108, 0] else []) @ replicate n 2)),
      m_to_user = (\<lambda>_ _ _. 0), m_dev_get = (\<lambda>_. None), m_alloc_etherdev = (\<lambda>_. Some 7),
      m_new_dev = \<lparr>nd_name = replicate 16 0, nd_addr = replicate 32 0, nd_mtu = 0, nd_hard_header_len = 0, nd_addr_len = 0,
        nd_tx_queue_len = 0, nd_flags = 0, nd_type = 0, nd_broadcast = replicate 32 0,
        nd_destructor = None, nd_ops = None, nd_wireless = None, nd_priv = \<lparr>pri_dev = None, pri_info = replicate 128 0\<rparr>\<rparr>,
      m_ether_setup = (\<lambda>d. d), m_register = (\<lambda>_ _. 0), m_request_irq = (\<lambda>_ _. 0)\<rparr>"

lemma demo_mon_from_user: "from_user_law demo_mon"
  by (auto simp: from_user_law_def demo_mon_def min_def)

lemma demo_mon_memory: "\<forall>n tr. m_kzalloc demo_mon n tr \<noteq> None"
  by (simp add: demo_mon_def)

lemma mon_boot_inv: "mon_inv mon_boot"
  by (simp add: mon_inv_def mon_boot_def)

theorem lover_roundtrip_witness:
  "\<exists>u' s1 r v' t. ioctl_char128_mon demo_mon \<lparr>iw_pointer = 10, iw_length = 4, iw_flags = 0x12\<rparr> mon_boot = Inr (0, u', s1) \<and>
    ioctl_char128_mon demo_mon \<lparr>iw_pointer = 20, iw_length = 128, iw_flags = 0x13\<rparr> s1 = Inr (r, v', t) \<and>
    mon_replies (evs t) = [(20, [119, 98, 108, 0])]"
proof -
  have "\<forall>tr. cstr (m_from_user demo_mon (iw_pointer \<lparr>iw_pointer = 10, iw_length = 4, iw_flags = 0x12\<rparr>)
      (clamp (iw_length \<lparr>iw_pointer = 10, iw_length = 4, iw_flags = 0x12\<rparr>)) tr) = [119, 98, 108]"
    by (simp add: demo_mon_def clamp_def cstr_def)
  from lover_roundtrip [OF demo_mon_from_user demo_mon_memory mon_boot_inv, of "\<lparr>iw_pointer = 10, iw_length = 4, iw_flags = 0x12\<rparr>"
      "\<lparr>iw_pointer = 20, iw_length = 128, iw_flags = 0x13\<rparr>", OF _ _ this]
  show ?thesis by (force simp: mon_boot_def mon_replies_def)
qed

text \<open>
  \<open>getlover\<close> in any state sends at most 128 bytes to the caller: the stored name up to its first zero,
  or, if the name fills its 32 bytes, the 32 bytes followed by what the caller itself sent from offset
  32 on, up to a zero; then one terminator. The length reported is the number of bytes sent, and the
  result is \<^verbatim>\<open>-EFAULT\<close> exactly when the copy to the user failed.
\<close>

lemma getlover_reply:
  assumes "from_user_law env" and "mon_inv s" and "iw_flags u = 0x13"
    and "m_kzalloc env IOCTL_CHAR128 (evs s) = Some a"
  shows "\<exists>r u' t left. ioctl_char128_mon env u s = Inr (r, u', t) \<and>
    (let reply = cstr (g_lover s @ drop 32 (mon_buf (mon_src env u s a))) @ [0]
     in evs t = evs (mon_copied env u s a) @ [Copy_to_user (iw_pointer u) reply left, M_kfree a] \<and>
        length reply \<le> IOCTL_CHAR128 \<and> unat (iw_length u') = length reply \<and>
        (0 \<in> set (g_lover s) \<longrightarrow> reply = cstr (g_lover s) @ [0])) \<and>
    r = (if left = 0 then 0 else - EFAULT)"
proof -
  let ?src = "mon_src env u s a"
  let ?name = "get_lover (mon_buf ?src) s"
  have b: "length ?src \<le> 128" by (rule mon_src_bound [OF assms(1)])
  have e: "?name = g_lover s @ drop 32 (mon_buf ?src)" by (rule get_lover_eq [OF b assms(2)])
  have z: "0 \<in> set ?name" by (rule get_lover_terminated [OF length_mon_buf [OF b] assms(2)])
  have "length ?name = 128" by (rule length_get_lover [OF length_mon_buf [OF b] assms(2)])
  then have l: "strlen ?name + 1 \<le> 128" using strlen_bound [OF z] by simp
  have "unat (of_nat (strlen ?name + 1) :: u16) = strlen ?name + 1"
    using l by (simp add: unat_of_nat take_bit_nat_eq_self del: of_nat_add of_nat_Suc)
  moreover have "0 \<in> set (g_lover s) \<Longrightarrow> cstr ?name = cstr (g_lover s)"
    unfolding e by (rule cstr_append_terminated)
  ultimately show ?thesis
    using ioctl_char128_get [OF assms(4,3)] l take_Suc_strlen [OF z]
    unfolding e [symmetric] by (simp add: strlen_def Let_def del: of_nat_add of_nat_Suc)
qed

lemma getlover_reply_witness:
  "\<exists>r u' t left. ioctl_char128_mon demo_mon \<lparr>iw_pointer = 20, iw_length = 40, iw_flags = 0x13\<rparr> (mon_boot\<lparr>g_lover := replicate 32 1\<rparr>)
      = Inr (r, u', t) \<and>
    Copy_to_user 20 (replicate 32 1 @ replicate 8 2 @ [0]) left \<in> set (evs t)"
proof -
  let ?u = "\<lparr>iw_pointer = 20, iw_length = 40, iw_flags = 0x13\<rparr>" and ?s = "mon_boot\<lparr>g_lover := replicate 32 1\<rparr>"
  have "mon_inv ?s" by (simp add: mon_inv_def)
  moreover have "m_kzalloc demo_mon IOCTL_CHAR128 (evs ?s) = Some 100" by (simp add: demo_mon_def mon_boot_def)
  moreover have "cstr (g_lover ?s @ drop 32 (mon_buf (mon_src demo_mon ?u ?s 100))) = replicate 32 1 @ replicate 8 2"
    by code_simp
  ultimately show ?thesis
    using getlover_reply [OF demo_mon_from_user, of ?s ?u 100] by (fastforce simp: Let_def)
qed

text \<open>
  Every character ioctl frees the buffer it allocated and keeps the stored name at 32 bytes; it
  returns 0 for every sub-command it does not know; and with no memory it dereferences NULL.
\<close>

lemma ioctl_char128_safe:
  assumes "from_user_law env" and "mon_inv s"
  shows "(m_kzalloc env IOCTL_CHAR128 (evs s) = None \<longrightarrow> ioctl_char128_mon env u s = Inl NullDeref) \<and>
    (m_kzalloc env IOCTL_CHAR128 (evs s) \<noteq> None \<longrightarrow>
      (\<exists>r u' t. ioctl_char128_mon env u s = Inr (r, u', t) \<and> mon_inv t \<and>
         set (mon_heap (evs t)) \<subseteq> set (mon_heap (evs s)) \<and> unat (iw_length u') \<le> IOCTL_CHAR128 \<and>
         (iw_flags u \<notin> {0x11, 0x12, 0x13} \<longrightarrow> r = 0 \<and> g_lover t = g_lover s)))"
proof (cases "m_kzalloc env IOCTL_CHAR128 (evs s)")
  case None
  then show ?thesis by (simp add: ioctl_char128_mon_def kdefs)
next
  case (Some a)
  have b: "length (mon_buf (mon_src env u s a)) = 128" "clamp (iw_length u) \<le> 128"
    using mon_src_bound [OF assms(1)] by (simp_all add: clamp_def)
  consider (set_it) "iw_flags u = 0x12" | (get_it) "iw_flags u = 0x13" | (other) "iw_flags u \<notin> {0x12, 0x13}" by auto
  then show ?thesis
  proof cases
    case set_it
    then show ?thesis using ioctl_char128_set [OF Some] Some b assms(2)
      by (auto simp: mon_inv_def set_lover_def kdefs mon_copied_def clamped_point(2))
  next
    case get_it
    have "length (get_lover (mon_buf (mon_src env u s a)) s) = 128" by (rule length_get_lover [OF b(1) assms(2)])
    then have "strlen (get_lover (mon_buf (mon_src env u s a)) s) + 1 \<le> 128"
      using strlen_bound [OF get_lover_terminated [OF b(1) assms(2)]] by simp
    then show ?thesis using ioctl_char128_get [OF Some get_it] Some assms(2) get_it
      by (auto simp: mon_inv_def kdefs mon_copied_def unat_of_nat take_bit_nat_eq_self simp del: of_nat_add of_nat_Suc)
  next
    case other
    then show ?thesis using ioctl_char128_other [OF Some other] Some b assms(2)
      by (auto simp: mon_inv_def mon_hello_handler_def kdefs mon_copied_def clamped_point(2))
  qed
qed

lemma ioctl_char128_safe_witness:
  "\<exists>r u' t. ioctl_char128_mon demo_mon \<lparr>iw_pointer = 10, iw_length = 9999, iw_flags = 0x77\<rparr> mon_boot = Inr (r, u', t) \<and>
     r = 0 \<and> mon_heap (evs t) = [] \<and> unat (iw_length u') \<le> 128"
  using ioctl_char128_safe [OF demo_mon_from_user mon_boot_inv, of "\<lparr>iw_pointer = 10, iw_length = 9999, iw_flags = 0x77\<rparr>"]
  by (fastforce simp: demo_mon_def mon_boot_def mon_heap_def)

section \<open>The life of the device\<close>

text \<open>The devices registered and the interrupt handlers installed by a history, and the calls that take
  away what is not there.\<close>

record mon_dev =
  registered :: "addr list"
  irqs :: "addr list"
  misuse :: "addr list"

fun mon_dev_ev :: "mon_ev \<Rightarrow> mon_dev \<Rightarrow> mon_dev" where
  "mon_dev_ev (Register_netdev d r) m = (if r = 0 then m\<lparr>registered := d # registered m\<rparr> else m)"
| "mon_dev_ev (Request_irq n d r) m = (if r = 0 then m\<lparr>irqs := d # irqs m\<rparr> else m)"
| "mon_dev_ev (Unregister_netdev d) m =
     (if d \<in> set (registered m) then m\<lparr>registered := removeAll d (registered m)\<rparr> else m\<lparr>misuse := d # misuse m\<rparr>)"
| "mon_dev_ev (Free_irq n d) m =
     (if d \<in> set (irqs m) then m\<lparr>irqs := removeAll d (irqs m)\<rparr> else m\<lparr>misuse := d # misuse m\<rparr>)"
| "mon_dev_ev _ m = m"

definition mon_dev_of :: "mon_ev list \<Rightarrow> mon_dev" where
  "mon_dev_of tr = fold mon_dev_ev tr \<lparr>registered = [], irqs = [], misuse = []\<rparr>"

lemma create_dev_mon_new:
  assumes "m_dev_get env (evs s) = None" and "m_alloc_etherdev env (evs s @ [Dev_get_by_name None]) = Some d"
  shows "\<exists>nd rc ret t. create_dev_mon env s = (0, t) \<and> dev_mon t = Some d \<and> devs t d = Some nd \<and>
    evs t = evs s @ [Dev_get_by_name None, Alloc_etherdev (Some d), Register_netdev d rc, Request_irq 16 d ret] \<and>
    rc = m_register env nd (evs s @ [Dev_get_by_name None, Alloc_etherdev (Some d)]) \<and>
    ret = m_request_irq env d (evs s @ [Dev_get_by_name None, Alloc_etherdev (Some d), Register_netdev d rc]) \<and>
    nd_mtu nd = 16436 \<and> nd_flags nd = IFF_BROADCAST OR IFF_MULTICAST \<and> nd_type nd = ARPHRD_IEEE80211_PRISM \<and>
    take 6 (nd_broadcast nd) = replicate 6 0xFF \<and> nd_wireless nd = Some iw_handler_def_mon \<and>
    nd_ops nd = Some mon_ops \<and> nd_destructor nd = Some Free_netdev"
  using assms by (simp add: create_dev_mon_def kdefs mon_setup_def memcpy_at_0)

text \<open>
  Loading and unloading. If the name is free and registration and the interrupt request succeed,
  \<^verbatim>\<open>create_dev_mon\<close> registers one device of the wireless monitor type with one interrupt handler, and
  \<^verbatim>\<open>delete_dev_mon\<close> takes exactly these away again. If registration fails, \<^verbatim>\<open>create_dev_mon\<close> still
  returns 0, and \<^verbatim>\<open>delete_dev_mon\<close> unregisters a device that was never registered.
\<close>

lemma mon_device_lifecycle:
  assumes "evs s = []" and "m_dev_get env [] = None" and "m_alloc_etherdev env [Dev_get_by_name None] = Some d"
  shows "\<exists>t nd. create_dev_mon env s = (0, t) \<and> devs t d = Some nd \<and> nd_type nd = ARPHRD_IEEE80211_PRISM \<and>
    dev_mon (delete_dev_mon t) = None \<and>
    ((\<forall>nd tr. m_register env nd tr = 0) \<longrightarrow> (\<forall>tr. m_request_irq env d tr = 0) \<longrightarrow>
       mon_dev_of (evs t) = \<lparr>registered = [d], irqs = [d], misuse = []\<rparr> \<and>
       mon_dev_of (evs (delete_dev_mon t)) = \<lparr>registered = [], irqs = [], misuse = []\<rparr>) \<and>
    ((\<forall>nd tr. m_register env nd tr \<noteq> 0) \<longrightarrow> d \<in> set (misuse (mon_dev_of (evs (delete_dev_mon t)))))"
proof -
  obtain nd rc ret t where t: "create_dev_mon env s = (0, t)" "dev_mon t = Some d" "devs t d = Some nd"
    "evs t = [Dev_get_by_name None, Alloc_etherdev (Some d), Register_netdev d rc, Request_irq 16 d ret]"
    "rc = m_register env nd [Dev_get_by_name None, Alloc_etherdev (Some d)]"
    "ret = m_request_irq env d [Dev_get_by_name None, Alloc_etherdev (Some d), Register_netdev d rc]"
    "nd_type nd = ARPHRD_IEEE80211_PRISM"
    using create_dev_mon_new [of env s d] assms by auto
  have u: "evs (delete_dev_mon t) = evs t @ [Unregister_netdev d, Free_irq 16 d]" "dev_mon (delete_dev_mon t) = None"
    using t(2) by (simp_all add: delete_dev_mon_def kdefs)
  show ?thesis
    using t u by (intro exI [of _ t] exI [of _ nd]) (auto simp: mon_dev_of_def)
qed

lemma mon_device_lifecycle_witness:
  "\<exists>t. create_dev_mon demo_mon mon_boot = (0, t) \<and> mon_dev_of (evs t) = \<lparr>registered = [7], irqs = [7], misuse = []\<rparr> \<and>
     mon_dev_of (evs (delete_dev_mon t)) = \<lparr>registered = [], irqs = [], misuse = []\<rparr>"
  using mon_device_lifecycle [of mon_boot demo_mon 7] by (force simp: mon_boot_def demo_mon_def)

end
