(* ===== verification/Registry.thy ===== *)
theory Registry
  imports KPrelude
begin

text \<open>
  Registration with the kernel, as the small modules do it: a module adds things (probes, notifiers,
  directory entries, devices) and has to take away exactly what it added.

  \<open>reg_run\<close> and \<open>lifo_run\<close> replay a history of additions and removals and are undefined as soon as
  something is removed that is not there, or, for \<open>lifo_run\<close>, that was not added last.
  \<open>register_all\<close> is the loop \<^verbatim>\<open>for (i...) { ret = register(&t[i]); if (ret < 0) goto bad; }\<close> with its
  rollback \<^verbatim>\<open>for (j = 0; j < i; j++) unregister(&t[j])\<close>, which the probe modules share; the locale
  \<open>registrar\<close> says what it needs of the two calls.
\<close>

datatype 'k reg_op = Add 'k | Del 'k

fun reg_run :: "'k reg_op list \<Rightarrow> 'k list \<Rightarrow> 'k list option" where
  "reg_run [] l = Some l"
| "reg_run (Add k # os) l = reg_run os (k # l)"
| "reg_run (Del k # os) l = (if k \<in> set l then reg_run os (remove1 k l) else None)"

fun lifo_run :: "'k reg_op list \<Rightarrow> 'k list \<Rightarrow> 'k list option" where
  "lifo_run [] l = Some l"
| "lifo_run (Add k # os) l = lifo_run os (k # l)"
| "lifo_run (Del k # os) l = (case l of [] \<Rightarrow> None | x # xs \<Rightarrow> if x = k then lifo_run os xs else None)"

lemma reg_run_append: "reg_run (os @ ps) l = Option.bind (reg_run os l) (reg_run ps)"
  by (induction os l rule: reg_run.induct) auto

lemma lifo_run_append: "lifo_run (os @ ps) l = Option.bind (lifo_run os l) (lifo_run ps)"
  by (induction os l rule: lifo_run.induct) (auto split: list.splits)

text \<open>Taking away in the order of addition, or of the table, what the table holds.\<close>

lemma reg_run_dels:
  assumes "mset l = mset ks"
  shows "reg_run (map Del ks) l = Some []"
  using assms
proof (induction ks arbitrary: l)
  case Nil
  then show ?case by simp
next
  case (Cons k ks)
  then have "k \<in> set l" by (metis list.set_intros(1) set_mset_mset)
  moreover have "mset (remove1 k l) = mset ks" using Cons.prems by simp
  ultimately show ?case using Cons.IH by simp
qed

section \<open>A table of registrations, all or none\<close>

fun register_from :: "('k \<Rightarrow> 's \<Rightarrow> int \<times> 's) \<Rightarrow> 'k list \<Rightarrow> 'k list \<Rightarrow> 's \<Rightarrow> int \<times> 'k list \<times> 's" where
  "register_from reg [] ks s = (0, ks, s)"
| "register_from reg (k # todo) ks s =
     (case reg k s of (r, s1) \<Rightarrow> if r < 0 then (r, ks, s1) else register_from reg todo (ks @ [k]) s1)"

definition register_all ::
  "('k \<Rightarrow> 's \<Rightarrow> int \<times> 's) \<Rightarrow> ('k \<Rightarrow> 's \<Rightarrow> 's) \<Rightarrow> 'k list \<Rightarrow> 's \<Rightarrow> int \<times> 's" where
  "register_all reg unreg tbl s =
     (case register_from reg tbl [] s of (r, ks, s1) \<Rightarrow> if r < 0 then (r, fold unreg ks s1) else (0, s1))"

lemma register_from_inv:
  assumes "\<And>k s. P s \<Longrightarrow> P (snd (reg k s))" and "P s"
  shows "P (snd (snd (register_from reg todo ks s)))"
  using assms(2)
proof (induction todo arbitrary: ks s)
  case Nil
  then show ?case by simp
next
  case (Cons k todo)
  have "P (snd (reg k s))" using assms(1) Cons.prems .
  then show ?case using Cons.IH by (cases "reg k s") auto
qed

lemma register_all_inv:
  assumes "\<And>k s. P s \<Longrightarrow> P (snd (reg k s))" and "\<And>k s. P s \<Longrightarrow> P (unreg k s)" and "P s"
  shows "P (snd (register_all reg unreg tbl s))"
proof -
  have f: "P u \<Longrightarrow> P (fold unreg ks u)" for u ks
    by (induction ks arbitrary: u) (auto intro: assms(2))
  show ?thesis
    using register_from_inv [of P reg s tbl "[]"] assms(1,3) f
    by (auto simp: register_all_def split: prod.splits)
qed

text \<open>A registration that always fails is never made, and removing it is an error.\<close>

lemma reg_run_missing:
  "k \<notin> set l \<Longrightarrow> Add k \<notin> set os \<Longrightarrow> Del k \<in> set os \<Longrightarrow> reg_run os l = None"
  by (induction os l rule: reg_run.induct) (auto dest: notin_set_remove1)

lemma register_from_stops:
  assumes "k \<in> set todo" and "\<And>s. fst (reg k s) < 0"
  shows "fst (register_from reg todo ks s) < 0"
  using assms(1)
proof (induction todo arbitrary: ks s)
  case Nil
  then show ?case by simp
next
  case (Cons x todo)
  show ?case
  proof (cases "x = k")
    case True
    with assms(2) [of s] show ?thesis by (cases "reg k s") auto
  next
    case False
    with Cons.prems have "k \<in> set todo" by simp
    from Cons.IH [OF this] show ?thesis by (cases "reg x s") auto
  qed
qed

lemma register_all_stops:
  "k \<in> set tbl \<Longrightarrow> (\<And>s. fst (reg k s) < 0) \<Longrightarrow> fst (register_all reg unreg tbl s) < 0"
  using register_from_stops [of k tbl reg "[]" s]
  by (cases "register_from reg tbl [] s") (auto simp: register_all_def)

locale registrar =
  fixes reg :: "'k \<Rightarrow> 's \<Rightarrow> int \<times> 's"
    and unreg :: "'k \<Rightarrow> 's \<Rightarrow> 's"
    and active :: "'s \<Rightarrow> 'k multiset"
  assumes reg_ok: "reg k s = (r, t) \<Longrightarrow> 0 \<le> r \<Longrightarrow> active t = add_mset k (active s)"
    and reg_fails: "reg k s = (r, t) \<Longrightarrow> r < 0 \<Longrightarrow> active t = active s"
    and unreg_removes: "active (unreg k s) = active s - {#k#}"
begin

lemma register_from_active:
  "register_from reg todo ks s = (r, ks', t) \<Longrightarrow>
     \<exists>n. ks' = ks @ take n todo \<and> active t = active s + mset (take n todo) \<and> (0 \<le> r \<longrightarrow> take n todo = todo \<and> r = 0)"
proof (induction todo arbitrary: ks s)
  case Nil
  then show ?case by auto
next
  case (Cons k todo)
  obtain q u where q: "reg k s = (q, u)" by fastforce
  show ?case
  proof (cases "q < 0")
    case True
    with Cons.prems q reg_fails [OF q] show ?thesis by (intro exI [of _ 0]) auto
  next
    case False
    then have "register_from reg todo (ks @ [k]) u = (r, ks', t)" using Cons.prems q by simp
    from Cons.IH [OF this] obtain n where "ks' = ks @ [k] @ take n todo" "active t = active u + mset (take n todo)"
      "0 \<le> r \<longrightarrow> take n todo = todo \<and> r = 0" by auto
    with False reg_ok [OF q] show ?thesis by (intro exI [of _ "Suc n"]) auto
  qed
qed

lemma unreg_fold: "active (fold unreg ks s) = active s - mset ks"
  by (induction ks arbitrary: s) (auto simp: unreg_removes)

lemma all_or_nothing:
  assumes "register_all reg unreg tbl s = (r, t)"
  shows "r = 0 \<and> active t = active s + mset tbl \<or> r < 0 \<and> active t = active s"
proof -
  obtain q ks u where q: "register_from reg tbl [] s = (q, ks, u)" by (cases "register_from reg tbl [] s") auto
  from register_from_active [OF q] assms q show ?thesis
    by (auto simp: register_all_def unreg_fold split: if_splits)
qed

lemma register_then_unregister:
  assumes "register_all reg unreg tbl s = (0, t)"
  shows "active (fold unreg tbl t) = active s"
  using all_or_nothing [OF assms] by (auto simp: unreg_fold)

end

end
