(* ===== verification/Nic.thy ===== *)
theory Nic
  imports Mon Registry
begin

text \<open>
  \<^verbatim>\<open>nic/nic.c\<close>: a bare network device with an interrupt handler and three netfilter hooks, one of which
  prints the first 12 bytes of every packet that leaves the machine. The device record is that of
  \<open>Mon\<close>. The bytes of a packet are followed in memory by \<open>tail\<close>, which is read when the packet is shorter
  than 12 bytes.
\<close>

datatype nic_ev =
    N_dev_get "addr option"
  | N_dev_put addr
  | N_alloc_etherdev "addr option"
  | N_register_netdev addr int
  | N_request_irq nat addr int
  | N_register_hooks int
  | N_unregister_netdev addr
  | N_free_irq nat addr
  | N_unregister_hooks
  | Log_packet nat "byte list"

text \<open>The private data of the device; \<^verbatim>\<open>info\<close> has 32 bytes.\<close>

record nic_private =
  np_dev :: "addr option"
  np_info :: "byte list"

type_synonym nic_device = "nic_private net_device"

record nic_env =
  n_dev_get :: "nic_ev list \<Rightarrow> addr option"
  n_alloc_etherdev :: "nic_ev list \<Rightarrow> addr option"
  n_new_dev :: nic_device
  n_ether_setup :: "nic_device \<Rightarrow> nic_device"
  n_register :: "nic_device \<Rightarrow> nic_ev list \<Rightarrow> int"
  n_request_irq :: "addr \<Rightarrow> nic_ev list \<Rightarrow> int"
  n_register_hooks :: "nic_ev list \<Rightarrow> int"

record nic_st = "nic_ev kst" +
  nic_netdev :: "addr option"
  nic_devs :: "addr \<rightharpoonup> nic_device"

datatype nic_hook = Nic_hook_local_out | Nic_hook_pre_routing | Nic_hook_post_routing

abbreviation nic_irq :: nat where "nic_irq \<equiv> 16"

section \<open>Tables and interrupts\<close>

definition nic_netdevice_ops :: net_device_ops where
  "nic_netdevice_ops = \<lparr>ndo_open = None, ndo_stop = None, ndo_do_ioctl = None, ndo_start_xmit = None\<rparr>"

definition nic_intr :: "int \<Rightarrow> addr \<Rightarrow> irqreturn" where
  "nic_intr data devid = IRQ_NONE"

section \<open>Hooks\<close>

definition nic_hook_local_out :: "byte list \<Rightarrow> byte list \<Rightarrow> nic_st \<Rightarrow> nf_verdict \<times> nic_st" where
  "nic_hook_local_out pkt tail s = (NF_ACCEPT, kdo (Log_packet (length pkt) (take 12 (pkt @ tail))) s)"

definition nic_hook_pre_routing :: "byte list \<Rightarrow> nf_verdict" where
  "nic_hook_pre_routing pkt = NF_ACCEPT"

definition nic_hook_post_routing :: "byte list \<Rightarrow> nf_verdict" where
  "nic_hook_post_routing pkt = NF_ACCEPT"

definition nic_hooks :: "nic_hook nf_hook_ops list" where
  "nic_hooks =
     [\<lparr>hk_hook = Nic_hook_local_out, hk_pf = PF_INET, hk_hooknum = LOCAL_OUT, hk_priority = PRI_UNSET\<rparr>,
      \<lparr>hk_hook = Nic_hook_pre_routing, hk_pf = PF_INET, hk_hooknum = PRE_ROUTING, hk_priority = PRI_UNSET\<rparr>,
      \<lparr>hk_hook = Nic_hook_post_routing, hk_pf = PF_INET, hk_hooknum = POST_ROUTING, hk_priority = PRI_UNSET\<rparr>]"

definition nic_hooks_init :: "nic_env \<Rightarrow> nic_st \<Rightarrow> int \<times> nic_st" where
  "nic_hooks_init env s = kcall (n_register_hooks env) N_register_hooks s"

section \<open>Start and end\<close>

definition nic_setup :: "nic_env \<Rightarrow> addr \<Rightarrow> nic_device \<Rightarrow> nic_device" where
  "nic_setup env dev d =
     (n_ether_setup env (d\<lparr>nd_priv := (nd_priv d)\<lparr>np_dev := Some dev\<rparr>, nd_name := strncpy 16 [110, 105, 99],
        nd_addr := [0, 1, 2, 3, 4, 5] @ drop 6 (nd_addr d)\<rparr>))\<lparr>nd_ops := Some nic_netdevice_ops\<rparr>"

definition nic_init :: "nic_env \<Rightarrow> nic_st \<Rightarrow> int \<times> nic_st" where
  "nic_init env s =
     (let (d, s1) = kcall (n_dev_get env) N_dev_get s
      in case d of
           Some dev \<Rightarrow> (0, kdo (N_dev_put dev) s1)
         | None \<Rightarrow>
             (let (d, s2) = kcall (n_alloc_etherdev env) N_alloc_etherdev s1
              in case d of
                   None \<Rightarrow> (- ENOMEM, s2)
                 | Some dev \<Rightarrow>
                     (let nd = nic_setup env dev (n_new_dev env);
                          s3 = s2\<lparr>nic_devs := (nic_devs s2)(dev \<mapsto> nd)\<rparr>;
                          (ret, s4) = kcall (n_register env nd) (N_register_netdev dev) s3;
                          s5 = s4\<lparr>nic_netdev := Some dev\<rparr>;
                          (ret, s6) = kcall (n_request_irq env dev) (N_request_irq nic_irq dev) s5;
                          (ret, s7) = nic_hooks_init env s6
                      in (0, s7))))"

definition nic_fini :: "nic_st \<Rightarrow> nic_st" where
  "nic_fini s =
     (case nic_netdev s of
        None \<Rightarrow> s
      | Some dev \<Rightarrow>
          kdo N_unregister_hooks ((kdo (N_free_irq nic_irq dev) (kdo (N_unregister_netdev dev) s))\<lparr>nic_netdev := None\<rparr>))"

section \<open>What is registered\<close>

datatype nic_thing = Netdev addr | Irq addr | Hooks | DevHeld addr

fun nic_op :: "nic_ev \<Rightarrow> nic_thing reg_op list" where
  "nic_op (N_dev_get (Some d)) = [Add (DevHeld d)]"
| "nic_op (N_dev_put d) = [Del (DevHeld d)]"
| "nic_op (N_register_netdev d r) = (if r = 0 then [Add (Netdev d)] else [])"
| "nic_op (N_request_irq n d r) = (if r = 0 then [Add (Irq d)] else [])"
| "nic_op (N_register_hooks r) = (if r = 0 then [Add Hooks] else [])"
| "nic_op (N_unregister_netdev d) = [Del (Netdev d)]"
| "nic_op (N_free_irq n d) = [Del (Irq d)]"
| "nic_op N_unregister_hooks = [Del Hooks]"
| "nic_op _ = []"

definition nic_ops :: "nic_ev list \<Rightarrow> nic_thing reg_op list" where
  "nic_ops tr = concat (map nic_op tr)"

text \<open>
  C38. Loading and unloading, in every case. If a device of that name exists, or none can be allocated,
  nothing is registered and unloading does nothing. Otherwise the module loads with result 0, and
  unloading takes away exactly what was registered if and only if all three registrations
  succeeded; if one of them failed, something is taken away that is not there.
\<close>

theorem nic_lifecycle:
  assumes "evs s = []" and "nic_netdev s = None"
  shows "\<exists>r t. nic_init env s = (r, t) \<and>
    (case n_dev_get env [] of
       Some d \<Rightarrow> r = 0 \<and> nic_fini t = t \<and> reg_run (nic_ops (evs t)) [] = Some []
     | None \<Rightarrow>
         (case n_alloc_etherdev env [N_dev_get None] of
            None \<Rightarrow> r = - ENOMEM \<and> nic_fini t = t \<and> reg_run (nic_ops (evs t)) [] = Some []
          | Some d \<Rightarrow> r = 0 \<and> nic_netdev (nic_fini t) = None \<and>
              (\<exists>a b c. evs t = [N_dev_get None, N_alloc_etherdev (Some d), N_register_netdev d a, N_request_irq 16 d b, N_register_hooks c] \<and>
                 (reg_run (nic_ops (evs (nic_fini t))) [] = Some [] \<longleftrightarrow> a = 0 \<and> b = 0 \<and> c = 0))))"
proof (cases "n_dev_get env []")
  case (Some d)
  with assms show ?thesis by (simp add: nic_init_def kdefs nic_fini_def nic_ops_def)
next
  case None
  show ?thesis
  proof (cases "n_alloc_etherdev env [N_dev_get None]")
    case None': None
    with None assms show ?thesis by (simp add: nic_init_def kdefs nic_fini_def nic_ops_def)
  next
    case (Some d)
    with None assms show ?thesis
      by (simp add: nic_init_def nic_hooks_init_def kdefs nic_fini_def nic_ops_def)
  qed
qed

definition demo_nic :: nic_env where
  "demo_nic = \<lparr>n_dev_get = (\<lambda>_. None), n_alloc_etherdev = (\<lambda>_. Some 5), 
     n_new_dev = \<lparr>nd_name = replicate 16 0, nd_addr = replicate 32 0, nd_mtu = 0, nd_hard_header_len = 0, nd_addr_len = 0,
        nd_tx_queue_len = 0, nd_flags = 0, nd_type = 0, nd_broadcast = replicate 32 0, nd_destructor = None, nd_ops = None,
        nd_wireless = None, nd_priv = \<lparr>np_dev = None, np_info = replicate 32 0\<rparr>\<rparr>,
     n_ether_setup = (\<lambda>d. d), n_register = (\<lambda>_ _. 0), n_request_irq = (\<lambda>_ _. 0), n_register_hooks = (\<lambda>_. -1)\<rparr>"

theorem nic_lifecycle_witness:
  "\<exists>t. nic_init demo_nic \<lparr>evs = [], nic_netdev = None, nic_devs = (\<lambda>_. None)\<rparr> = (0, t) \<and>
     reg_run (nic_ops (evs (nic_fini t))) [] \<noteq> Some []"
proof -
  let ?s = "\<lparr>evs = [], nic_netdev = None, nic_devs = (\<lambda>_. None)\<rparr>"
  obtain t a b c where t: "nic_init demo_nic ?s = (0, t)"
    "evs t = [N_dev_get None, N_alloc_etherdev (Some 5), N_register_netdev 5 a, N_request_irq 16 5 b, N_register_hooks c]"
    "reg_run (nic_ops (evs (nic_fini t))) [] = Some [] \<longleftrightarrow> a = 0 \<and> b = 0 \<and> c = 0"
    using nic_lifecycle [of ?s demo_nic] by (auto simp: demo_nic_def)
  have "c = -1" using t(1,2) by (auto simp: nic_init_def nic_hooks_init_def demo_nic_def kdefs)
  with t show ?thesis by auto
qed

end
