(* ===== verification/Procfs.thy ===== *)
theory Procfs
  imports Registry Cnum
begin

text \<open>
  \<^verbatim>\<open>proc/foobar.c\<close>: a directory under \<^verbatim>\<open>/proc\<close> with two files that hold a short string each, one file that
  shows the clock, and a link to it. The strings are the two 9-byte buffers of \<^verbatim>\<open>struct fb_data_t\<close>.

  Entries are created and removed through the environment and recorded in the history; \<open>p_from_user\<close>
  answers a copy from user memory with the number of bytes that could not be copied and the bytes that
  were stored. The properties: what is written is read back, reading never leaves the buffers, and the
  directory is built completely or taken down again in reverse order.
\<close>

datatype entry = Dir | Jiffies_file | Foo_file | Bar_file | Symlink

datatype proc_ev =
    Create entry bool
  | Remove entry
  | P_copy_from_user nat "nat \<times> byte list"

record fb_data_t =
  fb_name :: "byte list"
  fb_value :: "byte list"

record proc_env =
  p_create :: "entry \<Rightarrow> proc_ev list \<Rightarrow> bool"
  p_from_user :: "nat \<Rightarrow> proc_ev list \<Rightarrow> nat \<times> byte list"

record proc_st = "proc_ev kst" +
  foo_data :: fb_data_t
  bar_data :: fb_data_t

abbreviation FOOBAR_LEN :: nat where "FOOBAR_LEN \<equiv> 8"

section \<open>Reading\<close>

text \<open>\<^verbatim>\<open>%ld\<close> reads the clock, an \<^verbatim>\<open>unsigned long\<close>, as a signed number.\<close>

definition proc_read_jiffies :: "ulong \<Rightarrow> int \<times> byte list" where
  "proc_read_jiffies jiffies = (let out = lit ''jiffies = '' @ sdec (sint jiffies) @ [10] in (int (length out), out @ [0]))"

text \<open>Returns the length and what was written to the page, terminator included.\<close>

definition proc_read_foobar :: "fb_data_t \<Rightarrow> int \<times> byte list" where
  "proc_read_foobar fb =
     (let out = cstr (fb_name fb) @ lit '' = '' @ cstr (fb_value fb) @ [10] in (int (length out), out @ [0]))"

text \<open>What is printed for the clock reads back as the clock, and with its text it is at most 32 bytes
  long, terminator included, so it fits the page the kernel passes.\<close>

lemma proc_read_jiffies_fits: "length (snd (proc_read_jiffies j)) \<le> 32"
proof -
  have "- (2 ^ 63) \<le> sint j" "sint j < 2 ^ 63"
    using sint_greater_eq [of j] sint_lt [of j] by simp_all
  then have "nat (sint j) < 10 ^ Suc 18" "nat (- sint j) < 10 ^ Suc 18" by simp_all
  then have "length (sdec (sint j)) \<le> 20"
    using length_dec [of "nat (sint j)" 18] length_dec [of "nat (- sint j)" 18] by (simp add: sdec_def)
  then show ?thesis by (simp add: proc_read_jiffies_def lit_def)
qed

section \<open>Writing\<close>

definition proc_write_foobar :: "proc_env \<Rightarrow> nat \<Rightarrow> fb_data_t \<Rightarrow> proc_st \<Rightarrow> int \<times> fb_data_t \<times> proc_st" where
  "proc_write_foobar env cnt fb s =
     (let len = (if FOOBAR_LEN < cnt then FOOBAR_LEN else cnt);
          (r, s1) = kcall (p_from_user env len) (P_copy_from_user len) s;
          fb1 = fb\<lparr>fb_value := memcpy_at 0 (fb_value fb) (snd r)\<rparr>
      in if fst r \<noteq> 0 then (- EFAULT, fb1, s1)
         else (int len, fb1\<lparr>fb_value := (fb_value fb1)[len := 0]\<rparr>, s1))"

text \<open>\<^verbatim>\<open>data\<close> of the two entries points to these variables.\<close>

definition write_foo :: "proc_env \<Rightarrow> nat \<Rightarrow> proc_st \<Rightarrow> int \<times> proc_st" where
  "write_foo env cnt s =
     (case proc_write_foobar env cnt (foo_data s) s of (r, fb, s1) \<Rightarrow> (r, s1\<lparr>foo_data := fb\<rparr>))"

definition write_bar :: "proc_env \<Rightarrow> nat \<Rightarrow> proc_st \<Rightarrow> int \<times> proc_st" where
  "write_bar env cnt s =
     (case proc_write_foobar env cnt (bar_data s) s of (r, fb, s1) \<Rightarrow> (r, s1\<lparr>bar_data := fb\<rparr>))"

section \<open>Start and end\<close>

text \<open>\<^verbatim>\<open>strcpy(d, "x")\<close> into a 9-byte buffer.\<close>

definition strcpy_to :: "byte list \<Rightarrow> byte list \<Rightarrow> byte list" where
  "strcpy_to dst src = memcpy_at 0 dst (src @ [0])"

definition proctest_init :: "proc_env \<Rightarrow> proc_st \<Rightarrow> int \<times> proc_st" where
  "proctest_init env s =
     (let (d, s1) = kcall (p_create env Dir) (Create Dir) s
      in if \<not> d then (- ENOMEM, s1)
         else let (j, s2) = kcall (p_create env Jiffies_file) (Create Jiffies_file) s1
      in if \<not> j then (- ENOMEM, kdo (Remove Dir) s2)
         else let (f, s3) = kcall (p_create env Foo_file) (Create Foo_file) s2
      in if \<not> f then (- ENOMEM, kdo (Remove Dir) (kdo (Remove Jiffies_file) s3))
         else let s4 = s3\<lparr>foo_data := \<lparr>fb_name = strcpy_to (fb_name (foo_data s3)) (lit ''foo''),
                                       fb_value = strcpy_to (fb_value (foo_data s3)) (lit ''foo'')\<rparr>\<rparr>;
                  (b, s5) = kcall (p_create env Bar_file) (Create Bar_file) s4
      in if \<not> b then (- ENOMEM, kdo (Remove Dir) (kdo (Remove Jiffies_file) (kdo (Remove Foo_file) s5)))
         else let s6 = s5\<lparr>bar_data := \<lparr>fb_name = strcpy_to (fb_name (bar_data s5)) (lit ''bar''),
                                       fb_value = strcpy_to (fb_value (bar_data s5)) (lit ''bar'')\<rparr>\<rparr>;
                  (l, s7) = kcall (p_create env Symlink) (Create Symlink) s6
      in if \<not> l then (- ENOMEM, kdo (Remove Dir) (kdo (Remove Jiffies_file) (kdo (Remove Foo_file) (kdo (Remove Bar_file) s7))))
         else (0, s7))"

definition proctest_exit :: "proc_st \<Rightarrow> proc_st" where
  "proctest_exit s =
     kdo (Remove Dir) (kdo (Remove Jiffies_file) (kdo (Remove Foo_file) (kdo (Remove Bar_file) (kdo (Remove Symlink) s))))"

definition proc_boot :: proc_st where
  "proc_boot = \<lparr>evs = [], foo_data = \<lparr>fb_name = replicate 9 0, fb_value = replicate 9 0\<rparr>,
     bar_data = \<lparr>fb_name = replicate 9 0, fb_value = replicate 9 0\<rparr>\<rparr>"

section \<open>The buffers\<close>

text \<open>Both strings of an entry are terminated inside their 9 bytes.\<close>

definition fb_ok :: "fb_data_t \<Rightarrow> bool" where
  "fb_ok fb \<longleftrightarrow> length (fb_name fb) = FOOBAR_LEN + 1 \<and> 0 \<in> set (fb_name fb) \<and>
     length (fb_value fb) = FOOBAR_LEN + 1 \<and> fb_value fb ! FOOBAR_LEN = 0"

text \<open>A copy stores at most the bytes asked for, all of them if nothing is left over.\<close>

definition proc_user_law :: "proc_env \<Rightarrow> bool" where
  "proc_user_law env \<longleftrightarrow>
     (\<forall>n tr. length (snd (p_from_user env n tr)) \<le> n \<and>
        (fst (p_from_user env n tr) = 0 \<longrightarrow> length (snd (p_from_user env n tr)) = n))"

lemma fb_value_terminated: "fb_ok fb \<Longrightarrow> 0 \<in> set (fb_value fb)"
  unfolding fb_ok_def by (metis lessI nth_mem Suc_eq_plus1)

lemma memcpy_keeps_last:
  "length v = 9 \<Longrightarrow> length bs \<le> 8 \<Longrightarrow> memcpy_at 0 v bs ! 8 = v ! 8"
  by (simp add: memcpy_at_0 nth_append)

lemma proc_write_foobar_ok:
  assumes "proc_user_law env" and "fb_ok fb" and "proc_write_foobar env cnt fb s = (r, fb', t)"
  shows "fb_ok fb' \<and> fb_name fb' = fb_name fb"
proof -
  define n where "n = (if FOOBAR_LEN < cnt then FOOBAR_LEN else cnt)"
  obtain left bs where u: "p_from_user env n (evs s) = (left, bs)" by fastforce
  have n: "n \<le> 8" by (simp add: n_def)
  moreover have "length bs \<le> n" using assms(1) u unfolding proc_user_law_def by (metis snd_conv)
  ultimately have bs: "length bs \<le> 8" by simp
  let ?v = "memcpy_at 0 (fb_value fb) bs"
  have v: "length ?v = 9" "?v ! 8 = 0"
    using assms(2) bs memcpy_keeps_last [of "fb_value fb" bs] by (simp_all add: fb_ok_def)
  have "fb' = (if left \<noteq> 0 then fb\<lparr>fb_value := ?v\<rparr> else fb\<lparr>fb_value := ?v[n := 0]\<rparr>)"
    using assms(3) u unfolding proc_write_foobar_def n_def [symmetric] by (simp add: kdefs split: if_splits)
  with v n assms(2) show ?thesis by (simp add: fb_ok_def nth_list_update)
qed

lemma proc_write_value:
  assumes "proc_user_law env" and "fb_ok fb" and "p_from_user env (min cnt 8) (evs s) = (0, bs)"
  shows "\<exists>fb' t. proc_write_foobar env cnt fb s = (int (min cnt 8), fb', t) \<and> cstr (fb_value fb') = cstr bs \<and>
    fb_name fb' = fb_name fb"
proof -
  have l: "length bs = min cnt 8" using assms(1,3) unfolding proc_user_law_def by (metis fst_conv snd_conv)
  have v: "(memcpy_at 0 (fb_value fb) bs)[length bs := 0] = bs @ 0 # drop (Suc (length bs)) (fb_value fb)"
    using l assms(2) by (simp add: memcpy_at_0 fb_ok_def list_update_append Cons_nth_drop_Suc [symmetric] split: nat.split)
  have c: "(if FOOBAR_LEN < cnt then FOOBAR_LEN else cnt) = min cnt 8" by simp
  show ?thesis
    unfolding proc_write_foobar_def c using assms(3) v l by (simp add: kdefs)
qed

section \<open>Properties\<close>

text \<open>Writing to one file and reading it: the interface of a stored value.\<close>

definition user_gives :: "byte list \<Rightarrow> proc_env" where
  "user_gives bs = \<lparr>p_create = (\<lambda>_ _. True), p_from_user = (\<lambda>n tr. if n \<le> length bs then (0, take n bs) else (n - length bs, bs))\<rparr>"

lemma user_gives_law: "proc_user_law (user_gives bs)"
  by (simp add: proc_user_law_def user_gives_def)

interpretation foo_file: stored_value "\<lambda>bs s. snd (write_foo (user_gives bs) (length bs) s)"
  "\<lambda>s. cstr (fb_value (foo_data s))" "\<lambda>bs. cstr (take 8 bs)" "\<lambda>s. fb_ok (foo_data s)" "\<lambda>_. True"
proof
  fix s :: proc_st and bs :: "byte list"
  assume ok: "fb_ok (foo_data s)"
  obtain r fb t where w: "proc_write_foobar (user_gives bs) (length bs) (foo_data s) s = (r, fb, t)"
    by (cases "proc_write_foobar (user_gives bs) (length bs) (foo_data s) s") auto
  show "fb_ok (foo_data (snd (write_foo (user_gives bs) (length bs) s)))"
    using proc_write_foobar_ok [OF user_gives_law ok w] w by (simp add: write_foo_def)
  have "p_from_user (user_gives bs) (min (length bs) 8) (evs s) = (0, take 8 bs)"
    by (simp add: user_gives_def min_def)
  from proc_write_value [OF user_gives_law ok this] w
  show "cstr (fb_value (foo_data (snd (write_foo (user_gives bs) (length bs) s)))) = cstr (take 8 bs)"
    by (auto simp: write_foo_def)
qed

lemma write_foo_name:
  "fb_ok (foo_data s) \<Longrightarrow>
   fb_name (foo_data (fold (\<lambda>bs s. snd (write_foo (user_gives bs) (length bs) s)) bss s)) = fb_name (foo_data s)"
proof (induction bss arbitrary: s)
  case Nil
  then show ?case by simp
next
  case (Cons bs bss)
  obtain r fb t where w: "proc_write_foobar (user_gives bs) (length bs) (foo_data s) s = (r, fb, t)"
    by (cases "proc_write_foobar (user_gives bs) (length bs) (foo_data s) s") auto
  from Cons.IH [of "t\<lparr>foo_data := fb\<rparr>"] proc_write_foobar_ok [OF user_gives_law Cons.prems w] w show ?case
    by (simp add: write_foo_def)
qed

text \<open>
  What a process writes to the file is what the next process reads: after any number of writes, the
  last being \<open>bs\<close>, reading gives the name of the entry, an equals sign, the first 8 bytes of \<open>bs\<close> up to a
  zero byte, and a newline, and the reported length is that of this line.
\<close>

lemma proc_write_then_read:
  assumes "fb_ok (foo_data s)"
  shows "proc_read_foobar (foo_data (fold (\<lambda>bs s. snd (write_foo (user_gives bs) (length bs) s)) (earlier @ [bs]) s)) =
    (int (length (cstr (fb_name (foo_data s))) + length (cstr (take 8 bs)) + 4),
     cstr (fb_name (foo_data s)) @ [32, 61, 32] @ cstr (take 8 bs) @ [10, 0])"
proof -
  let ?t = "fold (\<lambda>bs s. snd (write_foo (user_gives bs) (length bs) s)) (earlier @ [bs]) s"
  have "cstr (fb_value (foo_data ?t)) = cstr (take 8 bs)"
    by (rule foo_file.last_put_wins [OF assms]) (simp add: list_all_iff)
  moreover have "lit '' = '' = [32, 61, 32]" by code_simp
  ultimately show ?thesis
    using write_foo_name [OF assms, of "earlier @ [bs]"] by (simp add: proc_read_foobar_def Let_def)
qed

lemma proc_write_then_read_witness:
  "proc_read_foobar (foo_data (snd (write_foo (user_gives (lit ''longer than it fits'')) 19
     (snd (proctest_init (user_gives []) proc_boot))))) = (15, lit ''foo = longer t'' @ [10, 0])"
proof -
  have "fb_ok (foo_data (snd (proctest_init (user_gives []) proc_boot)))" by code_simp
  note r = proc_write_then_read [OF this, of "[]" "lit ''longer than it fits''"]
  have "length (lit ''longer than it fits'') = 19" by code_simp
  moreover have "cstr (fb_name (foo_data (snd (proctest_init (user_gives []) proc_boot)))) = lit ''foo''"
    "cstr (take 8 (lit ''longer than it fits'')) = lit ''longer t''"
    "(int (length (lit ''foo'') + length (lit ''longer t'') + 4), lit ''foo'' @ [32, 61, 32] @ lit ''longer t'' @ [10, 0]) =
       (15, lit ''foo = longer t'' @ [10, 0])"
    by code_simp+
  ultimately show ?thesis using r by simp
qed

text \<open>Additions and removals of directory entries in a history.\<close>

fun proc_op :: "proc_ev \<Rightarrow> entry reg_op list" where
  "proc_op (Create e ok) = (if ok then [Add e] else [])"
| "proc_op (Remove e) = [Del e]"
| "proc_op _ = []"

definition proc_ops :: "proc_ev list \<Rightarrow> entry reg_op list" where
  "proc_ops tr = concat (map proc_op tr)"

lemma proc_ops_append [simp]: "proc_ops (tr @ es) = proc_ops tr @ concat (map proc_op es)"
  by (simp add: proc_ops_def)

text \<open>A step of a running module: a write to either file, of any length, that may fail.\<close>

inductive proc_step :: "proc_env \<Rightarrow> proc_st \<Rightarrow> proc_st \<Rightarrow> bool" for env where
  foo: "write_foo env n s = (r, t) \<Longrightarrow> proc_step env s t"
| bar: "write_bar env n s = (r, t) \<Longrightarrow> proc_step env s t"

inductive_cases proc_stepE: "proc_step env s t"

definition proc_loaded :: "proc_env \<Rightarrow> proc_st \<Rightarrow> bool" where
  "proc_loaded env s \<longleftrightarrow> proctest_init env proc_boot = (0, s)"

definition proc_inv :: "proc_st \<Rightarrow> bool" where
  "proc_inv s \<longleftrightarrow> fb_ok (foo_data s) \<and> fb_ok (bar_data s) \<and>
     cstr (fb_name (foo_data s)) = lit ''foo'' \<and> cstr (fb_name (bar_data s)) = lit ''bar'' \<and>
     lifo_run (proc_ops (evs s)) [] = Some [Symlink, Bar_file, Foo_file, Jiffies_file, Dir]"

lemma literal_buffers:
  "length (strcpy_to (replicate 9 0) (lit ''foo'')) = 9 \<and> strcpy_to (replicate 9 0) (lit ''foo'') ! 8 = 0 \<and>
   0 \<in> set (strcpy_to (replicate 9 0) (lit ''foo'')) \<and> cstr (strcpy_to (replicate 9 0) (lit ''foo'')) = lit ''foo''"
  "length (strcpy_to (replicate 9 0) (lit ''bar'')) = 9 \<and> strcpy_to (replicate 9 0) (lit ''bar'') ! 8 = 0 \<and>
   0 \<in> set (strcpy_to (replicate 9 0) (lit ''bar'')) \<and> cstr (strcpy_to (replicate 9 0) (lit ''bar'')) = lit ''bar''"
  by code_simp+

lemma proc_loaded_inv: "proc_loaded env s \<Longrightarrow> proc_inv s"
  using literal_buffers
  by (auto simp: proc_loaded_def proctest_init_def proc_boot_def kdefs proc_inv_def fb_ok_def proc_ops_def
      split: if_splits)

lemma proc_step_inv:
  assumes "proc_user_law env" and "proc_inv s" and "proc_step env s t"
  shows "proc_inv t"
proof -
  have frame: "evs u = evs s @ [P_copy_from_user (if FOOBAR_LEN < n then FOOBAR_LEN else n) (p_from_user env (if FOOBAR_LEN < n then FOOBAR_LEN else n) (evs s))]
      \<and> foo_data u = foo_data s \<and> bar_data u = bar_data s"
    if "proc_write_foobar env n fb s = (r, fb', u)" for n fb r fb' u
    using that unfolding proc_write_foobar_def by (auto simp: kdefs split: if_splits)
  from assms(3) show ?thesis
  proof (cases rule: proc_step.cases)
    case (foo n r)
    then obtain fb u where w: "proc_write_foobar env n (foo_data s) s = (r, fb, u)" "t = u\<lparr>foo_data := fb\<rparr>"
      by (auto simp: write_foo_def split: prod.splits)
    with frame [OF w(1)] proc_write_foobar_ok [OF assms(1) _ w(1)] assms(2) show ?thesis
      by (simp add: proc_inv_def)
  next
    case (bar n r)
    then obtain fb u where w: "proc_write_foobar env n (bar_data s) s = (r, fb, u)" "t = u\<lparr>bar_data := fb\<rparr>"
      by (auto simp: write_bar_def split: prod.splits)
    with frame [OF w(1)] proc_write_foobar_ok [OF assms(1) _ w(1)] assms(2) show ?thesis
      by (simp add: proc_inv_def)
  qed
qed

interpretation procfs: transition_system "proc_loaded env" "\<lambda>s t. proc_user_law env \<and> proc_step env s t" proc_inv for env
  by unfold_locales (auto intro: proc_loaded_inv proc_step_inv)

lemma cstr_in_9: "length v = 9 \<Longrightarrow> 0 \<in> set v \<Longrightarrow> length (cstr v) \<le> 8"
  using strlen_bound [of v] by (simp add: strlen_def)

text \<open>
  C20. Once the module is loaded, no sequence of writes, whatever their length and even if copies fail
  half-way, breaks the buffers: both strings stay terminated inside their 9 bytes, so that a read of
  either file yields at most 15 bytes, and unloading removes exactly the entries that were created, in
  reverse order.
\<close>

theorem proc_files_stay_sound:
  assumes "proc_user_law env" and "proc_loaded env s" and "(proc_step env)\<^sup>*\<^sup>* s t"
  shows "fb_ok (foo_data t) \<and> fb_ok (bar_data t) \<and>
    fst (proc_read_foobar (foo_data t)) \<le> 15 \<and> fst (proc_read_foobar (bar_data t)) \<le> 15 \<and>
    lifo_run (proc_ops (evs (proctest_exit t))) [] = Some []"
proof -
  have "(\<lambda>s t. proc_user_law env \<and> proc_step env s t)\<^sup>*\<^sup>* s t"
    using assms(1,3) by (simp add: assms(1))
  from procfs.reachable_inv [OF assms(2) this] have inv: "proc_inv t" .
  then have ok: "fb_ok (foo_data t)" "fb_ok (bar_data t)" by (simp_all add: proc_inv_def)
  have v: "length (cstr (fb_value fb)) \<le> 8" if "fb_ok fb" for fb
    using that fb_value_terminated [OF that] cstr_in_9 by (simp add: fb_ok_def)
  have "length (lit ''foo'') = 3" "length (lit ''bar'') = 3" "length (lit '' = '') = 3" by (simp_all add: lit_def)
  then show ?thesis
    using inv ok v [OF ok(1)] v [OF ok(2)]
    by (simp add: proc_inv_def proc_read_foobar_def Let_def proctest_exit_def lifo_run_append)
qed

theorem proc_files_stay_sound_witness:
  "\<exists>s t. proc_loaded (user_gives [65, 66]) s \<and> (proc_step (user_gives [65, 66]))\<^sup>*\<^sup>* s t \<and>
     fst (proc_read_foobar (bar_data t)) \<le> 15 \<and> lifo_run (proc_ops (evs (proctest_exit t))) [] = Some []"
proof -
  let ?s = "snd (proctest_init (user_gives [65, 66]) proc_boot)" and ?t = "snd (write_bar (user_gives [65, 66]) 5 (snd (proctest_init (user_gives [65, 66]) proc_boot)))"
  have l: "proc_loaded (user_gives [65, 66]) ?s"
    by (simp add: proc_loaded_def prod_eq_iff proctest_init_def user_gives_def kdefs)
  have "proc_step (user_gives [65, 66]) ?s ?t"
    by (rule proc_step.bar) (rule prod.collapse [symmetric])
  then have st: "(proc_step (user_gives [65, 66]))\<^sup>*\<^sup>* ?s ?t" by simp
  from proc_files_stay_sound [OF user_gives_law l st] l st show ?thesis by blast
qed

text \<open>
  C31. \<^verbatim>\<open>proctest_init\<close> builds all or nothing: it returns 0 with all five entries, or \<^verbatim>\<open>-ENOMEM\<close> with
  none, having removed what it had created in reverse order, so that the directory is empty
  when it is removed.
\<close>

theorem proctest_init_all_or_nothing:
  "\<exists>r t. proctest_init env s = (r, t) \<and>
    (r = 0 \<and> lifo_run (drop (length (proc_ops (evs s))) (proc_ops (evs t))) [] =
        Some [Symlink, Bar_file, Foo_file, Jiffies_file, Dir] \<or>
     r = - ENOMEM \<and> lifo_run (drop (length (proc_ops (evs s))) (proc_ops (evs t))) [] = Some [])"
  by (simp add: proctest_init_def kdefs)

end
