(* ===== verification/Probes.thy ===== *)
theory Probes
  imports Registry
begin

text \<open>
  \<^verbatim>\<open>kprobe/kprobe.c\<close>: a module that plants probes in the kernel.

  It plants two single probes, a table of probes and a table of jprobes. Registration is a call of the
  environment that may fail; the history tells which probes are planted. The wireless jprobes are
  compiled only with \<^verbatim>\<open>KCONFIG_WEXT_ENABLED\<close>, which is an argument here. Handlers only print; what they
  print is an event.
\<close>

section \<open>kprobe.c\<close>

text \<open>The probe structures of the module, and the functions the jprobes sit on.\<close>

datatype jfunc = Ip_rcv | Wext_handle_ioctl | Ioctl_private_call | Handle_fasteoi_irq

datatype probe = Kp | Kp0 | Debug_kprobe nat | Debug_jprobe jfunc

datatype probe_ev =
    Kallsyms_lookup ulong
  | Register_probe probe int
  | Unregister_probe probe
  | Log_private_cmd u32
  | Log_private_args u32 "u32 list"
  | Log_break nat u32
  | Log_ioctl u32
  | Log_priv_descr u32
  | Log_irq nat
  | Log_ip_rcv
  | Log_handler probe
  | Jprobe_return

record kprobe =
  kp_symbol :: "string option"
  kp_addr :: ulong
  kp_handlers :: bool

record probe_env =
  pr_lookup :: "probe_ev list \<Rightarrow> ulong"
  pr_register :: "probe \<Rightarrow> probe_ev list \<Rightarrow> int"

record probe_st = "probe_ev kst" +
  kp :: kprobe

definition kp_boot :: kprobe where
  "kp_boot = \<lparr>kp_symbol = None, kp_addr = 0, kp_handlers = True\<rparr>"

definition kp0 :: kprobe where
  "kp0 = \<lparr>kp_symbol = Some ''loopback_xmit'', kp_addr = 0, kp_handlers = False\<rparr>"

definition debug_kprobe :: "kprobe list" where
  "debug_kprobe = [\<lparr>kp_symbol = Some ''netif_rx'', kp_addr = 0, kp_handlers = True\<rparr>,
                   \<lparr>kp_symbol = None, kp_addr = 0xc161f240, kp_handlers = False\<rparr>]"

definition debug_jprobe :: "bool \<Rightarrow> jfunc list" where
  "debug_jprobe wext =
     [Ip_rcv] @ (if wext then [Wext_handle_ioctl, Ioctl_private_call] else []) @ [Handle_fasteoi_irq]"

subsection \<open>Handlers\<close>

abbreviation private_cmd :: "u32 \<Rightarrow> bool" where
  "private_cmd cmd \<equiv> cmd = 0x8be1 \<or> cmd = 0x8be0 \<or> cmd = 0x8be2"

text \<open>The search loop of \<^verbatim>\<open>ioctl_private_call_jentry\<close>: the first argument description of the command.\<close>

fun find_private :: "u32 \<Rightarrow> nat \<Rightarrow> u32 list \<Rightarrow> (nat \<times> u32) option" where
  "find_private cmd i [] = None"
| "find_private cmd i (a # as) = (if cmd = a then Some (i, a) else find_private cmd (Suc i) as)"

definition ioctl_private_call_jentry :: "u32 \<Rightarrow> u32 list \<Rightarrow> probe_st \<Rightarrow> probe_st" where
  "ioctl_private_call_jentry cmd private_args s =
     (let s1 = (if private_cmd cmd then kdo (Log_private_args cmd private_args) s else s);
          s2 = (if private_cmd cmd
                then let s' = kdo (Log_private_cmd cmd) s1
                     in case find_private cmd 0 private_args of
                          None \<Rightarrow> s'
                        | Some (i, a) \<Rightarrow> kdo (Log_break i a) s'
                else s1)
      in kdo Jprobe_return s2)"

definition wext_handle_ioctl_jentry :: "u32 \<Rightarrow> probe_st \<Rightarrow> probe_st" where
  "wext_handle_ioctl_jentry cmd s =
     kdo Jprobe_return (if private_cmd cmd then kdo (Log_ioctl cmd) s else s)"

text \<open>In no table: the function it would sit on is static.\<close>

definition get_priv_descr_and_size_jentry :: "u32 \<Rightarrow> probe_st \<Rightarrow> probe_st" where
  "get_priv_descr_and_size_jentry cmd s = kdo Jprobe_return (kdo (Log_priv_descr cmd) s)"

definition handle_fasteoi_irq_jentry :: "nat \<Rightarrow> probe_st \<Rightarrow> probe_st" where
  "handle_fasteoi_irq_jentry irq s = kdo Jprobe_return (if irq = 16 then kdo (Log_irq irq) s else s)"

definition ip_rcv_jentry :: "probe_st \<Rightarrow> probe_st" where
  "ip_rcv_jentry s = kdo Jprobe_return (kdo Log_ip_rcv s)"

definition handler_pre :: "probe \<Rightarrow> probe_st \<Rightarrow> int \<times> probe_st" where
  "handler_pre p s = (0, kdo (Log_handler p) s)"

definition handler_post :: "probe \<Rightarrow> probe_st \<Rightarrow> probe_st" where
  "handler_post p s = kdo (Log_handler p) s"

definition handler_fault :: "probe \<Rightarrow> probe_st \<Rightarrow> int \<times> probe_st" where
  "handler_fault p s = (0, kdo (Log_handler p) s)"

subsection \<open>Planting and removing\<close>

definition register_probe :: "probe_env \<Rightarrow> probe \<Rightarrow> probe_st \<Rightarrow> int \<times> probe_st" where
  "register_probe env p s = kcall (pr_register env p) (Register_probe p) s"

definition unregister_probe :: "probe \<Rightarrow> probe_st \<Rightarrow> probe_st" where
  "unregister_probe p s = kdo (Unregister_probe p) s"

definition kprobe_tbl :: "probe list" where
  "kprobe_tbl = map Debug_kprobe [0..<length debug_kprobe]"

definition jprobe_tbl :: "bool \<Rightarrow> probe list" where
  "jprobe_tbl wext = map Debug_jprobe (debug_jprobe wext)"

definition kprobe_init :: "probe_env \<Rightarrow> probe_st \<Rightarrow> int \<times> probe_st" where
  "kprobe_init env s =
     (let (a, s1) = kcall (pr_lookup env) Kallsyms_lookup s;
          s2 = s1\<lparr>kp := (kp s1)\<lparr>kp_addr := a\<rparr>\<rparr>;
          (r, s3) = register_probe env Kp s2
      in if r < 0 then (r, s3)
         else let (r, s4) = register_probe env Kp0 s3
      in if r < 0 then (r, s4)
         else register_all (register_probe env) unregister_probe kprobe_tbl s4)"

definition kprobe_exit :: "probe_st \<Rightarrow> probe_st" where
  "kprobe_exit s = fold unregister_probe kprobe_tbl (unregister_probe Kp0 (unregister_probe Kp s))"

definition jprobe_init :: "probe_env \<Rightarrow> bool \<Rightarrow> probe_st \<Rightarrow> int \<times> probe_st" where
  "jprobe_init env wext s =
     (let (r, s1) = register_all (register_probe env) unregister_probe (jprobe_tbl wext) s
      in (if r < 0 then -1 else 0, s1))"

definition jprobe_exit :: "bool \<Rightarrow> probe_st \<Rightarrow> probe_st" where
  "jprobe_exit wext s = fold unregister_probe (jprobe_tbl wext) s"

definition probe_init :: "probe_env \<Rightarrow> bool \<Rightarrow> probe_st \<Rightarrow> int \<times> probe_st" where
  "probe_init env wext s = (0, snd (jprobe_init env wext (snd (kprobe_init env s))))"

definition probe_exit :: "bool \<Rightarrow> probe_st \<Rightarrow> probe_st" where
  "probe_exit wext s = jprobe_exit wext (kprobe_exit s)"

section \<open>The planted probes\<close>

fun planted_ev :: "probe_ev \<Rightarrow> probe multiset \<Rightarrow> probe multiset" where
  "planted_ev (Register_probe p r) M = (if 0 \<le> r then add_mset p M else M)"
| "planted_ev (Unregister_probe p) M = M - {#p#}"
| "planted_ev _ M = M"

definition planted :: "probe_ev list \<Rightarrow> probe multiset" where
  "planted tr = fold planted_ev tr {#}"

lemma planted_append [simp]: "planted (tr @ es) = fold planted_ev es (planted tr)"
  by (simp add: planted_def)

interpretation probes: registrar "register_probe env" unregister_probe "\<lambda>s. planted (evs s)" for env
  by unfold_locales (auto simp: register_probe_def unregister_probe_def kdefs)

text \<open>
  C30. \<^verbatim>\<open>jprobe_init\<close> plants its whole table and returns 0, or returns -1 with no probe of the table left
  behind; after success \<^verbatim>\<open>jprobe_exit\<close> takes exactly the table away again.
\<close>

theorem jprobe_all_or_nothing:
  "\<exists>r t. jprobe_init env wext s = (r, t) \<and>
    (r = 0 \<and> planted (evs t) = planted (evs s) + mset (jprobe_tbl wext) \<and>
       planted (evs (jprobe_exit wext t)) = planted (evs s) \<or>
     r = -1 \<and> planted (evs t) = planted (evs s))"
proof -
  obtain q t where q: "register_all (register_probe env) unregister_probe (jprobe_tbl wext) s = (q, t)" by fastforce
  have "planted (evs (fold unregister_probe (jprobe_tbl wext) t)) = planted (evs t) - mset (jprobe_tbl wext)"
    by (rule probes.unreg_fold)
  with probes.all_or_nothing [OF q] q show ?thesis
    by (auto simp: jprobe_init_def jprobe_exit_def)
qed

text \<open>The state after the symbol lookup, and \<^verbatim>\<open>kprobe_init\<close> from there on.\<close>

definition kp_looked_up :: "probe_env \<Rightarrow> probe_st \<Rightarrow> probe_st" where
  "kp_looked_up env s =
     (snd (kcall (pr_lookup env) Kallsyms_lookup s))\<lparr>kp := (kp s)\<lparr>kp_addr := pr_lookup env (evs s)\<rparr>\<rparr>"

lemma kprobe_init_eq:
  "kprobe_init env s =
     (let r3 = register_probe env Kp (kp_looked_up env s); r4 = register_probe env Kp0 (snd r3)
      in if fst r3 < 0 then r3 else if fst r4 < 0 then r4
         else register_all (register_probe env) unregister_probe kprobe_tbl (snd r4))"
  by (simp add: kprobe_init_def kp_looked_up_def kcall_def Let_def case_prod_beta)

lemma planted_looked_up [simp]: "planted (evs (kp_looked_up env s)) = planted (evs s)"
  by (simp add: kp_looked_up_def)

lemma kprobe_init_cases:
  "\<exists>r t. kprobe_init env s = (r, t) \<and>
    (r = 0 \<and> planted (evs t) = planted (evs s) + {#Kp, Kp0#} + mset kprobe_tbl \<or>
     r < 0 \<and> planted (evs t) \<in> {planted (evs s), planted (evs s) + {#Kp#}, planted (evs s) + {#Kp, Kp0#}})"
proof -
  obtain r3 s3 where r3: "register_probe env Kp (kp_looked_up env s) = (r3, s3)" by fastforce
  obtain r4 s4 where r4: "register_probe env Kp0 s3 = (r4, s4)" by fastforce
  obtain r5 s5 where r5: "register_all (register_probe env) unregister_probe kprobe_tbl s4 = (r5, s5)" by fastforce
  have "kprobe_init env s = (if r3 < 0 then (r3, s3) else if r4 < 0 then (r4, s4) else (r5, s5))"
    using r3 r4 r5 by (simp add: kprobe_init_eq Let_def)
  with probes.reg_ok [OF r3] probes.reg_fails [OF r3] probes.reg_ok [OF r4] probes.reg_fails [OF r4]
    probes.all_or_nothing [OF r5] show ?thesis by auto
qed

text \<open>Whether a probe is unregistered that is not planted.\<close>

fun probe_op :: "probe_ev \<Rightarrow> probe reg_op list" where
  "probe_op (Register_probe p r) = (if 0 \<le> r then [Add p] else [])"
| "probe_op (Unregister_probe p) = [Del p]"
| "probe_op _ = []"

definition probe_ops :: "probe_ev list \<Rightarrow> probe reg_op list" where
  "probe_ops tr = concat (map probe_op tr)"

text \<open>The history, replayed, agrees with the planted probes.\<close>

definition probes_sound :: "probe_st \<Rightarrow> bool" where
  "probes_sound s \<longleftrightarrow> (\<exists>l. reg_run (probe_ops (evs s)) [] = Some l \<and> mset l = planted (evs s))"

lemma probe_ops_append [simp]: "probe_ops (tr @ es) = probe_ops tr @ concat (map probe_op es)"
  by (simp add: probe_ops_def)

lemma probe_ops_looked_up [simp]: "probe_ops (evs (kp_looked_up env s)) = probe_ops (evs s)"
  by (simp add: kp_looked_up_def)

lemma register_probe_sound: "probes_sound s \<Longrightarrow> probes_sound (snd (register_probe env p s))"
  by (auto simp: probes_sound_def register_probe_def kdefs reg_run_append)

lemma register_from_succeeds:
  assumes "\<forall>p tr. 0 \<le> pr_register env p tr"
  shows "fst (register_from (register_probe env) todo ks s) = 0"
proof (induction todo arbitrary: ks s)
  case Nil
  then show ?case by simp
next
  case (Cons p todo)
  have "\<not> fst (register_probe env p s) < 0" using assms by (simp add: register_probe_def not_less)
  then show ?case using Cons.IH by (cases "register_probe env p s") auto
qed

lemma register_all_succeeds:
  assumes "\<forall>p tr. 0 \<le> pr_register env p tr" and "probes_sound s"
  shows "fst (register_all (register_probe env) unregister_probe tbl s) = 0 \<and>
    probes_sound (snd (register_all (register_probe env) unregister_probe tbl s))"
  using register_from_succeeds [OF assms(1), of tbl "[]" s]
    register_from_inv [of probes_sound "register_probe env" s tbl "[]", OF register_probe_sound assms(2)]
  by (auto simp: register_all_def split: prod.splits)

lemma probe_exit_ops:
  "probe_ops (evs (probe_exit wext t)) = probe_ops (evs t) @ map Del ([Kp, Kp0] @ kprobe_tbl @ jprobe_tbl wext)"
proof -
  have "probe_ops (evs (fold unregister_probe ks u)) = probe_ops (evs u) @ map Del ks" for ks u
    by (induction ks arbitrary: u) (simp_all add: unregister_probe_def)
  then show ?thesis
    by (simp add: probe_exit_def kprobe_exit_def jprobe_exit_def) (simp add: unregister_probe_def)
qed

lemma kprobe_init_sound:
  assumes "\<forall>p tr. 0 \<le> pr_register env p tr" and "probes_sound s"
  shows "fst (kprobe_init env s) = 0 \<and> probes_sound (snd (kprobe_init env s))"
proof -
  have r: "\<And>p u. \<not> fst (register_probe env p u) < 0" using assms(1) by (simp add: register_probe_def not_less)
  let ?s4 = "snd (register_probe env Kp0 (snd (register_probe env Kp (kp_looked_up env s))))"
  have "probes_sound (kp_looked_up env s)" using assms(2) by (simp add: probes_sound_def)
  then have "probes_sound ?s4" by (intro register_probe_sound)
  moreover have "kprobe_init env s = register_all (register_probe env) unregister_probe kprobe_tbl ?s4"
    using r by (simp add: kprobe_init_eq Let_def)
  ultimately show ?thesis using register_all_succeeds [OF assms(1)] by simp
qed

lemma jprobe_init_sound:
  assumes "\<forall>p tr. 0 \<le> pr_register env p tr" and "probes_sound s"
  shows "fst (jprobe_init env wext s) = 0 \<and> probes_sound (snd (jprobe_init env wext s)) \<and>
    planted (evs (snd (jprobe_init env wext s))) = planted (evs s) + mset (jprobe_tbl wext)"
proof -
  obtain q t where q: "register_all (register_probe env) unregister_probe (jprobe_tbl wext) s = (q, t)" by fastforce
  with register_all_succeeds [OF assms, of "jprobe_tbl wext"] probes.all_or_nothing [OF q] show ?thesis
    by (simp add: jprobe_init_def)
qed

lemma kprobe_init_fails:
  assumes "\<forall>tr. 0 \<le> pr_register env Kp tr" and "\<forall>tr. pr_register env p tr < 0" and "p \<in> {Kp, Kp0} \<union> set kprobe_tbl"
  shows "fst (kprobe_init env s) < 0 \<and> Kp \<in># planted (evs (snd (kprobe_init env s)))"
proof -
  have pk: "p \<noteq> Kp" using assms(1,2) by (metis not_less)
  have kp: "\<not> fst (register_probe env Kp u) < 0" and p: "fst (register_probe env p u) < 0" for u
    using assms(1,2) by (simp_all add: register_probe_def not_less)
  obtain r3 s3 where r3: "register_probe env Kp (kp_looked_up env s) = (r3, s3)" by fastforce
  obtain r4 s4 where r4: "register_probe env Kp0 s3 = (r4, s4)" by fastforce
  obtain r5 s5 where r5: "register_all (register_probe env) unregister_probe kprobe_tbl s4 = (r5, s5)" by fastforce
  have ok3: "\<not> r3 < 0" using kp [of "kp_looked_up env s"] r3 by simp
  then have e: "kprobe_init env s = (if r4 < 0 then (r4, s4) else (r5, s5))"
    using r3 r4 r5 by (simp add: kprobe_init_eq Let_def)
  have s4: "Kp \<in># planted (evs s4)"
    using ok3 probes.reg_ok [OF r3] probes.reg_ok [OF r4] probes.reg_fails [OF r4] by (cases "r4 < 0") auto
  have "r5 < 0" if "\<not> r4 < 0"
  proof -
    have "p \<noteq> Kp0" using p [of s3] r4 that by auto
    then have "p \<in> set kprobe_tbl" using assms(3) pk by simp
    then show ?thesis using register_all_stops [of p kprobe_tbl "register_probe env" unregister_probe s4] p r5 by simp
  qed
  then show ?thesis using e s4 probes.all_or_nothing [OF r5] by auto
qed

definition demo_probes :: "probe option \<Rightarrow> probe_env" where
  "demo_probes bad = \<lparr>pr_lookup = (\<lambda>_. 0xc10628b0), pr_register = (\<lambda>p _. if bad = Some p then -2 else 0)\<rparr>"

definition probe_boot :: probe_st where
  "probe_boot = \<lparr>evs = [], kp = kp_boot\<rparr>"

text \<open>
  C29. When every registration succeeds, the module plants the two single probes and both tables, and
  unloading takes exactly these away, never one that is not planted.
\<close>

theorem probe_module_lifecycle:
  assumes "\<forall>p tr. 0 \<le> pr_register env p tr" and "evs s = []"
  shows "\<exists>t. probe_init env wext s = (0, t) \<and>
    planted (evs t) = {#Kp, Kp0#} + mset kprobe_tbl + mset (jprobe_tbl wext) \<and>
    reg_run (probe_ops (evs (probe_exit wext t))) [] = Some []"
proof -
  have s0: "probes_sound s" using assms(2) by (simp add: probes_sound_def probe_ops_def planted_def)
  obtain r u where u: "kprobe_init env s = (r, u)" "probes_sound u" "r = 0 \<Longrightarrow> planted (evs u) = {#Kp, Kp0#} + mset kprobe_tbl"
    using kprobe_init_cases [of env s] kprobe_init_sound [OF assms(1) s0] assms(2)
    by (auto simp: planted_def)
  have "r = 0" using kprobe_init_sound [OF assms(1) s0] u(1) by simp
  obtain q t where t: "jprobe_init env wext u = (q, t)" by fastforce
  have "q = 0" and p: "planted (evs t) = planted (evs u) + mset (jprobe_tbl wext)" and snd: "probes_sound t"
    using t jprobe_init_sound [OF assms(1) u(2), of wext] by auto
  then obtain l where l: "reg_run (probe_ops (evs t)) [] = Some l" "mset l = planted (evs t)"
    by (auto simp: probes_sound_def)
  let ?ks = "[Kp, Kp0] @ kprobe_tbl @ jprobe_tbl wext"
  have "mset l = mset ?ks" using l(2) p u(3) \<open>r = 0\<close> by (simp add: ac_simps)
  from reg_run_dels [OF this] l(1) have "reg_run (probe_ops (evs (probe_exit wext t))) [] = Some []"
    by (simp add: probe_exit_ops reg_run_append)
  then show ?thesis using t u p \<open>r = 0\<close> by (auto simp: probe_init_def)
qed

theorem probe_module_lifecycle_witness:
  "\<exists>t. probe_init (demo_probes None) True probe_boot = (0, t) \<and> size (planted (evs t)) = 8 \<and>
     reg_run (probe_ops (evs (probe_exit True t))) [] = Some []"
proof -
  have "\<forall>p tr. 0 \<le> pr_register (demo_probes None) p tr" by (simp add: demo_probes_def)
  moreover have "length ([Kp, Kp0] @ kprobe_tbl @ jprobe_tbl True) = 8" by code_simp
  ultimately show ?thesis
    using probe_module_lifecycle [of "demo_probes None" probe_boot True] by (auto simp: probe_boot_def)
qed

text \<open>
  A failed registration is hidden. If one probe of the module cannot be registered, \<^verbatim>\<open>probe_init\<close>
  still returns 0, and unloading then unregisters that probe although it was never planted. Moreover
  \<^verbatim>\<open>kprobe_init\<close>, when it reports the failure of the second probe or of the table, leaves the probes
  planted before that in place.
\<close>

lemma probe_failure_hidden:
  assumes "\<forall>tr. pr_register env p tr < 0" and "p \<in> set ([Kp, Kp0] @ kprobe_tbl @ jprobe_tbl wext)" and "evs s = []"
    and "\<forall>tr. 0 \<le> pr_register env Kp tr" and "p \<notin> set (jprobe_tbl wext)"
  shows "\<exists>t. probe_init env wext s = (0, t) \<and> reg_run (probe_ops (evs (probe_exit wext t))) [] = None \<and>
    fst (kprobe_init env s) < 0 \<and> Kp \<in># planted (evs (snd (kprobe_init env s)))"
proof -
  define never where "never = (\<lambda>u::probe_st. Add p \<notin> set (probe_ops (evs u)))"
  have st: "\<And>k u. never u \<Longrightarrow> never (snd (register_probe env k u))" "\<And>k u. never u \<Longrightarrow> never (unregister_probe k u)"
    using assms(1) by (auto simp: never_def register_probe_def unregister_probe_def probe_ops_def kdefs not_le)
  note all = register_all_inv [of never "register_probe env" unregister_probe, OF st]
  let ?u = "snd (kprobe_init env s)" and ?t = "snd (jprobe_init env wext (snd (kprobe_init env s)))"
  have "never (kp_looked_up env s)" using assms(3) by (simp add: never_def) (simp add: probe_ops_def)
  then have "never ?u"
    using st(1) all by (simp add: kprobe_init_eq Let_def)
  then have "never ?t" using all by (simp add: jprobe_init_def case_prod_beta)
  then have "Add p \<notin> set (probe_ops (evs (probe_exit wext ?t)))" by (auto simp: never_def probe_exit_ops)
  then have "reg_run (probe_ops (evs (probe_exit wext ?t))) [] = None"
    using assms(2) by (intro reg_run_missing [of p]) (auto simp: probe_exit_ops)
  moreover have "fst (kprobe_init env s) < 0 \<and> Kp \<in># planted (evs ?u)"
    using kprobe_init_fails [OF assms(4,1)] assms(2,5) by auto
  ultimately show ?thesis by (simp add: probe_init_def)
qed

lemma probe_failure_hidden_witness:
  "\<exists>t. probe_init (demo_probes (Some (Debug_kprobe 1))) False probe_boot = (0, t) \<and>
     reg_run (probe_ops (evs (probe_exit False t))) [] = None \<and>
     Kp \<in># planted (evs (snd (kprobe_init (demo_probes (Some (Debug_kprobe 1))) probe_boot)))"
proof -
  have "Debug_kprobe 1 \<in> set ([Kp, Kp0] @ kprobe_tbl @ jprobe_tbl False)" "Debug_kprobe 1 \<notin> set (jprobe_tbl False)"
    by code_simp+
  then show ?thesis
    using probe_failure_hidden [of "demo_probes (Some (Debug_kprobe 1))" "Debug_kprobe 1" False probe_boot]
    by (auto simp: probe_boot_def demo_probes_def)
qed

end
