(* ===== verification/Fet.thy ===== *)
theory Fet
  imports KPrelude
begin

text \<open>
  \<^verbatim>\<open>funcexectime/funcexectime.c\<close>: a return probe that measures how long a kernel function takes. Each
  active call of the probed function has an instance with private data, the time of entry; up to 20 are
  active at once, on different processors or because the function calls itself. The clock and the
  registration are the environment. Times have 64 bits, the line counter is an \<^verbatim>\<open>unsigned long\<close>.

  The handlers of different calls run at the same time, and nothing protects the counter they share. The return
  handler is therefore split at its accesses to what is shared: the clock, the reading of \<^verbatim>\<open>count\<close>, the writing
  of \<^verbatim>\<open>count\<close> and the output; \<open>ret_handler\<close> is one handler on its own, and \<open>fet_step\<close> interleaves the parts of any
  number of them. Each event names the instance whose handler caused it; the line that is printed does not.
\<close>

datatype fet_ev =
    Entry_time nat u64
  | Return_time nat int u64
  | Count_read nat ulong
  | Count_write nat ulong
  | Trace nat ulong string int int
  | Register_kretprobe string nat int
  | Unregister_kretprobe

record kretprobe =
  rp_data_size :: nat
  rp_maxactive :: nat

text \<open>The private data of an instance is one time, of 8 bytes.\<close>

definition modukretp :: kretprobe where
  "modukretp = \<lparr>rp_data_size = 8, rp_maxactive = 20\<rparr>"

record fet_env =
  fe_ktime :: "fet_ev list \<Rightarrow> u64"
  fe_register :: "fet_ev list \<Rightarrow> int"

record fet_st = "fet_ev kst" +
  fet_count :: ulong
  entry_stamp :: "nat \<Rightarrow> u64"
  funcname :: string
  probe_symbol :: "string option"

section \<open>The handlers\<close>

text \<open>\<^verbatim>\<open>now = ktime_get()\<close> and the difference to the time of entry; the value of \<^verbatim>\<open>count++\<close>, its new value; the line.\<close>

definition ret_clock :: "fet_env \<Rightarrow> nat \<Rightarrow> int \<Rightarrow> fet_st \<Rightarrow> int \<times> fet_st" where
  "ret_clock env ri retval s =
     (let (now, s1) = kcall (fe_ktime env) (Return_time ri retval) s
      in (sint (now - entry_stamp s1 ri), s1))"

definition count_read :: "nat \<Rightarrow> fet_st \<Rightarrow> ulong \<times> fet_st" where
  "count_read ri s = (fet_count s, kdo (Count_read ri (fet_count s)) s)"

definition count_write :: "nat \<Rightarrow> ulong \<Rightarrow> fet_st \<Rightarrow> fet_st" where
  "count_write ri n s = (kdo (Count_write ri (n + 1)) s)\<lparr>fet_count := n + 1\<rparr>"

definition ret_print :: "nat \<Rightarrow> ulong \<Rightarrow> int \<Rightarrow> int \<Rightarrow> fet_st \<Rightarrow> fet_st" where
  "ret_print ri n retval delta s = kdo (Trace ri n (funcname s) retval delta) s"


text \<open>\<open>user\<close> is \<^verbatim>\<open>current->mm != NULL\<close>; 1 tells the kernel not to call the return handler.\<close>

definition entry_handler :: "fet_env \<Rightarrow> bool \<Rightarrow> nat \<Rightarrow> fet_st \<Rightarrow> int \<times> fet_st" where
  "entry_handler env user ri s =
     (if \<not> user then (1, s)
      else let (now, s1) = kcall (fe_ktime env) (Entry_time ri) s
           in (0, s1\<lparr>entry_stamp := (entry_stamp s1)(ri := now)\<rparr>))"

definition fet_init :: "fet_env \<Rightarrow> fet_st \<Rightarrow> int \<times> fet_st" where
  "fet_init env s =
     (let s1 = s\<lparr>probe_symbol := Some (funcname s)\<rparr>;
          (ret, s2) = kcall (fe_register env) (Register_kretprobe (funcname s) (rp_maxactive modukretp)) s1
      in if ret < 0 then (-1, s2) else (0, s2))"

definition fet_exit :: "fet_st \<Rightarrow> fet_st" where
  "fet_exit s = kdo Unregister_kretprobe s"

section \<open>Calls of the probed function\<close>

text \<open>Where the call of an instance is: the instance is free, the function runs, and the points of the return
  handler with its local variables: the return value, the duration and the number.\<close>

datatype fet_pc = Free | Active | Timed int int | Counting int int ulong | Numbered int int ulong

record fet_sys =
  fet_mod :: fet_st
  fet_pcs :: "nat \<Rightarrow> fet_pc"

text \<open>The kernel takes a free instance for a call and runs the entry handler, keeps the instance if the handler
  returns 0, runs the return handler when the function returns, and frees the instance.\<close>

inductive fet_step :: "fet_env \<Rightarrow> fet_sys \<Rightarrow> fet_sys \<Rightarrow> bool" for env where
  enter: "fet_pcs g ri = Free \<Longrightarrow> ri < rp_maxactive modukretp \<Longrightarrow> entry_handler env user ri (fet_mod g) = (r, t) \<Longrightarrow>
    fet_step env g \<lparr>fet_mod = t, fet_pcs = (fet_pcs g)(ri := if r = 0 then Active else Free)\<rparr>"
| returns: "fet_pcs g ri = Active \<Longrightarrow> ret_clock env ri v (fet_mod g) = (d, t) \<Longrightarrow>
    fet_step env g \<lparr>fet_mod = t, fet_pcs = (fet_pcs g)(ri := Timed v d)\<rparr>"
| reads: "fet_pcs g ri = Timed v d \<Longrightarrow> count_read ri (fet_mod g) = (n, t) \<Longrightarrow>
    fet_step env g \<lparr>fet_mod = t, fet_pcs = (fet_pcs g)(ri := Counting v d n)\<rparr>"
| writes: "fet_pcs g ri = Counting v d n \<Longrightarrow>
    fet_step env g \<lparr>fet_mod = count_write ri n (fet_mod g), fet_pcs = (fet_pcs g)(ri := Numbered v d n)\<rparr>"
| prints: "fet_pcs g ri = Numbered v d n \<Longrightarrow>
    fet_step env g \<lparr>fet_mod = ret_print ri n v d (fet_mod g), fet_pcs = (fet_pcs g)(ri := Free)\<rparr>"

inductive_cases fet_stepE: "fet_step env g h"

definition fet_idle :: "fet_sys \<Rightarrow> bool" where
  "fet_idle g \<longleftrightarrow> evs (fet_mod g) = [] \<and> (\<forall>ri. fet_pcs g ri = Free)"



section \<open>Durations\<close>

text \<open>The events of one instance, and those of one complete call of it.\<close>

fun instance_of :: "fet_ev \<Rightarrow> nat option" where
  "instance_of (Entry_time ri t) = Some ri"
| "instance_of (Return_time ri v t) = Some ri"
| "instance_of (Count_read ri n) = Some ri"
| "instance_of (Count_write ri n) = Some ri"
| "instance_of (Trace ri n nm v d) = Some ri"
| "instance_of _ = None"

definition instance_evs :: "nat \<Rightarrow> fet_ev list \<Rightarrow> fet_ev list" where
  "instance_evs ri tr = filter (\<lambda>e. instance_of e = Some ri) tr"





lemma instance_evs_snoc [simp]:
  "instance_evs ri (tr @ [e]) = instance_evs ri tr @ (if instance_of e = Some ri then [e] else [])"
  by (simp add: instance_evs_def)







lemmas fet_defs = entry_handler_def ret_clock_def count_read_def count_write_def ret_print_def kdefs





section \<open>The line counter\<close>

fun line_ev :: "fet_ev \<Rightarrow> ulong list" where
  "line_ev (Trace ri n nm v d) = [n]"
| "line_ev _ = []"

definition line_numbers :: "fet_ev list \<Rightarrow> ulong list" where
  "line_numbers tr = concat (map line_ev tr)"

lemma line_numbers_append [simp]: "line_numbers (tr @ es) = line_numbers tr @ concat (map line_ev es)"
  by (simp add: line_numbers_def)

text \<open>At most one handler is between reading and writing the counter.\<close>

definition one_counts :: "fet_sys \<Rightarrow> bool" where
  "one_counts g \<longleftrightarrow> (\<forall>i j v d n w e m. fet_pcs g i = Counting v d n \<longrightarrow> fet_pcs g j = Counting w e m \<longrightarrow> i = j)"

text \<open>Then the counter is ahead of every number in use, and no number is used twice.\<close>

definition numbers_ok :: "ulong list \<Rightarrow> ulong \<Rightarrow> (nat \<Rightarrow> fet_pc) \<Rightarrow> bool" where
  "numbers_ok ls c pcs \<longleftrightarrow>
     distinct ls \<and> (\<forall>n\<in>set ls. n < c) \<and> (\<forall>i v d n. pcs i = Counting v d n \<longrightarrow> n = c) \<and>
     (\<forall>i v d n. pcs i = Numbered v d n \<longrightarrow> n < c \<and> n \<notin> set ls) \<and>
     (\<forall>i j v d n w e. pcs i = Numbered v d n \<longrightarrow> pcs j = Numbered w e n \<longrightarrow> i = j)"

definition numbering_inv :: "fet_sys \<Rightarrow> bool" where
  "numbering_inv g \<longleftrightarrow> one_counts g \<and> (length (evs (fet_mod g)) < 2 ^ 64 \<longrightarrow>
     unat (fet_count (fet_mod g)) \<le> length (evs (fet_mod g)) \<and>
     numbers_ok (line_numbers (evs (fet_mod g))) (fet_count (fet_mod g)) (fet_pcs g))"

lemma numbers_other: "numbers_ok ls c pcs \<Longrightarrow> \<forall>v d n. pc \<noteq> Counting v d n \<and> pc \<noteq> Numbered v d n \<Longrightarrow> numbers_ok ls c (pcs(i := pc))"
  unfolding numbers_ok_def by auto

lemma numbers_read: "numbers_ok ls c pcs \<Longrightarrow> numbers_ok ls c (pcs(i := Counting v d c))"
  unfolding numbers_ok_def by auto

lemma numbers_write:
  assumes "numbers_ok ls c pcs" and "c < c + 1" and "\<And>j w e m. j \<noteq> i \<Longrightarrow> pcs j \<noteq> Counting w e m"
  shows "numbers_ok ls (c + 1) (pcs(i := Numbered v d c))"
proof -
  have less: "n < c + 1" if "n < c" for n using that assms(2) by simp
  have "n \<noteq> c" if "pcs j = Numbered w e n" for j w e n using assms(1) that unfolding numbers_ok_def by blast
  then show ?thesis
    using assms(1-3) less unfolding numbers_ok_def by auto
qed

lemma numbers_print:
  assumes "numbers_ok ls c pcs" and "pcs i = Numbered v d n"
  shows "numbers_ok (ls @ [n]) c (pcs(i := Free))"
  using assms unfolding numbers_ok_def by auto

lemma next_count:
  fixes n :: ulong
  assumes "unat n < 2 ^ 64 - 1"
  shows "n < n + 1" and "unat (n + 1) = Suc (unat n)"
proof -
  show u: "unat (n + 1) = Suc (unat n)" using assms by (simp add: unat_add_lem [THEN iffD1])
  then show "n < n + 1" by (simp add: word_less_nat_alt)
qed

lemma count_step_inv:
  assumes "numbering_inv g" and "fet_step env g h" and "one_counts h"
  shows "numbering_inv h"
proof (cases "length (evs (fet_mod h)) < 2 ^ 64")
  case True
  have mono: "length (evs (fet_mod g)) \<le> length (evs (fet_mod h))"
    using assms(2) by cases (auto simp: fet_defs split: if_splits)
  with True assms(1) have l: "unat (fet_count (fet_mod g)) \<le> length (evs (fet_mod g))"
    and ok: "numbers_ok (line_numbers (evs (fet_mod g))) (fet_count (fet_mod g)) (fet_pcs g)"
    unfolding numbering_inv_def by simp_all
  from assms(2) show ?thesis
  proof cases
    case (enter ri user r t)
    with l assms(3) numbers_other [OF ok, of Active] numbers_other [OF ok, of Free] show ?thesis
      by (auto simp: numbering_inv_def fet_defs split: if_splits)
  next
    case (returns ri v d t)
    with l assms(3) numbers_other [OF ok, of "Timed v d"] show ?thesis by (auto simp: numbering_inv_def fet_defs)
  next
    case (reads ri v d n t)
    with l assms(3) numbers_read [OF ok] show ?thesis by (auto simp: numbering_inv_def fet_defs)
  next
    case (writes ri v d n)
    have n: "n = fet_count (fet_mod g)" using ok writes(2) unfolding numbers_ok_def by blast
    have "unat n < 2 ^ 64 - 1" using True l n writes(1) by (simp add: fet_defs)
    note c = next_count [OF this]
    have "fet_pcs g j \<noteq> Counting w e m" if "j \<noteq> ri" for j w e m
      using assms(1) writes(2) that unfolding numbering_inv_def one_counts_def by metis
    then have "numbers_ok (line_numbers (evs (fet_mod g))) (n + 1) ((fet_pcs g)(ri := Numbered v d n))"
      using numbers_write [OF ok] c(1) n by blast
    then show ?thesis using writes(1) l n c(2) assms(3) by (simp add: numbering_inv_def fet_defs)
  next
    case (prints ri v d n)
    with l assms(3) numbers_print [OF ok prints(2)] show ?thesis by (auto simp: numbering_inv_def fet_defs)
  qed
qed (use assms(3) in \<open>simp add: numbering_inv_def\<close>)

interpretation exclusive_calls: transition_system
  "\<lambda>g. fet_idle g \<and> fet_count (fet_mod g) = 0" "\<lambda>g h. fet_step env g h \<and> one_counts h" numbering_inv
  for env
proof
  fix g assume "fet_idle g \<and> fet_count (fet_mod g) = 0"
  then show "numbering_inv g" by (auto simp: numbering_inv_def fet_idle_def one_counts_def line_numbers_def numbers_ok_def)
qed (auto intro: count_step_inv)

text \<open>Without that condition two handlers that have read the clock can take the same number.\<close>

lemma same_number_twice:
  assumes "fet_pcs g i = Timed v d" and "fet_pcs g j = Timed w e" and "i \<noteq> j"
  shows "\<exists>h. (fet_step env)\<^sup>*\<^sup>* g h \<and> line_numbers (evs (fet_mod h)) =
    line_numbers (evs (fet_mod g)) @ [fet_count (fet_mod g), fet_count (fet_mod g)]"
proof -
  let ?n = "fet_count (fet_mod g)" and ?p = "fet_pcs g"
  let ?m1 = "snd (count_read i (fet_mod g))"
  let ?m2 = "snd (count_read j ?m1)"
  let ?m4 = "count_write j ?n (count_write i ?n ?m2)"
  let ?h = "\<lparr>fet_mod = ret_print j ?n w e (ret_print i ?n v d ?m4), fet_pcs = ?p(i := Free, j := Free)\<rparr>"
  have "fet_step env g \<lparr>fet_mod = ?m1, fet_pcs = ?p(i := Counting v d ?n)\<rparr>"
    by (rule fet_step.reads [OF assms(1)]) (simp add: count_read_def)
  moreover have "fet_step env \<lparr>fet_mod = ?m1, fet_pcs = ?p(i := Counting v d ?n)\<rparr>
      \<lparr>fet_mod = ?m2, fet_pcs = ?p(i := Counting v d ?n, j := Counting w e ?n)\<rparr>"
    using fet_step.reads [of "\<lparr>fet_mod = ?m1, fet_pcs = ?p(i := Counting v d ?n)\<rparr>" j w e ?n ?m2] assms(2,3)
    by (simp add: count_read_def kdefs)
  moreover have "fet_step env \<lparr>fet_mod = ?m2, fet_pcs = ?p(i := Counting v d ?n, j := Counting w e ?n)\<rparr>
      \<lparr>fet_mod = count_write i ?n ?m2, fet_pcs = ?p(i := Numbered v d ?n, j := Counting w e ?n)\<rparr>"
    using fet_step.writes [of "\<lparr>fet_mod = ?m2, fet_pcs = ?p(i := Counting v d ?n, j := Counting w e ?n)\<rparr>" i v d ?n] assms(3)
    by (simp add: fun_upd_twist)
  moreover have "fet_step env \<lparr>fet_mod = count_write i ?n ?m2, fet_pcs = ?p(i := Numbered v d ?n, j := Counting w e ?n)\<rparr>
      \<lparr>fet_mod = ?m4, fet_pcs = ?p(i := Numbered v d ?n, j := Numbered w e ?n)\<rparr>"
    using fet_step.writes [of "\<lparr>fet_mod = count_write i ?n ?m2, fet_pcs = ?p(i := Numbered v d ?n, j := Counting w e ?n)\<rparr>" j w e ?n]
    by simp
  moreover have "fet_step env \<lparr>fet_mod = ?m4, fet_pcs = ?p(i := Numbered v d ?n, j := Numbered w e ?n)\<rparr>
      \<lparr>fet_mod = ret_print i ?n v d ?m4, fet_pcs = ?p(i := Free, j := Numbered w e ?n)\<rparr>"
    using fet_step.prints [of "\<lparr>fet_mod = ?m4, fet_pcs = ?p(i := Numbered v d ?n, j := Numbered w e ?n)\<rparr>" i v d ?n] assms(3)
    by (simp add: fun_upd_twist)
  moreover have "fet_step env \<lparr>fet_mod = ret_print i ?n v d ?m4, fet_pcs = ?p(i := Free, j := Numbered w e ?n)\<rparr> ?h"
    using fet_step.prints [of "\<lparr>fet_mod = ret_print i ?n v d ?m4, fet_pcs = ?p(i := Free, j := Numbered w e ?n)\<rparr>" j w e ?n] by simp
  ultimately have "(fet_step env)\<^sup>*\<^sup>* g ?h" by (meson converse_rtranclp_into_rtranclp rtranclp.rtrancl_refl)
  moreover have "line_numbers (evs (fet_mod ?h)) = line_numbers (evs (fet_mod g)) @ [?n, ?n]" by (simp add: fet_defs)
  ultimately show ?thesis by blast
qed

lemma one_call_timed:
  assumes "fet_pcs g ri = Free" and "ri < rp_maxactive modukretp"
  shows "\<exists>h d. (fet_step env)\<^sup>*\<^sup>* g h \<and> fet_pcs h = (fet_pcs g)(ri := Timed v d)"
proof -
  let ?m = "snd (entry_handler env True ri (fet_mod g))"
  let ?g = "\<lparr>fet_mod = ?m, fet_pcs = (fet_pcs g)(ri := Active)\<rparr>"
  have "fet_step env g ?g"
    using fet_step.enter [OF assms, of env True 0 ?m] by (simp add: entry_handler_def kdefs)
  moreover obtain d t where "ret_clock env ri v (fet_mod ?g) = (d, t)" by fastforce
  then have "fet_step env ?g \<lparr>fet_mod = t, fet_pcs = (fet_pcs g)(ri := Timed v d)\<rparr>"
    using fet_step.returns [of ?g ri env v d t] by simp
  ultimately show ?thesis by (metis converse_rtranclp_into_rtranclp rtranclp.rtrancl_refl fet_sys.select_convs(2))
qed

text \<open>
  C40. What the numbers of the lines need. In every run in which at most one return handler at a time is between reading
  and writing \<^verbatim>\<open>count\<close> no two lines have the same number (before the counter wraps around); nothing in the module
  enforces this, and from every start two calls that return at the same time can print the same number.
\<close>

theorem line_numbers_race:
  assumes "fet_idle g0" and "fet_count (fet_mod g0) = 0"
  shows "(\<forall>g. (\<lambda>g h. fet_step env g h \<and> one_counts h)\<^sup>*\<^sup>* g0 g \<longrightarrow> length (evs (fet_mod g)) < 2 ^ 64 \<longrightarrow>
      distinct (line_numbers (evs (fet_mod g)))) \<and>
    (\<exists>g. (fet_step env)\<^sup>*\<^sup>* g0 g \<and> \<not> distinct (line_numbers (evs (fet_mod g))))"
proof (intro conjI allI impI)
  fix g
  assume "(\<lambda>g h. fet_step env g h \<and> one_counts h)\<^sup>*\<^sup>* g0 g" "length (evs (fet_mod g)) < 2 ^ 64"
  then show "distinct (line_numbers (evs (fet_mod g)))"
    using exclusive_calls.reachable_inv assms unfolding numbering_inv_def numbers_ok_def by blast
next
  obtain g1 d where g1: "(fet_step env)\<^sup>*\<^sup>* g0 g1" "fet_pcs g1 = (fet_pcs g0)(0 := Timed 0 d)"
    using one_call_timed [of g0 0 env 0] assms(1) by (auto simp: fet_idle_def modukretp_def)
  obtain g2 e where g2: "(fet_step env)\<^sup>*\<^sup>* g1 g2" "fet_pcs g2 = (fet_pcs g1)(1 := Timed 0 e)"
    using one_call_timed [of g1 1 env 0] assms(1) g1(2) by (auto simp: fet_idle_def modukretp_def)
  obtain h where "(fet_step env)\<^sup>*\<^sup>* g2 h" "\<not> distinct (line_numbers (evs (fet_mod h)))"
    using same_number_twice [of g2 0 0 d 1 0 e env] g1(2) g2(2) by auto
  with g1(1) g2(1) show "\<exists>g. (fet_step env)\<^sup>*\<^sup>* g0 g \<and> \<not> distinct (line_numbers (evs (fet_mod g)))"
    by (meson rtranclp_trans)
qed

section \<open>A run\<close>

definition demo_fet :: fet_env where
  "demo_fet = \<lparr>fe_ktime = (\<lambda>tr. of_nat (min (50 * length tr) 1000)), fe_register = (\<lambda>_. 0)\<rparr>"

definition fet_boot :: fet_sys where
  "fet_boot = \<lparr>fet_mod = \<lparr>evs = [], fet_count = 0, entry_stamp = (\<lambda>_. 0), funcname = ''module_address_lookup'',
       probe_symbol = None\<rparr>, fet_pcs = (\<lambda>_. Free)\<rparr>"


lemma fet_boot_idle: "fet_idle fet_boot" "fet_count (fet_mod fet_boot) = 0"
  by (simp_all add: fet_boot_def fet_idle_def)

theorem line_numbers_race_witness:
  "\<exists>g. (fet_step demo_fet)\<^sup>*\<^sup>* fet_boot g \<and> \<not> distinct (line_numbers (evs (fet_mod g)))"
  using line_numbers_race [OF fet_boot_idle, of demo_fet] by blast







text \<open>
  \<^verbatim>\<open>fet_init\<close> registers the return probe once, for the configured function and 20 concurrent calls; it
  returns 0 or, if the kernel refuses, -1, and then nothing is registered. Entries of kernel threads
  leave no stamp and no line.
\<close>

lemma fet_init_outcome:
  "\<exists>r t ret. fet_init env s = (r, t) \<and> evs t = evs s @ [Register_kretprobe (funcname s) 20 ret] \<and>
     (r = 0 \<longleftrightarrow> 0 \<le> ret) \<and> (r = -1 \<longleftrightarrow> ret < 0) \<and> probe_symbol t = Some (funcname s) \<and>
     entry_handler env False ri s = (1, s)"
  by (simp add: fet_init_def modukretp_def kdefs entry_handler_def)

end
