(* ===== verification/Skbuff.thy ===== *)
theory Skbuff
  imports Registry
begin

text \<open>
  What the modules under \<^verbatim>\<open>nic\<close> that build packets themselves share: socket buffers as the kernel's
  documented interface presents them, the history of the calls, and the accounting of references.

  A buffer has room in front of its data and behind it. Allocation, reservation, extension at the end
  (\<^verbatim>\<open>skb_put\<close>) and at the front (\<^verbatim>\<open>skb_push\<close>) are functions of the environment; an extension that does
  not fit stops the kernel, which is the answer \<open>None\<close>. New bytes have unknown contents, and so have
  the fields of a header that the code does not set. \<open>skb_laws\<close> states the documented behaviour.
\<close>

record skbuf =
  sb_size :: nat
  sb_headroom :: nat
  sb_data :: "byte list"

datatype pk_ev =
    Pk_dev_get "addr option"
  | Pk_dev_put addr
  | Alloc_skb nat "addr option"
  | Dev_queue_xmit addr "byte list" int
  | Pk_kfree_skb addr
  | Pk_printk string nat

record pk_env =
  x_dev_get :: "pk_ev list \<Rightarrow> addr option"
  x_ll_reserved :: nat
  x_tailroom :: nat
  x_alloc_skb :: "nat \<Rightarrow> pk_ev list \<Rightarrow> (addr \<times> skbuf) option"
  x_reserve :: "nat \<Rightarrow> skbuf \<Rightarrow> skbuf"
  x_put :: "nat \<Rightarrow> skbuf \<Rightarrow> skbuf option"
  x_push :: "nat \<Rightarrow> skbuf \<Rightarrow> skbuf option"
  x_xmit :: "addr \<Rightarrow> byte list \<Rightarrow> pk_ev list \<Rightarrow> int"

record pk_st = "pk_ev kst" +
  seq :: u64
  ack_seq :: u64

definition poke :: "nat \<Rightarrow> byte list \<Rightarrow> skbuf \<Rightarrow> skbuf" where
  "poke off bs b = b\<lparr>sb_data := memcpy_at off (sb_data b) bs\<rparr>"

definition alloc_skb :: "pk_env \<Rightarrow> nat \<Rightarrow> pk_st \<Rightarrow> (addr \<times> skbuf) option \<times> pk_st" where
  "alloc_skb env n s = kcall (x_alloc_skb env n) (\<lambda>r. Alloc_skb n (map_option fst r)) s"

definition skb_laws :: "pk_env \<Rightarrow> bool" where
  "skb_laws env \<longleftrightarrow>
     (\<forall>n tr a b. x_alloc_skb env n tr = Some (a, b) \<longrightarrow> b = \<lparr>sb_size = n, sb_headroom = 0, sb_data = []\<rparr>) \<and>
     (\<forall>n b. sb_data b = [] \<longrightarrow> sb_headroom b + n \<le> sb_size b \<longrightarrow>
        x_reserve env n b = b\<lparr>sb_headroom := sb_headroom b + n\<rparr>) \<and>
     (\<forall>n b. sb_headroom b + length (sb_data b) + n \<le> sb_size b \<longrightarrow>
        (\<exists>junk. length junk = n \<and> x_put env n b = Some (b\<lparr>sb_data := sb_data b @ junk\<rparr>))) \<and>
     (\<forall>n b. n \<le> sb_headroom b \<longrightarrow>
        (\<exists>junk. length junk = n \<and>
           x_push env n b = Some (b\<lparr>sb_headroom := sb_headroom b - n, sb_data := junk @ sb_data b\<rparr>)))"

lemma skb_allocD:
  "skb_laws env \<Longrightarrow> x_alloc_skb env n tr = Some (a, b) \<Longrightarrow> b = \<lparr>sb_size = n, sb_headroom = 0, sb_data = []\<rparr>"
  unfolding skb_laws_def by blast

lemma skb_reserveD:
  "skb_laws env \<Longrightarrow> n \<le> size1 \<Longrightarrow>
   x_reserve env n \<lparr>sb_size = size1, sb_headroom = 0, sb_data = []\<rparr> = \<lparr>sb_size = size1, sb_headroom = n, sb_data = []\<rparr>"
  unfolding skb_laws_def by fastforce

lemma skb_putD:
  assumes "skb_laws env" and "sb_headroom b + length (sb_data b) + n \<le> sb_size b"
  obtains junk where "length junk = n" and "x_put env n b = Some (b\<lparr>sb_data := sb_data b @ junk\<rparr>)"
  using assms unfolding skb_laws_def by blast

lemma skb_pushD:
  assumes "skb_laws env" and "n \<le> sb_headroom b"
  obtains junk where "length junk = n"
    and "x_push env n b = Some (b\<lparr>sb_headroom := sb_headroom b - n, sb_data := junk @ sb_data b\<rparr>)"
  using assms unfolding skb_laws_def by blast

section \<open>References\<close>

text \<open>A device is held from \<^verbatim>\<open>dev_get_by_name\<close> to \<^verbatim>\<open>dev_put\<close>; a buffer is owned from its allocation until it is
  freed or handed to \<^verbatim>\<open>dev_queue_xmit\<close>, which consumes it whatever it returns.\<close>

datatype pk_ref = DevRef addr | SkbRef addr

fun pk_op :: "pk_ev \<Rightarrow> pk_ref reg_op list" where
  "pk_op (Pk_dev_get (Some d)) = [Add (DevRef d)]"
| "pk_op (Pk_dev_put d) = [Del (DevRef d)]"
| "pk_op (Alloc_skb n (Some a)) = [Add (SkbRef a)]"
| "pk_op (Dev_queue_xmit a bs r) = [Del (SkbRef a)]"
| "pk_op (Pk_kfree_skb a) = [Del (SkbRef a)]"
| "pk_op _ = []"

definition pk_ops :: "pk_ev list \<Rightarrow> pk_ref reg_op list" where
  "pk_ops tr = concat (map pk_op tr)"

lemma pk_ops_append [simp]: "pk_ops (tr @ es) = pk_ops tr @ concat (map pk_op es)"
  by (simp add: pk_ops_def)

fun frame_ev :: "pk_ev \<Rightarrow> byte list list" where
  "frame_ev (Dev_queue_xmit a bs r) = [bs]"
| "frame_ev _ = []"

definition frames :: "pk_ev list \<Rightarrow> byte list list" where
  "frames tr = concat (map frame_ev tr)"

lemma frames_append [simp]: "frames (tr @ es) = frames tr @ concat (map frame_ev es)"
  by (simp add: frames_def)

section \<open>Writing headers\<close>

text \<open>A header written over the bytes at the end of a buffer.\<close>

lemma memcpy_at_end: "length hdr = length junk \<Longrightarrow> memcpy_at (length pre) (pre @ junk) hdr = pre @ hdr"
  by (simp add: memcpy_at_def)

text \<open>An environment for concrete inputs: new bytes are zero, everything succeeds.\<close>

definition demo_pk :: "int \<Rightarrow> pk_env" where
  "demo_pk ret =
     \<lparr>x_dev_get = (\<lambda>_. Some 1), x_ll_reserved = 16, x_tailroom = 0,
      x_alloc_skb = (\<lambda>n tr. Some (100 + length tr, \<lparr>sb_size = n, sb_headroom = 0, sb_data = []\<rparr>)),
      x_reserve = (\<lambda>n b. b\<lparr>sb_headroom := sb_headroom b + n\<rparr>),
      x_put = (\<lambda>n b. if sb_headroom b + length (sb_data b) + n \<le> sb_size b
                     then Some (b\<lparr>sb_data := sb_data b @ replicate n 0\<rparr>) else None),
      x_push = (\<lambda>n b. if n \<le> sb_headroom b
                      then Some (b\<lparr>sb_headroom := sb_headroom b - n, sb_data := replicate n 0 @ sb_data b\<rparr>) else None),
      x_xmit = (\<lambda>_ _ _. ret)\<rparr>"

lemma demo_pk_laws: "skb_laws (demo_pk ret)"
  by (simp add: skb_laws_def demo_pk_def) (metis length_replicate)

end
