(* ===== verification/Packets.thy ===== *)
theory Packets
  imports Skbuff
begin

text \<open>
  \<^verbatim>\<open>nic/tcp.c\<close> and \<^verbatim>\<open>nic/udp.c\<close>: each builds one packet by hand in a socket buffer (Ethernet, IP, TCP or
  UDP header and a fixed text) and sends it when the module is loaded.

  A header is written over the bytes \<^verbatim>\<open>skb_put\<close> returns, field by field; fields the code does not set
  keep those bytes (the IP identification, the TCP flags and urgent pointer). The checksum routines
  of the kernel are parameters. The properties give the frame byte by byte and follow the references
  on the error paths.
\<close>

text \<open>The checksum routines: \<^verbatim>\<open>skb_checksum\<close> and \<^verbatim>\<open>ip_fast_csum\<close> over bytes, \<^verbatim>\<open>csum_tcpudp_magic\<close>.\<close>

record csum_env =
  c_sum :: "byte list \<Rightarrow> u32"
  c_fast :: "byte list \<Rightarrow> u16"
  c_magic :: "byte list \<Rightarrow> byte list \<Rightarrow> nat \<Rightarrow> byte \<Rightarrow> u32 \<Rightarrow> u16"

definition payload :: "byte list" where
  "payload = map (of_nat \<circ> of_char) ''i want to send a packet within kernel'' @ [0]"

definition dstmac :: "byte list" where "dstmac = [0xd4, 0x3d, 0x7e, 0x12, 0x49, 0x06]"
definition srcmac :: "byte list" where "srcmac = [0x44, 0x37, 0xe6, 0xa6, 0xd6, 0xe0]"
definition dstip :: "byte list" where "dstip = [10, 0, 3, 58]"
definition srcip :: "byte list" where "srcip = [10, 0, 1, 199]"

abbreviation SPORT :: u16 where "SPORT \<equiv> 5320"
abbreviation DPORT :: u16 where "DPORT \<equiv> 5321"
abbreviation ETH_P_IP :: u16 where "ETH_P_IP \<equiv> 0x0800"
abbreviation IPPROTO_TCP :: byte where "IPPROTO_TCP \<equiv> 6"
abbreviation IPPROTO_UDP :: byte where "IPPROTO_UDP \<equiv> 17"

lemma packet_constants [layout, simp]:
  "length payload = 38" "length dstmac = 6" "length srcmac = 6" "length dstip = 4" "length srcip = 4"
  by (simp_all add: payload_def dstmac_def srcmac_def dstip_def srcip_def)

section \<open>tcp.c\<close>

text \<open>The IP header over the old bytes \<open>j\<close>: version 4 and length 5 share the first byte; the identification
  stays as it was.\<close>

definition tcp_iphdr :: "byte list \<Rightarrow> byte list" where
  "tcp_iphdr j = [0x45, 0] @ be16 (38 + 20 + 20) @ take 2 (drop 4 j) @ [0, 0, 0x20, IPPROTO_TCP] @ [0, 0] @ srcip @ dstip"

text \<open>The TCP header; of its 13th byte only the upper half is set, the next byte holds the flags.\<close>

definition tcp_tcphdr :: "u64 \<Rightarrow> u64 \<Rightarrow> u16 \<Rightarrow> byte list \<Rightarrow> byte list" where
  "tcp_tcphdr sq ak check j =
     be16 SPORT @ be16 DPORT @ le32 (ucast sq) @ le32 (ucast ak) @
     [(j ! 12 AND 0x0F) OR 0x50, j ! 13] @ be16 5840 @ le16 check @ take 2 (drop 18 j)"

definition tcp_ethhdr :: "byte list" where
  "tcp_ethhdr = dstmac @ srcmac @ be16 ETH_P_IP"

text \<open>\<^verbatim>\<open>create_new_skb\<close> from \<^verbatim>\<open>skb_reserve\<close> to the Ethernet header. The checksum is taken before the text is
  appended, over the header alone.\<close>

definition tcp_build :: "pk_env \<Rightarrow> csum_env \<Rightarrow> u64 \<Rightarrow> u64 \<Rightarrow> skbuf \<Rightarrow> skbuf option" where
  "tcp_build env ce sq ak b =
     Option.bind (x_put env 20 (x_reserve env (x_ll_reserved env) b)) (\<lambda>b1.
       let b2 = poke 0 (tcp_iphdr (sb_data b1)) b1 in
     Option.bind (x_put env 20 b2) (\<lambda>b3.
       let j = drop 20 (sb_data b3);
           b4 = poke 20 (tcp_tcphdr sq ak 0 j) b3;
           csum = c_sum ce (drop 20 (sb_data b4));
           check = c_magic ce srcip dstip (length (sb_data b4) - 20) IPPROTO_TCP csum;
           b5 = poke 20 (tcp_tcphdr sq ak check j) b4 in
     Option.bind (x_put env (length payload) b5) (\<lambda>b6.
       let b7 = poke 40 payload b6 in
     Option.bind (x_push env 14 b7) (\<lambda>b8. Some (poke 0 tcp_ethhdr b8)))))"

definition tcp_create_new_skb :: "pk_env \<Rightarrow> csum_env \<Rightarrow> pk_st \<Rightarrow> fault + int \<times> pk_st" where
  "tcp_create_new_skb env ce s =
     (let (d, s1) = kcall (x_dev_get env) Pk_dev_get s
      in case d of
           None \<Rightarrow> Inr (-1, s1)
         | Some dev \<Rightarrow>
             (let len = length payload + x_ll_reserved env + 20 + 20 + x_tailroom env;
                  (k, s2) = alloc_skb env len s1
              in case k of
                   None \<Rightarrow> Inr (- ENOMEM, s2)
                 | Some (a, b) \<Rightarrow>
                     (case tcp_build env ce (seq s2) (ack_seq s2) b of
                        None \<Rightarrow> Inl BugOn
                      | Some b1 \<Rightarrow>
                          (let s3 = s2\<lparr>seq := seq s2 + 1\<rparr>;
                               (ret, s4) = kcall (x_xmit env a (sb_data b1)) (Dev_queue_xmit a (sb_data b1)) s3
                           in if ret < 0 then Inr (ret, kdo (Pk_dev_put dev) (kdo (Pk_kfree_skb a) s4))
                              else Inr (0, kdo (Pk_dev_put dev) s4)))))"

definition tcp_skbinit :: "pk_env \<Rightarrow> csum_env \<Rightarrow> pk_st \<Rightarrow> fault + int \<times> pk_st" where
  "tcp_skbinit env ce s = (case tcp_create_new_skb env ce s of Inl f \<Rightarrow> Inl f | Inr (_, s1) \<Rightarrow> Inr (0, s1))"

text \<open>The line it prints names the function and the line of the source.\<close>

definition tcp_skbexit :: "pk_st \<Rightarrow> pk_st" where
  "tcp_skbexit s = kdo (Pk_printk ''skbexit'' 121) s"

section \<open>udp.c\<close>

definition udp_iphdr :: "u16 \<Rightarrow> byte list \<Rightarrow> byte list" where
  "udp_iphdr check j =
     [0x45, 0] @ be16 (38 + 20 + 8) @ take 2 (drop 4 j) @ [0, 0, 0x40, IPPROTO_UDP] @ le16 check @ srcip @ dstip"

text \<open>\<^verbatim>\<open>ip_fast_csum\<close> runs over the header while its checksum field still holds the old bytes.\<close>

definition udp_ip_check :: "csum_env \<Rightarrow> byte list \<Rightarrow> u16" where
  "udp_ip_check ce j = c_fast ce (udp_iphdr (rd16 (drop 10 j)) j)"

definition udp_udphdr :: "u16 \<Rightarrow> byte list" where
  "udp_udphdr check = be16 SPORT @ be16 DPORT @ be16 (8 + 38) @ le16 check"

definition udp_ethhdr :: "byte list" where
  "udp_ethhdr = dstmac @ srcmac @ be16 ETH_P_IP"

definition udp_build :: "pk_env \<Rightarrow> csum_env \<Rightarrow> skbuf \<Rightarrow> skbuf option" where
  "udp_build env ce b =
     Option.bind (x_put env 20 (x_reserve env (x_ll_reserved env) b)) (\<lambda>b1.
       let b2 = poke 0 (udp_iphdr (udp_ip_check ce (sb_data b1)) (sb_data b1)) b1 in
     Option.bind (x_put env 8 b2) (\<lambda>b3.
       let b4 = poke 20 (udp_udphdr 0) b3;
           csum = c_sum ce (drop 20 (sb_data b4));
           check = c_magic ce srcip dstip (length (sb_data b4) - 20) IPPROTO_UDP csum;
           b5 = poke 20 (udp_udphdr check) b4 in
     Option.bind (x_put env (length payload) b5) (\<lambda>b6.
       let b7 = poke 28 payload b6 in
     Option.bind (x_push env 14 b7) (\<lambda>b8. Some (poke 0 udp_ethhdr b8)))))"

definition udp_create_new_skb :: "pk_env \<Rightarrow> csum_env \<Rightarrow> pk_st \<Rightarrow> fault + int \<times> pk_st" where
  "udp_create_new_skb env ce s =
     (let (d, s1) = kcall (x_dev_get env) Pk_dev_get s
      in case d of
           None \<Rightarrow> Inr (-1, s1)
         | Some dev \<Rightarrow>
             (let len = length payload + x_ll_reserved env + 20 + 8 + x_tailroom env;
                  (k, s2) = alloc_skb env len s1
              in case k of
                   None \<Rightarrow> Inr (- ENOMEM, s2)
                 | Some (a, b) \<Rightarrow>
                     (case udp_build env ce b of
                        None \<Rightarrow> Inl BugOn
                      | Some b1 \<Rightarrow>
                          (let (ret, s3) = kcall (x_xmit env a (sb_data b1)) (Dev_queue_xmit a (sb_data b1)) s2
                           in if ret < 0 then Inr (ret, kdo (Pk_dev_put dev) (kdo (Pk_kfree_skb a) s3))
                              else Inr (0, kdo (Pk_dev_put dev) s3)))))"

definition udp_skbinit :: "pk_env \<Rightarrow> csum_env \<Rightarrow> pk_st \<Rightarrow> fault + int \<times> pk_st" where
  "udp_skbinit env ce s = (case udp_create_new_skb env ce s of Inl f \<Rightarrow> Inl f | Inr (_, s1) \<Rightarrow> Inr (0, s1))"

definition udp_skbexit :: "pk_st \<Rightarrow> pk_st" where
  "udp_skbexit s = kdo (Pk_printk ''skbexit'' 118) s"

section \<open>The frames\<close>

lemma header_lengths [layout, simp]:
  "length j = 20 \<Longrightarrow> length (tcp_iphdr j) = 20" "length j = 20 \<Longrightarrow> length (tcp_tcphdr sq ak c j) = 20"
  "length tcp_ethhdr = 14" "length j = 20 \<Longrightarrow> length (udp_iphdr c j) = 20" "length (udp_udphdr c) = 8"
  "length udp_ethhdr = 14"
  by (simp_all add: tcp_iphdr_def tcp_tcphdr_def tcp_ethhdr_def udp_iphdr_def udp_udphdr_def udp_ethhdr_def)

definition tcp_frame :: "csum_env \<Rightarrow> u64 \<Rightarrow> u64 \<Rightarrow> byte list \<Rightarrow> byte list \<Rightarrow> byte list" where
  "tcp_frame ce sq ak j k =
     tcp_ethhdr @ tcp_iphdr j @
     tcp_tcphdr sq ak (c_magic ce srcip dstip 20 IPPROTO_TCP (c_sum ce (tcp_tcphdr sq ak 0 k))) k @ payload"

definition udp_frame :: "csum_env \<Rightarrow> byte list \<Rightarrow> byte list" where
  "udp_frame ce j =
     udp_ethhdr @ udp_iphdr (udp_ip_check ce j) j @
     udp_udphdr (c_magic ce srcip dstip 8 IPPROTO_UDP (c_sum ce (udp_udphdr 0))) @ payload"

text \<open>The bytes \<open>j\<close> that \<^verbatim>\<open>skb_put\<close> puts behind the data \<open>d\<close> of a buffer of \<open>n\<close> bytes whose link header has been reserved.\<close>

definition put_bytes :: "pk_env \<Rightarrow> nat \<Rightarrow> byte list \<Rightarrow> byte list \<Rightarrow> bool" where
  "put_bytes env n d j \<longleftrightarrow>
     x_put env (length j) \<lparr>sb_size = n, sb_headroom = x_ll_reserved env, sb_data = d\<rparr> =
       Some \<lparr>sb_size = n, sb_headroom = x_ll_reserved env, sb_data = d @ j\<rparr>"

lemma tcp_build_frame:
  assumes laws: "skb_laws env" and ll: "14 \<le> x_ll_reserved env" and sz: "38 + x_ll_reserved env + 20 + 20 \<le> n"
  shows "\<exists>j k b. tcp_build env ce sq ak \<lparr>sb_size = n, sb_headroom = 0, sb_data = []\<rparr> = Some b \<and>
    length j = 20 \<and> length k = 20 \<and> sb_data b = tcp_frame ce sq ak j k \<and>
    put_bytes env n [] j \<and> put_bytes env n (tcp_iphdr j) k"
proof -
  let ?ll = "x_ll_reserved env"
  let ?mk = "\<lambda>d. \<lparr>sb_size = n, sb_headroom = ?ll, sb_data = d\<rparr>"
  have r: "x_reserve env ?ll \<lparr>sb_size = n, sb_headroom = 0, sb_data = []\<rparr> = ?mk []"
    using skb_reserveD [OF laws] sz by simp
  obtain j where j: "length j = 20" "x_put env 20 (?mk []) = Some (?mk j)"
    using skb_putD [OF laws, of "?mk []" 20] sz by auto
  let ?ih = "tcp_iphdr j"
  obtain k where k: "length k = 20" "x_put env 20 (?mk ?ih) = Some (?mk (?ih @ k))"
    using skb_putD [OF laws, of "?mk ?ih" 20] sz j(1) by auto
  let ?c = "c_magic ce srcip dstip 20 IPPROTO_TCP (c_sum ce (tcp_tcphdr sq ak 0 k))"
  let ?th = "tcp_tcphdr sq ak ?c k"
  obtain p where p: "length p = 38" "x_put env 38 (?mk (?ih @ ?th)) = Some (?mk (?ih @ ?th @ p))"
    using skb_putD [OF laws, of "?mk (?ih @ ?th)" 38] sz j(1) k(1) by auto
  obtain q where q: "length q = 14" "x_push env 14 (?mk (?ih @ ?th @ payload)) =
      Some (\<lparr>sb_size = n, sb_headroom = ?ll - 14, sb_data = q @ ?ih @ ?th @ payload\<rparr>)"
    using skb_pushD [OF laws, of 14 "?mk (?ih @ ?th @ payload)"] ll by auto
  have pokes: "poke 0 ?ih (?mk j) = ?mk ?ih" "\<And>h. length h = 20 \<Longrightarrow> poke 20 h (?mk (?ih @ k)) = ?mk (?ih @ h)"
    "\<And>h h'. length h = 20 \<Longrightarrow> length h' = 20 \<Longrightarrow> poke 20 h (?mk (?ih @ h')) = ?mk (?ih @ h)"
    "poke 40 payload (?mk (?ih @ ?th @ p)) = ?mk (?ih @ ?th @ payload)"
    using j(1) k(1) p(1) by (simp_all add: poke_def memcpy_at_def)
  have "tcp_build env ce sq ak \<lparr>sb_size = n, sb_headroom = 0, sb_data = []\<rparr> =
      Some (poke 0 tcp_ethhdr \<lparr>sb_size = n, sb_headroom = ?ll - 14, sb_data = q @ ?ih @ ?th @ payload\<rparr>)"
    using r j k p(2) q(2) by (simp add: tcp_build_def pokes Let_def)
  then show ?thesis
    using j k q(1) by (rule_tac exI [of _ j], rule_tac exI [of _ k])
      (simp add: poke_def memcpy_at_def tcp_frame_def put_bytes_def)
qed

lemma udp_build_frame:
  assumes laws: "skb_laws env" and ll: "14 \<le> x_ll_reserved env" and sz: "38 + x_ll_reserved env + 20 + 8 \<le> n"
  shows "\<exists>j b. udp_build env ce \<lparr>sb_size = n, sb_headroom = 0, sb_data = []\<rparr> = Some b \<and>
    length j = 20 \<and> sb_data b = udp_frame ce j"
proof -
  let ?ll = "x_ll_reserved env"
  let ?mk = "\<lambda>d. \<lparr>sb_size = n, sb_headroom = ?ll, sb_data = d\<rparr>"
  have r: "x_reserve env ?ll \<lparr>sb_size = n, sb_headroom = 0, sb_data = []\<rparr> = ?mk []"
    using skb_reserveD [OF laws] sz by simp
  obtain j where j: "length j = 20" "x_put env 20 (?mk []) = Some (?mk j)"
    using skb_putD [OF laws, of "?mk []" 20] sz by auto
  let ?ih = "udp_iphdr (udp_ip_check ce j) j"
  obtain k where k: "length k = 8" "x_put env 8 (?mk ?ih) = Some (?mk (?ih @ k))"
    using skb_putD [OF laws, of "?mk ?ih" 8] sz j(1) by auto
  let ?uh = "udp_udphdr (c_magic ce srcip dstip 8 IPPROTO_UDP (c_sum ce (udp_udphdr 0)))"
  obtain p where p: "length p = 38" "x_put env 38 (?mk (?ih @ ?uh)) = Some (?mk (?ih @ ?uh @ p))"
    using skb_putD [OF laws, of "?mk (?ih @ ?uh)" 38] sz j(1) by auto
  obtain q where q: "length q = 14" "x_push env 14 (?mk (?ih @ ?uh @ payload)) =
      Some (\<lparr>sb_size = n, sb_headroom = ?ll - 14, sb_data = q @ ?ih @ ?uh @ payload\<rparr>)"
    using skb_pushD [OF laws, of 14 "?mk (?ih @ ?uh @ payload)"] ll by auto
  have pokes: "poke 0 ?ih (?mk j) = ?mk ?ih"
    "\<And>h h'. length h = 8 \<Longrightarrow> length h' = 8 \<Longrightarrow> poke 20 h (?mk (?ih @ h')) = ?mk (?ih @ h)"
    "poke 28 payload (?mk (?ih @ ?uh @ p)) = ?mk (?ih @ ?uh @ payload)"
    using j(1) k(1) p(1) by (simp_all add: poke_def memcpy_at_def)
  have "udp_build env ce \<lparr>sb_size = n, sb_headroom = 0, sb_data = []\<rparr> =
      Some (poke 0 udp_ethhdr \<lparr>sb_size = n, sb_headroom = ?ll - 14, sb_data = q @ ?ih @ ?uh @ payload\<rparr>)"
    using r j k p(2) q(2) by (simp add: udp_build_def pokes Let_def)
  then show ?thesis
    using j(1) q(1) by (rule_tac exI [of _ j]) (simp add: poke_def memcpy_at_def udp_frame_def)
qed

section \<open>Loading\<close>

lemma udp_sends:
  assumes "skb_laws env" and "14 \<le> x_ll_reserved env" and "x_dev_get env [] = Some d"
    and "\<forall>n tr. x_alloc_skb env n tr \<noteq> None" and "\<forall>a bs tr. 0 \<le> x_xmit env a bs tr" and "evs s = []"
  shows "\<exists>t j. udp_skbinit env ce s = Inr (0, t) \<and> length j = 20 \<and> frames (evs t) = [udp_frame ce j] \<and>
    reg_run (pk_ops (evs t)) [] = Some []"
proof -
  define n where "n = length payload + x_ll_reserved env + 20 + 8 + x_tailroom env"
  obtain a b where al: "x_alloc_skb env n [Pk_dev_get (Some d)] = Some (a, b)" using assms(4) by fastforce
  obtain j b1 where b1: "udp_build env ce b = Some b1" "length j = 20" "sb_data b1 = udp_frame ce j"
    using udp_build_frame [OF assms(1,2), of n ce] skb_allocD [OF assms(1) al] by (auto simp: n_def)
  let ?tr = "[Pk_dev_get (Some d), Alloc_skb n (Some a)]"
  let ?t = "s\<lparr>evs := ?tr @ [Dev_queue_xmit a (udp_frame ce j) (x_xmit env a (udp_frame ce j) ?tr), Pk_dev_put d]\<rparr>"
  have "\<not> x_xmit env a (udp_frame ce j) ?tr < 0" using assms(5) by (simp add: not_less)
  then have "udp_skbinit env ce s = Inr (0, ?t)"
    using assms(3,6) al b1 unfolding udp_skbinit_def udp_create_new_skb_def n_def [symmetric]
    by (simp add: alloc_skb_def kdefs)
  with b1(2) show ?thesis by (rule_tac exI [of _ ?t], rule_tac exI [of _ j]) (simp add: frames_def pk_ops_def)
qed

lemma tcp_sends:
  assumes "skb_laws env" and "14 \<le> x_ll_reserved env" and "x_dev_get env [] = Some d"
    and "\<forall>n tr. x_alloc_skb env n tr \<noteq> None" and "\<forall>a bs tr. 0 \<le> x_xmit env a bs tr" and "evs s = []"
  shows "\<exists>t j k n. tcp_skbinit env ce s = Inr (0, t) \<and> length j = 20 \<and> length k = 20 \<and>
    frames (evs t) = [tcp_frame ce (seq s) (ack_seq s) j k] \<and> seq t = seq s + 1 \<and> reg_run (pk_ops (evs t)) [] = Some [] \<and>
    x_ll_reserved env + 40 \<le> n \<and> put_bytes env n [] j \<and> put_bytes env n (tcp_iphdr j) k"
proof -
  define n where "n = length payload + x_ll_reserved env + 20 + 20 + x_tailroom env"
  obtain a b where al: "x_alloc_skb env n [Pk_dev_get (Some d)] = Some (a, b)" using assms(4) by fastforce
  obtain j k b1 where b1: "tcp_build env ce (seq s) (ack_seq s) b = Some b1" "length j = 20" "length k = 20"
    "sb_data b1 = tcp_frame ce (seq s) (ack_seq s) j k" "put_bytes env n [] j" "put_bytes env n (tcp_iphdr j) k"
    using tcp_build_frame [OF assms(1,2), of n ce "seq s" "ack_seq s"] skb_allocD [OF assms(1) al] by (auto simp: n_def)
  let ?fr = "tcp_frame ce (seq s) (ack_seq s) j k" and ?tr = "[Pk_dev_get (Some d), Alloc_skb n (Some a)]"
  let ?t = "s\<lparr>seq := seq s + 1, evs := ?tr @ [Dev_queue_xmit a ?fr (x_xmit env a ?fr ?tr), Pk_dev_put d]\<rparr>"
  have "\<not> x_xmit env a ?fr ?tr < 0" using assms(5) by (simp add: not_less)
  then have "tcp_skbinit env ce s = Inr (0, ?t)"
    using assms(3,6) al b1 unfolding tcp_skbinit_def tcp_create_new_skb_def n_def [symmetric]
    by (simp add: alloc_skb_def kdefs)
  with b1(2,3,5,6) show ?thesis
    by (rule_tac exI [of _ ?t], rule_tac exI [of _ j], rule_tac exI [of _ k], rule_tac exI [of _ n])
      (simp add: frames_def pk_ops_def n_def)
qed

section \<open>Properties\<close>

definition demo_csum :: csum_env where
  "demo_csum = \<lparr>c_sum = (\<lambda>bs. of_nat (sum_list (map unat bs))), c_fast = (\<lambda>bs. of_nat (sum_list (map unat bs))),
     c_magic = (\<lambda>s d n p c. ucast c + of_nat n)\<rparr>"

abbreviation pk_boot :: pk_st where
  "pk_boot \<equiv> \<lparr>evs = [], seq = 0, ack_seq = 0\<rparr>"

text \<open>
  C16. Loading the UDP module, if the device is there, memory is there and the driver accepts: exactly one
  frame is sent, never running out of the room that was allocated; it is the Ethernet header, the
  IP header (total length 66, UDP, addresses of the tables), the UDP header (length 46) and the text,
  each at its place; the device reference and the buffer are given back. The UDP checksum
  covers the 8 header bytes only, not the text.
\<close>

theorem udp_packet_sent:
  assumes "skb_laws env" and "14 \<le> x_ll_reserved env" and "x_dev_get env [] = Some d"
    and "\<forall>n tr. x_alloc_skb env n tr \<noteq> None" and "\<forall>a bs tr. 0 \<le> x_xmit env a bs tr" and "evs s = []"
  shows "\<exists>t j. udp_skbinit env ce s = Inr (0, t) \<and> frames (evs t) = [udp_frame ce j] \<and> length (udp_frame ce j) = 80 \<and>
    reg_run (pk_ops (evs t)) [] = Some [] \<and>
    drop 42 (udp_frame ce j) = payload \<and>
    take 8 (drop 34 (udp_frame ce j)) =
      be16 SPORT @ be16 DPORT @ be16 46 @ le16 (c_magic ce srcip dstip 8 IPPROTO_UDP (c_sum ce (udp_udphdr 0)))"
proof -
  obtain t j where t: "udp_skbinit env ce s = Inr (0, t)" "length j = 20" "frames (evs t) = [udp_frame ce j]"
    "reg_run (pk_ops (evs t)) [] = Some []"
    using udp_sends [OF assms] by blast
  have "length (udp_frame ce j) = 80" "drop 42 (udp_frame ce j) = payload" using t(2) by (simp_all add: udp_frame_def)
  moreover have "take 8 (drop 34 (udp_frame ce j)) = udp_udphdr (c_magic ce srcip dstip 8 IPPROTO_UDP (c_sum ce (udp_udphdr 0)))"
    using t(2) by (simp add: udp_frame_def)
  then have "take 8 (drop 34 (udp_frame ce j)) =
      be16 SPORT @ be16 DPORT @ be16 46 @ le16 (c_magic ce srcip dstip 8 IPPROTO_UDP (c_sum ce (udp_udphdr 0)))"
    by (simp add: udp_udphdr_def [of "c_magic ce srcip dstip 8 IPPROTO_UDP (c_sum ce (udp_udphdr 0))"])
  ultimately show ?thesis using t by blast
qed

theorem udp_packet_sent_witness:
  "\<exists>t j. udp_skbinit (demo_pk 0) demo_csum pk_boot = Inr (0, t) \<and> frames (evs t) = [udp_frame demo_csum j] \<and>
     reg_run (pk_ops (evs t)) [] = Some []"
  using udp_packet_sent [OF demo_pk_laws, of 0 1 pk_boot demo_csum] by (fastforce simp: demo_pk_def)

text \<open>What a new buffer holds: \<open>mem\<close> gives its bytes by their distance from its start, and \<^verbatim>\<open>skb_put\<close>, which only
  moves the end of the data, makes the next ones part of the packet.\<close>

definition buffer_holds :: "pk_env \<Rightarrow> (nat \<Rightarrow> byte) \<Rightarrow> bool" where
  "buffer_holds env mem \<longleftrightarrow>
     (\<forall>n b. let tl = sb_headroom b + length (sb_data b)
            in tl + n \<le> sb_size b \<longrightarrow> x_put env n b = Some (b\<lparr>sb_data := sb_data b @ map mem [tl..<tl + n]\<rparr>))"

lemma put_bytes_mem:
  assumes "buffer_holds env mem" and "put_bytes env n d j" and "x_ll_reserved env + length d + length j \<le> n"
  shows "j = map mem [x_ll_reserved env + length d..<x_ll_reserved env + length d + length j]"
proof -
  let ?b = "\<lparr>sb_size = n, sb_headroom = x_ll_reserved env, sb_data = d\<rparr>"
  have "x_put env (length j) ?b = Some (?b\<lparr>sb_data := d @ map mem [x_ll_reserved env + length d..<x_ll_reserved env + length d + length j]\<rparr>)"
    using assms(1,3) unfolding buffer_holds_def Let_def by (metis skbuf.select_convs)
  with assms(2) show ?thesis by (simp add: put_bytes_def)
qed

lemma two_bytes:
  assumes "n + 2 \<le> 20"
  shows "take 2 (drop n (map mem [a..<a + 20])) = [mem (a + n), mem (a + n + 1)]"
proof -
  have "take 2 (drop n [a..<a + 20]) = [a + n..<a + n + 2]" using assms by (simp add: take_upt)
  also have "\<dots> = [a + n, a + n + 1]" by (simp add: upt_rec)
  finally show ?thesis by (simp add: drop_map take_map)
qed

text \<open>
  C34. Loading the TCP module under the same conditions sends exactly one frame, given here byte by byte: the Ethernet
  header, the IP header (total length 78, TCP, checksum 0), the TCP header with the two ports, the sequence number in the
  byte order of the machine, data offset 5 and the window, and the text; the sequence number grows by one. The IP
  identification, the flags, the urgent pointer and the lower half of the byte with the data offset are the bytes
  \<open>mem\<close> that the new buffer held at their places, and the checksum covers the 20 header bytes and not the text.
\<close>

theorem tcp_packet_sent:
  assumes "skb_laws env" and "14 \<le> x_ll_reserved env" and "x_dev_get env [] = Some d"
    and "\<forall>n tr. x_alloc_skb env n tr \<noteq> None" and "\<forall>a bs tr. 0 \<le> x_xmit env a bs tr" and "evs s = []"
    and "buffer_holds env mem"
  defines "ll \<equiv> x_ll_reserved env"
  defines "hdr \<equiv> \<lambda>check. be16 5320 @ be16 5321 @ le32 (ucast (seq s)) @ le32 (ucast (ack_seq s)) @
      [(mem (ll + 32) AND 0x0F) OR 0x50, mem (ll + 33)] @ be16 5840 @ le16 check @ [mem (ll + 38), mem (ll + 39)]"
  shows "\<exists>t. tcp_skbinit env ce s = Inr (0, t) \<and> seq t = seq s + 1 \<and> reg_run (pk_ops (evs t)) [] = Some [] \<and>
    frames (evs t) =
      [dstmac @ srcmac @ be16 0x0800 @
       [0x45, 0] @ be16 78 @ [mem (ll + 4), mem (ll + 5)] @ [0, 0, 0x20, 6, 0, 0] @ srcip @ dstip @
       hdr (c_magic ce srcip dstip 20 6 (c_sum ce (hdr 0))) @ payload]"
proof -
  obtain t j k n where t: "tcp_skbinit env ce s = Inr (0, t)" "length j = 20" "length k = 20"
    "frames (evs t) = [tcp_frame ce (seq s) (ack_seq s) j k]" "seq t = seq s + 1" "reg_run (pk_ops (evs t)) [] = Some []"
    "ll + 40 \<le> n" "put_bytes env n [] j" "put_bytes env n (tcp_iphdr j) k"
    using tcp_sends [OF assms(1-6)] unfolding ll_def by blast
  have "j = map mem [ll..<ll + 20]"
    using put_bytes_mem [OF assms(7) t(8)] t(2,7) by (simp add: ll_def)
  then have j: "take 2 (drop 4 j) = [mem (ll + 4), mem (ll + 5)]"
    using two_bytes [of 4 mem ll] by (simp add: add.commute)
  have "k = map mem [ll + 20..<ll + 20 + 20]"
    using put_bytes_mem [OF assms(7) t(9)] t(2,3,7) by (simp add: ll_def)
  then have k: "k ! 12 = mem (ll + 32)" "k ! 13 = mem (ll + 33)" "take 2 (drop 18 k) = [mem (ll + 38), mem (ll + 39)]"
    using two_bytes [of 18 mem "ll + 20"] by (simp_all add: add.commute)
  have h: "tcp_tcphdr (seq s) (ack_seq s) check k = hdr check" for check
    by (simp add: tcp_tcphdr_def hdr_def k)
  then show ?thesis using t(1,4-6) by (simp add: tcp_frame_def tcp_ethhdr_def tcp_iphdr_def j h)
qed

lemma demo_pk_zero: "buffer_holds (demo_pk ret) (\<lambda>_. 0)"
  by (simp add: buffer_holds_def demo_pk_def Let_def map_replicate_const)

theorem tcp_packet_sent_witness:
  "\<exists>t fr. tcp_skbinit (demo_pk 0) demo_csum pk_boot = Inr (0, t) \<and> seq t = 1 \<and> frames (evs t) = [fr] \<and>
     take 14 (drop 34 fr) = be16 5320 @ be16 5321 @ replicate 8 0 @ [0x50, 0]"
proof -
  have "14 \<le> x_ll_reserved (demo_pk 0)" "x_dev_get (demo_pk 0) [] = Some 1" "\<forall>n tr. x_alloc_skb (demo_pk 0) n tr \<noteq> None"
    "\<forall>a bs tr. 0 \<le> x_xmit (demo_pk 0) a bs tr" "evs pk_boot = []"
    by (simp_all add: demo_pk_def)
  from tcp_packet_sent [OF demo_pk_laws this demo_pk_zero, of demo_csum] obtain t where
    t: "tcp_skbinit (demo_pk 0) demo_csum pk_boot = Inr (0, t)" "seq t = 1" and "\<exists>c. frames (evs t) =
      [dstmac @ srcmac @ be16 0x0800 @ [0x45, 0] @ be16 78 @ [0, 0] @ [0, 0, 0x20, 6, 0, 0] @ srcip @ dstip @
       (be16 5320 @ be16 5321 @ le32 0 @ le32 0 @ [0x50, 0] @ be16 5840 @ le16 c @ [0, 0]) @ payload]"
    by (simp only: pk_st.select_convs) auto
  then obtain c where "frames (evs t) =
      [(dstmac @ srcmac @ be16 0x0800 @ [0x45, 0] @ be16 78 @ [0, 0] @ [0, 0, 0x20, 6, 0, 0] @ srcip @ dstip) @
       (be16 5320 @ be16 5321 @ le32 0 @ le32 0 @ [0x50, 0]) @ be16 5840 @ le16 c @ [0, 0] @ payload]"
    by auto
  moreover have "length (dstmac @ srcmac @ be16 0x0800 @ [0x45, 0] @ be16 78 @ [0, 0] @ [0, 0, 0x20, 6, 0, 0] @ srcip @ dstip) = 34"
    "length (be16 5320 @ be16 5321 @ le32 0 @ le32 0 @ [0x50, 0]) = 14" "le32 0 @ le32 0 = replicate 8 0"
    by code_simp+
  ultimately show ?thesis using t by force
qed

text \<open>
  The error paths lose track of references. If the buffer cannot be allocated, the device
  reference is never given back; if the driver refuses the frame, the buffer, already consumed by
  \<^verbatim>\<open>dev_queue_xmit\<close>, is freed a second time. Loading reports success in both cases.
\<close>

lemma packet_error_paths:
  assumes "x_dev_get env [] = Some d" and "evs s = []"
  shows "((\<forall>n tr. x_alloc_skb env n tr = None) \<longrightarrow>
      (\<exists>t u. udp_skbinit env ce s = Inr (0, t) \<and> reg_run (pk_ops (evs t)) [] = Some [DevRef d] \<and>
             tcp_skbinit env ce s = Inr (0, u) \<and> reg_run (pk_ops (evs u)) [] = Some [DevRef d])) \<and>
    (skb_laws env \<longrightarrow> 14 \<le> x_ll_reserved env \<longrightarrow> (\<forall>n tr. x_alloc_skb env n tr \<noteq> None) \<longrightarrow>
      (\<forall>a bs tr. x_xmit env a bs tr < 0) \<longrightarrow>
      (\<exists>t u. udp_skbinit env ce s = Inr (0, t) \<and> reg_run (pk_ops (evs t)) [] = None \<and>
             tcp_skbinit env ce s = Inr (0, u) \<and> reg_run (pk_ops (evs u)) [] = None))"
proof (intro conjI impI)
  assume "\<forall>n tr. x_alloc_skb env n tr = None"
  then show "\<exists>t u. udp_skbinit env ce s = Inr (0, t) \<and> reg_run (pk_ops (evs t)) [] = Some [DevRef d] \<and>
             tcp_skbinit env ce s = Inr (0, u) \<and> reg_run (pk_ops (evs u)) [] = Some [DevRef d]"
    using assms by (simp add: udp_skbinit_def udp_create_new_skb_def tcp_skbinit_def tcp_create_new_skb_def alloc_skb_def kdefs pk_ops_def)
next
  assume laws: "skb_laws env" and ll: "14 \<le> x_ll_reserved env" and mem: "\<forall>n tr. x_alloc_skb env n tr \<noteq> None"
    and no: "\<forall>a bs tr. x_xmit env a bs tr < 0"
  define n where "n = length payload + x_ll_reserved env + 20 + 8 + x_tailroom env"
  define m where "m = length payload + x_ll_reserved env + 20 + 20 + x_tailroom env"
  obtain a b where al: "x_alloc_skb env n [Pk_dev_get (Some d)] = Some (a, b)" using mem by fastforce
  obtain a' b' where al': "x_alloc_skb env m [Pk_dev_get (Some d)] = Some (a', b')" using mem by fastforce
  obtain b1 where b1: "udp_build env ce b = Some b1"
    using udp_build_frame [OF laws ll, of n ce] skb_allocD [OF laws al] by (auto simp: n_def)
  obtain b2 where b2: "tcp_build env ce (seq s) (ack_seq s) b' = Some b2"
    using tcp_build_frame [OF laws ll, of m ce "seq s" "ack_seq s"] skb_allocD [OF laws al'] by (auto simp: m_def)
  have "\<exists>t. udp_skbinit env ce s = Inr (0, t) \<and> reg_run (pk_ops (evs t)) [] = None"
    using assms al b1 no unfolding udp_skbinit_def udp_create_new_skb_def n_def [symmetric]
    by (simp add: alloc_skb_def kdefs pk_ops_def)
  moreover have "\<exists>u. tcp_skbinit env ce s = Inr (0, u) \<and> reg_run (pk_ops (evs u)) [] = None"
    using assms al' b2 no unfolding tcp_skbinit_def tcp_create_new_skb_def m_def [symmetric]
    by (simp add: alloc_skb_def kdefs pk_ops_def)
  ultimately show "\<exists>t u. udp_skbinit env ce s = Inr (0, t) \<and> reg_run (pk_ops (evs t)) [] = None \<and>
             tcp_skbinit env ce s = Inr (0, u) \<and> reg_run (pk_ops (evs u)) [] = None" by blast
qed

lemma packet_error_paths_witness:
  "\<exists>t u. udp_skbinit (demo_pk (-1)) demo_csum pk_boot = Inr (0, t) \<and> reg_run (pk_ops (evs t)) [] = None \<and>
     tcp_skbinit (demo_pk (-1)) demo_csum pk_boot = Inr (0, u) \<and> reg_run (pk_ops (evs u)) [] = None"
proof -
  have "14 \<le> x_ll_reserved (demo_pk (-1))" "\<forall>n tr. x_alloc_skb (demo_pk (-1)) n tr \<noteq> None"
    "\<forall>a bs tr. x_xmit (demo_pk (-1)) a bs tr < 0" "x_dev_get (demo_pk (-1)) [] = Some 1"
    by (simp_all add: demo_pk_def)
  then show ?thesis
    using packet_error_paths [of "demo_pk (-1)" 1 pk_boot demo_csum] demo_pk_laws [of "-1"] by simp
qed

end
