(* ===== verification/Garp.thy ===== *)
theory Garp
  imports Skbuff
begin

text \<open>
  \<^verbatim>\<open>nic/garp.c\<close>: on loading, the module announces the addresses of the device \<^verbatim>\<open>eth0\<close> with gratuitous ARP
  requests, three times over. The device is a record of the fields the code reads; the list of
  its addresses, \<^verbatim>\<open>eth_header\<close> and the length of an ARP packet come from the kernel and are parameters.

  In \<open>garp_create\<close> the pointer \<^verbatim>\<open>arp\<close> leads to the bytes \<^verbatim>\<open>skb_put\<close> returned; \<^verbatim>\<open>eth_header\<close> then extends the
  buffer at the front, so the ARP part is always its last \<^verbatim>\<open>arp_hdr_len(dev)\<close> bytes.
\<close>

record garp_dev =
  gd_addr :: addr
  gd_type :: u16
  gd_addr_len :: nat
  gd_dev_addr :: "byte list"
  gd_broadcast :: "byte list"

record garp_env = pk_env +
  x_dev :: garp_dev
  x_ifaddrs :: "byte list list option"
  x_arp_hdr_len :: nat
  x_eth_header :: "skbuf \<Rightarrow> byte list \<Rightarrow> byte list \<Rightarrow> nat \<Rightarrow> int \<times> skbuf"

abbreviation penv :: "garp_env \<Rightarrow> pk_env" where
  "penv env \<equiv> pk_env.truncate env"

text \<open>The ARP part over the old bytes: hardware type, protocol IPv4, the two lengths, request, then sender and
  target.\<close>

definition arp_part :: "garp_dev \<Rightarrow> byte list \<Rightarrow> byte list \<Rightarrow> byte list option \<Rightarrow> byte list \<Rightarrow> byte list" where
  "arp_part dev src_hw src_ip target_hw dest_ip =
     be16 (gd_type dev) @ be16 0x0800 @ [of_nat (gd_addr_len dev), 4] @ be16 1 @
     take (gd_addr_len dev) src_hw @ src_ip @
     (case target_hw of Some hw \<Rightarrow> take (gd_addr_len dev) hw | None \<Rightarrow> replicate (gd_addr_len dev) 0) @ dest_ip"

definition garp_create ::
  "garp_env \<Rightarrow> byte list \<Rightarrow> garp_dev \<Rightarrow> byte list \<Rightarrow> byte list option \<Rightarrow> byte list option \<Rightarrow> byte list option \<Rightarrow> pk_st \<Rightarrow>
   fault + (addr \<times> skbuf) option \<times> pk_st" where
  "garp_create env dest_ip dev src_ip dest_hw src_hw target_hw s =
     (let hlen = x_ll_reserved env;
          tlen = x_tailroom env;
          (r, s1) = alloc_skb (penv env) (x_arp_hdr_len env + hlen + tlen) s
      in case r of
           None \<Rightarrow> Inr (None, s1)
         | Some (a, b) \<Rightarrow>
             (case x_put env (x_arp_hdr_len env) (x_reserve env hlen b) of
                None \<Rightarrow> Inl BugOn
              | Some b1 \<Rightarrow>
                  (let src = (case src_hw of None \<Rightarrow> gd_dev_addr dev | Some hw \<Rightarrow> hw);
                       dest = (case dest_hw of None \<Rightarrow> gd_broadcast dev | Some hw \<Rightarrow> hw);
                       (e, b2) = x_eth_header env b1 dest src (length (sb_data b1))
                   in if e < 0 then Inr (None, kdo (Pk_kfree_skb a) s1)
                      else let off = length (sb_data b2) - x_arp_hdr_len env
                           in Inr (Some (a, poke off (arp_part dev src src_ip target_hw dest_ip) b2), s1))))"

definition garp_xmit :: "garp_env \<Rightarrow> addr \<Rightarrow> skbuf \<Rightarrow> pk_st \<Rightarrow> int \<times> pk_st" where
  "garp_xmit env a b s = kcall (x_xmit env a (sb_data b)) (Dev_queue_xmit a (sb_data b)) s"

definition garp_send ::
  "garp_env \<Rightarrow> byte list \<Rightarrow> garp_dev \<Rightarrow> byte list \<Rightarrow> byte list option \<Rightarrow> byte list option \<Rightarrow> byte list option \<Rightarrow> pk_st \<Rightarrow>
   fault + pk_st" where
  "garp_send env dest_ip dev src_ip dest_hw src_hw target_hw s =
     (case garp_create env dest_ip dev src_ip dest_hw src_hw target_hw s of
        Inl f \<Rightarrow> Inl f
      | Inr (None, s1) \<Rightarrow> Inr s1
      | Inr (Some (a, b), s1) \<Rightarrow>
          (let (r, s2) = garp_xmit env a b s1
           in Inr (if r < 0 then kdo (Pk_kfree_skb a) s2 else s2)))"

text \<open>The loop over the addresses of the device.\<close>

fun garp_loop :: "garp_env \<Rightarrow> garp_dev \<Rightarrow> byte list list \<Rightarrow> pk_st \<Rightarrow> fault + pk_st" where
  "garp_loop env dev [] s = Inr s"
| "garp_loop env dev (ip # ips) s =
     (case garp_send env ip dev ip None (Some (gd_dev_addr dev)) None s of
        Inl f \<Rightarrow> Inl f
      | Inr s1 \<Rightarrow> garp_loop env dev ips s1)"

definition garp_send_gratuitous_arp :: "garp_env \<Rightarrow> garp_dev \<Rightarrow> pk_st \<Rightarrow> fault + pk_st" where
  "garp_send_gratuitous_arp env dev s =
     (case x_ifaddrs env of None \<Rightarrow> Inl NullDeref | Some ips \<Rightarrow> garp_loop env dev ips s)"

definition and_then :: "fault + 's \<Rightarrow> ('s \<Rightarrow> fault + 't) \<Rightarrow> fault + 't" where
  "and_then r f = (case r of Inl e \<Rightarrow> Inl e | Inr s \<Rightarrow> f s)"

definition garp_init :: "garp_env \<Rightarrow> pk_st \<Rightarrow> fault + int \<times> pk_st" where
  "garp_init env s =
     (let (d, s1) = kcall (x_dev_get env) Pk_dev_get s
      in case d of
           None \<Rightarrow> Inr (-1, s1)
         | Some dev \<Rightarrow>
             and_then (garp_send_gratuitous_arp env (x_dev env) s1) (\<lambda>s2.
             and_then (garp_send_gratuitous_arp env (x_dev env) s2) (\<lambda>s3.
             and_then (garp_send_gratuitous_arp env (x_dev env) s3) (\<lambda>s4.
             Inr (0, kdo (Pk_dev_put dev) s4)))))"

definition garp_exit :: "pk_st \<Rightarrow> pk_st" where
  "garp_exit s = kdo (Pk_printk ''garp_exit'' 143) s"

section \<open>The documented behaviour of the kernel's part\<close>

definition garp_laws :: "garp_env \<Rightarrow> bool" where
  "garp_laws env \<longleftrightarrow> skb_laws (penv env) \<and> 14 \<le> x_ll_reserved env \<and>
     x_arp_hdr_len env = 8 + 2 * (gd_addr_len (x_dev env) + 4) \<and>
     length (gd_dev_addr (x_dev env)) = gd_addr_len (x_dev env) \<and>
     (\<forall>ips. x_ifaddrs env = Some ips \<longrightarrow> list_all (\<lambda>ip. length ip = 4) ips) \<and>
     (\<forall>b dest src n. 14 \<le> sb_headroom b \<longrightarrow>
        x_eth_header env b dest src n =
          (14, b\<lparr>sb_headroom := sb_headroom b - 14,
                sb_data := take 6 dest @ take 6 src @ be16 0x0806 @ sb_data b\<rparr>))"

definition garp_frame :: "garp_dev \<Rightarrow> byte list \<Rightarrow> byte list" where
  "garp_frame dev ip =
     take 6 (gd_broadcast dev) @ take 6 (gd_dev_addr dev) @ be16 0x0806 @
     be16 (gd_type dev) @ be16 0x0800 @ [of_nat (gd_addr_len dev), 4] @ be16 1 @
     gd_dev_addr dev @ ip @ replicate (gd_addr_len dev) 0 @ ip"

lemma penv_simps [simp]:
  "x_alloc_skb (penv env) = x_alloc_skb env" "x_put (penv env) = x_put env" "x_reserve (penv env) = x_reserve env"
  by (simp_all add: pk_env.truncate_def)

lemma garp_create_frame:
  assumes laws: "garp_laws env" and ip: "length ip = 4"
    and al: "x_alloc_skb env (x_arp_hdr_len env + x_ll_reserved env + x_tailroom env) (evs s) = Some (a, b)"
  shows "\<exists>b'. garp_create env ip (x_dev env) ip None (Some (gd_dev_addr (x_dev env))) None s =
    Inr (Some (a, b'), s\<lparr>evs := evs s @ [Alloc_skb (x_arp_hdr_len env + x_ll_reserved env + x_tailroom env) (Some a)]\<rparr>) \<and>
    sb_data b' = garp_frame (x_dev env) ip"
proof -
  define n where "n = x_arp_hdr_len env + x_ll_reserved env + x_tailroom env"
  let ?ll = "x_ll_reserved env" and ?h = "x_arp_hdr_len env" and ?d = "x_dev env"
  have sk: "skb_laws (penv env)" and ll: "14 \<le> ?ll" and h: "?h = 8 + 2 * (gd_addr_len ?d + 4)"
    and hw: "length (gd_dev_addr ?d) = gd_addr_len ?d"
    using laws by (simp_all add: garp_laws_def)
  let ?mk = "\<lambda>d. \<lparr>sb_size = n, sb_headroom = ?ll, sb_data = d\<rparr>"
  have b: "b = \<lparr>sb_size = n, sb_headroom = 0, sb_data = []\<rparr>" using skb_allocD [OF sk] al by (simp add: n_def)
  have r: "x_reserve env ?ll b = ?mk []" using skb_reserveD [OF sk, of ?ll n] b by (simp add: n_def)
  obtain j where j: "length j = ?h" "x_put env ?h (?mk []) = Some (?mk j)"
    using skb_putD [OF sk, of "?mk []" ?h] by (auto simp: n_def)
  let ?hd = "take 6 (gd_broadcast ?d) @ take 6 (gd_dev_addr ?d) @ be16 0x0806"
  have e: "x_eth_header env (?mk j) (gd_broadcast ?d) (gd_dev_addr ?d) ?h = (14, \<lparr>sb_size = n, sb_headroom = ?ll - 14, sb_data = ?hd @ j\<rparr>)"
    using laws ll by (simp add: garp_laws_def)
  let ?arp = "arp_part ?d (gd_dev_addr ?d) ip None ip"
  have la: "length ?arp = ?h" using h hw ip by (simp add: arp_part_def)
  have "memcpy_at (length ?hd) (?hd @ j) ?arp = ?hd @ ?arp" by (rule memcpy_at_end) (simp only: la j(1))
  moreover have "length (?hd @ j) - ?h = length ?hd" using j(1) by simp
  ultimately have p: "poke (length (?hd @ j) - ?h) ?arp \<lparr>sb_size = n, sb_headroom = ?ll - 14, sb_data = ?hd @ j\<rparr> =
      \<lparr>sb_size = n, sb_headroom = ?ll - 14, sb_data = ?hd @ ?arp\<rparr>"
    by (simp only: poke_def skbuf.simps)
  have "garp_create env ip ?d ip None (Some (gd_dev_addr ?d)) None s =
      Inr (Some (a, \<lparr>sb_size = n, sb_headroom = ?ll - 14, sb_data = ?hd @ ?arp\<rparr>), s\<lparr>evs := evs s @ [Alloc_skb n (Some a)]\<rparr>)"
    using al r j e p unfolding garp_create_def Let_def n_def [symmetric] by (simp add: alloc_skb_def kcall_def Let_def)
  moreover have "?hd @ ?arp = garp_frame ?d ip" using hw by (simp add: garp_frame_def arp_part_def)
  ultimately show ?thesis by (simp add: n_def)
qed

lemma garp_send_one:
  assumes "garp_laws env" and "length ip = 4" and "\<forall>n tr. x_alloc_skb env n tr \<noteq> None" and "\<forall>a bs tr. 0 \<le> x_xmit env a bs tr"
  shows "\<exists>t. garp_send env ip (x_dev env) ip None (Some (gd_dev_addr (x_dev env))) None s = Inr t \<and>
    frames (evs t) = frames (evs s) @ [garp_frame (x_dev env) ip] \<and>
    (\<forall>l. reg_run (pk_ops (evs s)) [] = Some l \<longrightarrow> reg_run (pk_ops (evs t)) [] = Some l)"
proof -
  obtain a b where al: "x_alloc_skb env (x_arp_hdr_len env + x_ll_reserved env + x_tailroom env) (evs s) = Some (a, b)"
    using assms(3) by fastforce
  obtain b' where c: "garp_create env ip (x_dev env) ip None (Some (gd_dev_addr (x_dev env))) None s =
    Inr (Some (a, b'), s\<lparr>evs := evs s @ [Alloc_skb (x_arp_hdr_len env + x_ll_reserved env + x_tailroom env) (Some a)]\<rparr>)"
    "sb_data b' = garp_frame (x_dev env) ip"
    using garp_create_frame [OF assms(1,2) al] by blast
  have "\<And>a bs tr. \<not> x_xmit env a bs tr < 0" using assms(4) by (simp add: not_less)
  then show ?thesis
    using c by (simp add: garp_send_def garp_xmit_def kdefs reg_run_append)
qed

lemma garp_loop_all:
  assumes "garp_laws env" and "\<forall>n tr. x_alloc_skb env n tr \<noteq> None" and "\<forall>a bs tr. 0 \<le> x_xmit env a bs tr"
    and "list_all (\<lambda>ip. length ip = 4) ips"
  shows "\<exists>t. garp_loop env (x_dev env) ips s = Inr t \<and>
    frames (evs t) = frames (evs s) @ map (garp_frame (x_dev env)) ips \<and>
    (\<forall>l. reg_run (pk_ops (evs s)) [] = Some l \<longrightarrow> reg_run (pk_ops (evs t)) [] = Some l)"
  using assms(4)
proof (induction ips arbitrary: s)
  case Nil
  then show ?case by simp
next
  case (Cons ip ips)
  obtain u where u: "garp_send env ip (x_dev env) ip None (Some (gd_dev_addr (x_dev env))) None s = Inr u"
    "frames (evs u) = frames (evs s) @ [garp_frame (x_dev env) ip]"
    "\<forall>l. reg_run (pk_ops (evs s)) [] = Some l \<longrightarrow> reg_run (pk_ops (evs u)) [] = Some l"
    using garp_send_one [OF assms(1) _ assms(2,3)] Cons.prems by fastforce
  with Cons.IH [of u] Cons.prems show ?case by auto
qed

text \<open>
  C22. Loading the module, with the device, memory and an accepting driver: every address of the device is
  announced exactly three times, in three rounds over the list; each frame is a broadcast ARP request
  whose sender and target address are the announced one; every buffer is handed over and the
  device reference given back.
\<close>

theorem garp_announces_three_times:
  assumes "garp_laws env" and "x_ifaddrs env = Some ips" and "x_dev_get env [] = Some d"
    and "\<forall>n tr. x_alloc_skb env n tr \<noteq> None" and "\<forall>a bs tr. 0 \<le> x_xmit env a bs tr" and "evs s = []"
  shows "\<exists>t. garp_init env s = Inr (0, t) \<and>
    frames (evs t) = concat (replicate 3 (map (garp_frame (x_dev env)) ips)) \<and>
    reg_run (pk_ops (evs t)) [] = Some []"
proof -
  have ips: "list_all (\<lambda>ip. length ip = 4) ips" using assms(1,2) by (simp add: garp_laws_def)
  note loop = garp_loop_all [OF assms(1,4,5) ips]
  let ?f = "map (garp_frame (x_dev env)) ips"
  let ?s1 = "s\<lparr>evs := [Pk_dev_get (Some d)]\<rparr>"
  obtain s2 where s2: "garp_loop env (x_dev env) ips ?s1 = Inr s2" "frames (evs s2) = ?f" "reg_run (pk_ops (evs s2)) [] = Some [DevRef d]"
    using loop [of ?s1] by (auto simp: frames_def pk_ops_def)
  obtain s3 where s3: "garp_loop env (x_dev env) ips s2 = Inr s3" "frames (evs s3) = ?f @ ?f" "reg_run (pk_ops (evs s3)) [] = Some [DevRef d]"
    using loop [of s2] s2 by auto
  obtain s4 where s4: "garp_loop env (x_dev env) ips s3 = Inr s4" "frames (evs s4) = ?f @ ?f @ ?f" "reg_run (pk_ops (evs s4)) [] = Some [DevRef d]"
    using loop [of s3] s3 by auto
  have "garp_init env s = Inr (0, kdo (Pk_dev_put d) s4)"
    using assms(2,3,6) s2(1) s3(1) s4(1)
    by (simp add: garp_init_def garp_send_gratuitous_arp_def and_then_def kcall_def Let_def)
  then show ?thesis
    using s4(2,3) by (simp add: numeral_3_eq_3 reg_run_append)
qed

definition demo_garp :: garp_env where
  "demo_garp = pk_env.extend (demo_pk 0)
     \<lparr>x_dev = \<lparr>gd_addr = 1, gd_type = 1, gd_addr_len = 6, gd_dev_addr = [2, 0, 0, 0, 0, 1], gd_broadcast = replicate 32 0xFF\<rparr>,
      x_ifaddrs = Some [[10, 0, 0, 7]], x_arp_hdr_len = 28,
      x_eth_header = (\<lambda>b dest src n. if 14 \<le> sb_headroom b
        then (14, b\<lparr>sb_headroom := sb_headroom b - 14, sb_data := take 6 dest @ take 6 src @ be16 0x0806 @ sb_data b\<rparr>)
        else (-14, b))\<rparr>"

lemma demo_garp_laws: "garp_laws demo_garp"
  using demo_pk_laws [of 0]
  by (simp add: garp_laws_def demo_garp_def pk_env.extend_def demo_pk_def pk_env.truncate_def)

theorem garp_announces_three_times_witness:
  "\<exists>t. garp_init demo_garp \<lparr>evs = [], seq = 0, ack_seq = 0\<rparr> = Inr (0, t) \<and> length (frames (evs t)) = 3 \<and>
     reg_run (pk_ops (evs t)) [] = Some []"
proof -
  have "x_ifaddrs demo_garp = Some [[10, 0, 0, 7]]" "x_dev_get demo_garp [] = Some 1"
    "\<forall>n tr. x_alloc_skb demo_garp n tr \<noteq> None" "\<forall>a bs tr. 0 \<le> x_xmit demo_garp a bs tr"
    by (simp_all add: demo_garp_def pk_env.extend_def demo_pk_def)
  from garp_announces_three_times [OF demo_garp_laws this, of "\<lparr>evs = [], seq = 0, ack_seq = 0\<rparr>"]
  show ?thesis by (auto simp: numeral_3_eq_3)
qed

end
