(* ===== verification/Notifier.thy ===== *)
theory Notifier
  imports KPrelude
begin

text \<open>
  The three modules under \<^verbatim>\<open>notifierchain\<close>: \<^verbatim>\<open>buildchain.c\<close> owns a notifier chain and exports functions to
  register, unregister and call; \<^verbatim>\<open>regchain.c\<close> registers three callbacks when it is loaded and removes
  them when it is unloaded; \<^verbatim>\<open>notify.c\<close> calls the chain with the events 1 and 2 when it is loaded.

  The chain operations of the kernel are the parameter \<open>chain_api\<close>, over the chain as a list of blocks;
  calling the chain takes the callbacks as an argument. \<open>chain_laws\<close> states their documented
  behaviour for blocks of equal priority.
\<close>

datatype notifier_block = Test_notifier1 | Test_notifier2 | Test_notifier3

datatype nt_ev = Log_event nat nat | Log_text string

record nt_st = "nt_ev kst" +
  test_chain :: "notifier_block list"

type_synonym callback = "notifier_block \<Rightarrow> nat \<Rightarrow> nt_st \<Rightarrow> int \<times> nt_st"

record chain_api =
  raw_register :: "notifier_block \<Rightarrow> notifier_block list \<Rightarrow> int \<times> notifier_block list"
  raw_unregister :: "notifier_block \<Rightarrow> notifier_block list \<Rightarrow> int \<times> notifier_block list"
  raw_call :: "callback \<Rightarrow> notifier_block list \<Rightarrow> nat \<Rightarrow> nt_st \<Rightarrow> int \<times> nt_st"

section \<open>buildchain.c\<close>

definition register_test_notifier :: "chain_api \<Rightarrow> notifier_block \<Rightarrow> nt_st \<Rightarrow> int \<times> nt_st" where
  "register_test_notifier api nb s =
     (case raw_register api nb (test_chain s) of (r, c) \<Rightarrow> (r, s\<lparr>test_chain := c\<rparr>))"

definition unregister_test_notifier :: "chain_api \<Rightarrow> notifier_block \<Rightarrow> nt_st \<Rightarrow> int \<times> nt_st" where
  "unregister_test_notifier api nb s =
     (case raw_unregister api nb (test_chain s) of (r, c) \<Rightarrow> (r, s\<lparr>test_chain := c\<rparr>))"

definition test_notifier_call_chain :: "chain_api \<Rightarrow> callback \<Rightarrow> nat \<Rightarrow> nt_st \<Rightarrow> int \<times> nt_st" where
  "test_notifier_call_chain api cb val s = raw_call api cb (test_chain s) val s"

definition init_notifier :: "nt_st \<Rightarrow> int \<times> nt_st" where
  "init_notifier s = (0, kdo (Log_text ''init_notifier'') s)"

definition exit_notifier :: "nt_st \<Rightarrow> nt_st" where
  "exit_notifier s = kdo (Log_text ''exit_notifier'') s"

section \<open>regchain.c\<close>

definition test_event1 :: "nat \<Rightarrow> nt_st \<Rightarrow> int \<times> nt_st" where
  "test_event1 event s = (0, kdo (Log_event 1 event) s)"

definition test_event2 :: "nat \<Rightarrow> nt_st \<Rightarrow> int \<times> nt_st" where
  "test_event2 event s = (0, kdo (Log_event 2 event) s)"

definition test_event3 :: "nat \<Rightarrow> nt_st \<Rightarrow> int \<times> nt_st" where
  "test_event3 event s = (0, kdo (Log_event 3 event) s)"

text \<open>The field \<^verbatim>\<open>notifier_call\<close> of the three blocks.\<close>

fun notifier_call :: callback where
  "notifier_call Test_notifier1 = test_event1"
| "notifier_call Test_notifier2 = test_event2"
| "notifier_call Test_notifier3 = test_event3"

definition reg_notifier :: "chain_api \<Rightarrow> nt_st \<Rightarrow> int \<times> nt_st" where
  "reg_notifier api s =
     (let (err, s1) = register_test_notifier api Test_notifier1 s
      in if err \<noteq> 0 then (-1, s1)
         else let (err, s2) = register_test_notifier api Test_notifier2 s1
      in if err \<noteq> 0 then (-1, s2)
         else let (err, s3) = register_test_notifier api Test_notifier3 s2
      in if err \<noteq> 0 then (-1, s3) else (err, s3))"

definition unregister_notifier :: "chain_api \<Rightarrow> nt_st \<Rightarrow> nt_st" where
  "unregister_notifier api s =
     snd (unregister_test_notifier api Test_notifier3
       (snd (unregister_test_notifier api Test_notifier2 (snd (unregister_test_notifier api Test_notifier1 s)))))"

section \<open>notify.c\<close>

definition call_notifier :: "chain_api \<Rightarrow> nt_st \<Rightarrow> int \<times> nt_st" where
  "call_notifier api s =
     (let (err, s1) = test_notifier_call_chain api notifier_call 1 s
      in test_notifier_call_chain api notifier_call 2 s1)"

definition uncall_notifier :: "nt_st \<Rightarrow> nt_st" where
  "uncall_notifier s = kdo (Log_text ''End notify'') s"

section \<open>The documented behaviour of a chain\<close>

fun call_all :: "callback \<Rightarrow> notifier_block list \<Rightarrow> nat \<Rightarrow> int \<Rightarrow> nt_st \<Rightarrow> int \<times> nt_st" where
  "call_all cb [] val r s = (r, s)"
| "call_all cb (nb # nbs) val r s = (case cb nb val s of (r1, s1) \<Rightarrow> call_all cb nbs val r1 s1)"

definition chain_laws :: "chain_api \<Rightarrow> bool" where
  "chain_laws api \<longleftrightarrow>
     (\<forall>nb c. fst (raw_register api nb c) = 0 \<longrightarrow> snd (raw_register api nb c) = c @ [nb]) \<and>
     (\<forall>nb c. fst (raw_register api nb c) \<noteq> 0 \<longrightarrow> snd (raw_register api nb c) = c) \<and>
     (\<forall>nb c. snd (raw_unregister api nb c) = remove1 nb c) \<and>
     (\<forall>cb c val s. (\<forall>nb v u. fst (cb nb v u) = 0) \<longrightarrow> raw_call api cb c val s = call_all cb c val 0 s)"

definition list_chain :: chain_api where
  "list_chain = \<lparr>raw_register = (\<lambda>nb c. (0, c @ [nb])), raw_unregister = (\<lambda>nb c. (0, remove1 nb c)),
     raw_call = (\<lambda>cb c val s. call_all cb c val 0 s)\<rparr>"

lemma list_chain_laws: "chain_laws list_chain"
  by (simp add: chain_laws_def list_chain_def)

lemma notifier_call_0: "fst (notifier_call nb v u) = 0"
  by (cases nb) (simp_all add: test_event1_def test_event2_def test_event3_def)

fun block_number :: "notifier_block \<Rightarrow> nat" where
  "block_number Test_notifier1 = 1"
| "block_number Test_notifier2 = 2"
| "block_number Test_notifier3 = 3"

lemma call_all_logs:
  "call_all notifier_call c val 0 s = (0, s\<lparr>evs := evs s @ map (\<lambda>nb. Log_event (block_number nb) val) c\<rparr>)"
proof (induction c arbitrary: s)
  case Nil
  then show ?case by simp
next
  case (Cons nb c)
  then show ?case
    by (cases nb) (simp_all add: test_event1_def test_event2_def test_event3_def kdefs)
qed

lemma call_notifier_logs:
  assumes "chain_laws api"
  shows "call_notifier api s =
    (0, s\<lparr>evs := evs s @ map (\<lambda>nb. Log_event (block_number nb) 1) (test_chain s) @
            map (\<lambda>nb. Log_event (block_number nb) 2) (test_chain s)\<rparr>)"
proof -
  have "raw_call api notifier_call c val u = call_all notifier_call c val 0 u" for c val u
    using assms notifier_call_0 unfolding chain_laws_def by blast
  then show ?thesis
    by (simp add: call_notifier_def test_notifier_call_chain_def call_all_logs)
qed

lemma register_test_notifier_cases:
  assumes "chain_laws api"
  shows "register_test_notifier api nb s =
    (fst (raw_register api nb (test_chain s)),
     s\<lparr>test_chain := test_chain s @ (if fst (raw_register api nb (test_chain s)) = 0 then [nb] else [])\<rparr>)"
  using assms by (simp add: register_test_notifier_def chain_laws_def case_prod_beta)

text \<open>
  C35. The three modules together, over their whole life. If the registrations succeed, loading \<^verbatim>\<open>buildchain\<close>, \<^verbatim>\<open>regchain\<close> and
  then \<^verbatim>\<open>notify\<close> runs the three callbacks in the order of registration, first all of them with event 1, then all with
  event 2, and reports 0. Unloading \<^verbatim>\<open>notify\<close> and \<^verbatim>\<open>regchain\<close> leaves the chain empty: a notification reaches none of them
  any more, and unloading \<^verbatim>\<open>buildchain\<close> then loses nothing.
\<close>

theorem notify_reaches_callbacks:
  assumes "chain_laws api" and "\<forall>nb c. fst (raw_register api nb c) = 0" and "test_chain s = []"
  shows "\<exists>s1 t u. init_notifier s = (0, s1) \<and> reg_notifier api s1 = (0, t) \<and> call_notifier api t = (0, u) \<and>
    evs u = evs s @ [Log_text ''init_notifier'',
      Log_event 1 1, Log_event 2 1, Log_event 3 1, Log_event 1 2, Log_event 2 2, Log_event 3 2] \<and>
    call_notifier api (unregister_notifier api (uncall_notifier u)) = (0, unregister_notifier api (uncall_notifier u)) \<and>
    test_chain (exit_notifier (unregister_notifier api (uncall_notifier u))) = [] \<and>
    evs (exit_notifier (unregister_notifier api (uncall_notifier u))) = evs u @ [Log_text ''End notify'', Log_text ''exit_notifier'']"
proof -
  let ?s = "snd (init_notifier s)"
  have i: "init_notifier s = (0, ?s)" "evs ?s = evs s @ [Log_text ''init_notifier'']" "test_chain ?s = []"
    using assms(3) by (simp_all add: init_notifier_def kdefs)
  have r: "reg_notifier api ?s = (0, ?s\<lparr>test_chain := [Test_notifier1, Test_notifier2, Test_notifier3]\<rparr>)"
    using assms(2) i(3) by (simp add: reg_notifier_def register_test_notifier_cases [OF assms(1)])
  let ?u = "snd (call_notifier api (snd (reg_notifier api ?s)))"
  have "test_chain (unregister_notifier api (uncall_notifier ?u)) = []"
    "evs (unregister_notifier api (uncall_notifier ?u)) = evs ?u @ [Log_text ''End notify'']"
    using assms(1) r
    by (simp_all add: unregister_notifier_def unregister_test_notifier_def call_notifier_logs [OF assms(1)] chain_laws_def
        case_prod_beta uncall_notifier_def kdefs)
  then show ?thesis
    using r i by (intro exI [of _ ?s] exI [of _ "snd (reg_notifier api ?s)"] exI [of _ ?u])
      (simp add: call_notifier_logs [OF assms(1)] exit_notifier_def kdefs)
qed

theorem notify_reaches_callbacks_witness:
  "\<exists>s1 t u. init_notifier \<lparr>evs = [], test_chain = []\<rparr> = (0, s1) \<and> reg_notifier list_chain s1 = (0, t) \<and>
     call_notifier list_chain t = (0, u) \<and> length (evs u) = 7"
  using notify_reaches_callbacks [OF list_chain_laws, of "\<lparr>evs = [], test_chain = []\<rparr>"] by (force simp: list_chain_def)

text \<open>
  When the second or third registration fails, \<^verbatim>\<open>reg_notifier\<close> reports -1, so that the module is not
  loaded, but the callbacks registered before stay in the chain.
\<close>

lemma reg_notifier_no_rollback:
  assumes "chain_laws api" and "\<forall>c. fst (raw_register api Test_notifier1 c) = 0"
    and "\<forall>c. fst (raw_register api Test_notifier2 c) \<noteq> 0"
  shows "\<exists>t. reg_notifier api s = (-1, t) \<and> test_chain t = test_chain s @ [Test_notifier1]"
  using assms(2,3) by (simp add: reg_notifier_def register_test_notifier_cases [OF assms(1)])

lemma reg_notifier_no_rollback_witness:
  "\<exists>t. reg_notifier (list_chain\<lparr>raw_register := (\<lambda>nb c. if nb = Test_notifier2 then (-17, c) else (0, c @ [nb]))\<rparr>)
     \<lparr>evs = [], test_chain = []\<rparr> = (-1, t) \<and> test_chain t = [Test_notifier1]"
  using reg_notifier_no_rollback [of "list_chain\<lparr>raw_register := (\<lambda>nb c. if nb = Test_notifier2 then (-17, c) else (0, c @ [nb]))\<rparr>"
      "\<lparr>evs = [], test_chain = []\<rparr>"]
  by (simp add: chain_laws_def list_chain_def)

end
