(* ===== verification/Threads.thy ===== *)
theory Threads
  imports KPrelude
begin

text \<open>
  \<^verbatim>\<open>kthread/kthread_sema.c\<close> and \<^verbatim>\<open>kthread/mythread.c\<close>: kernel threads.

  In the first a reader and a writer thread share a number under a read-write semaphore. Each thread is
  a program counter over the lines of its loop, a step of the system is one line of one thread or
  the request to stop one of them (\<open>rw_step\<close>). The semaphore is the parameter \<open>sem_api\<close>: an acquisition
  that has to wait answers \<open>None\<close>, and then the thread makes no step. \<open>sem_laws\<close> is the documented
  contract: a number of readers or one writer.
\<close>

section \<open>The semaphore\<close>

record 'm sem_api =
  sem_init :: 'm
  sem_down_read :: "'m \<Rightarrow> 'm option"
  sem_up_read :: "'m \<Rightarrow> 'm"
  sem_down_write :: "'m \<Rightarrow> 'm option"
  sem_up_write :: "'m \<Rightarrow> 'm"
  sem_readers :: "'m \<Rightarrow> nat"
  sem_writer :: "'m \<Rightarrow> bool"

definition sem_laws :: "'m sem_api \<Rightarrow> bool" where
  "sem_laws api \<longleftrightarrow>
     sem_readers api (sem_init api) = 0 \<and> \<not> sem_writer api (sem_init api) \<and>
     (\<forall>m m'. sem_down_read api m = Some m' \<longrightarrow>
        \<not> sem_writer api m \<and> sem_readers api m' = sem_readers api m + 1 \<and> \<not> sem_writer api m') \<and>
     (\<forall>m. sem_readers api (sem_up_read api m) = sem_readers api m - 1 \<and> sem_writer api (sem_up_read api m) = sem_writer api m) \<and>
     (\<forall>m m'. sem_down_write api m = Some m' \<longrightarrow>
        \<not> sem_writer api m \<and> sem_readers api m = 0 \<and> sem_readers api m' = 0 \<and> sem_writer api m') \<and>
     (\<forall>m. sem_readers api (sem_up_write api m) = sem_readers api m \<and> \<not> sem_writer api (sem_up_write api m)) \<and>
     (\<forall>m. \<not> sem_writer api m \<longrightarrow> sem_down_read api m \<noteq> None) \<and>
     (\<forall>m. \<not> sem_writer api m \<longrightarrow> sem_readers api m = 0 \<longrightarrow> sem_down_write api m \<noteq> None)"

text \<open>The instance for concrete runs: the pair of the number of readers and the writer flag.\<close>

definition pair_sem :: "(nat \<times> bool) sem_api" where
  "pair_sem = \<lparr>sem_init = (0, False), sem_down_read = (\<lambda>(n, w). if w then None else Some (n + 1, False)),
     sem_up_read = (\<lambda>(n, w). (n - 1, w)), sem_down_write = (\<lambda>(n, w). if w \<or> n \<noteq> 0 then None else Some (0, True)),
     sem_up_write = (\<lambda>(n, w). (n, False)), sem_readers = fst, sem_writer = snd\<rparr>"

lemma pair_sem_laws: "sem_laws pair_sem"
  by (auto simp: sem_laws_def pair_sem_def)

section \<open>kthread_sema.c\<close>

text \<open>Where a thread is: at the loop test, before the acquisition, inside (reader: before printing, then
  before releasing; writer: before the increment, before printing, before releasing), or done.\<close>

datatype rpc = R_test | R_down | R_print | R_sleep | R_exit
datatype wpc = W_test | W_down | W_incr | W_print | W_up | W_exit

datatype rw_out = Reading ulong | Written ulong

record 'm rw_st =
  rwsem :: 'm
  number :: ulong
  r_pc :: rpc
  w_pc :: wpc
  r_stop :: bool
  w_stop :: bool
  r_seen :: ulong
  rw_log :: "rw_out list"

text \<open>One line of \<^verbatim>\<open>thread_read_func\<close>; \<open>None\<close> when it waits or has ended. \<open>r_seen\<close> only records the number at
  the moment of acquisition, to state the property.\<close>

fun thread_read_func :: "'m sem_api \<Rightarrow> 'm rw_st \<Rightarrow> 'm rw_st option" where
  "thread_read_func api s =
     (case r_pc s of
        R_test \<Rightarrow> Some (s\<lparr>r_pc := if r_stop s then R_exit else R_down\<rparr>)
      | R_down \<Rightarrow> map_option (\<lambda>m. s\<lparr>rwsem := m, r_pc := R_print, r_seen := number s\<rparr>) (sem_down_read api (rwsem s))
      | R_print \<Rightarrow> Some (s\<lparr>rw_log := rw_log s @ [Reading (number s)], r_pc := R_sleep\<rparr>)
      | R_sleep \<Rightarrow> Some (s\<lparr>rwsem := sem_up_read api (rwsem s), r_pc := R_test\<rparr>)
      | R_exit \<Rightarrow> None)"

fun thread_write_func :: "'m sem_api \<Rightarrow> 'm rw_st \<Rightarrow> 'm rw_st option" where
  "thread_write_func api s =
     (case w_pc s of
        W_test \<Rightarrow> Some (s\<lparr>w_pc := if w_stop s then W_exit else W_down\<rparr>)
      | W_down \<Rightarrow> map_option (\<lambda>m. s\<lparr>rwsem := m, w_pc := W_incr\<rparr>) (sem_down_write api (rwsem s))
      | W_incr \<Rightarrow> Some (s\<lparr>number := number s + 1, w_pc := W_print\<rparr>)
      | W_print \<Rightarrow> Some (s\<lparr>rw_log := rw_log s @ [Written (number s)], w_pc := W_up\<rparr>)
      | W_up \<Rightarrow> Some (s\<lparr>rwsem := sem_up_write api (rwsem s), w_pc := W_test\<rparr>)
      | W_exit \<Rightarrow> None)"

declare thread_read_func.simps [simp del] thread_write_func.simps [simp del]

text \<open>\<^verbatim>\<open>down_read_init\<close>: the semaphore is initialised and both threads start.\<close>

definition down_read_init :: "'m sem_api \<Rightarrow> 'm rw_st" where
  "down_read_init api = \<lparr>rwsem = sem_init api, number = 0, r_pc = R_test, w_pc = W_test, r_stop = False, w_stop = False,
     r_seen = 0, rw_log = []\<rparr>"

text \<open>\<^verbatim>\<open>kthread_stop\<close> of \<^verbatim>\<open>down_read_exit\<close>: the writer is asked first; the reader only once the writer has
  ended.\<close>

inductive rw_step :: "'m sem_api \<Rightarrow> 'm rw_st \<Rightarrow> 'm rw_st \<Rightarrow> bool" for api where
  reader: "thread_read_func api s = Some t \<Longrightarrow> rw_step api s t"
| writer: "thread_write_func api s = Some t \<Longrightarrow> rw_step api s t"
| stop_writer: "rw_step api s (s\<lparr>w_stop := True\<rparr>)"
| stop_reader: "w_pc s = W_exit \<Longrightarrow> w_stop s \<Longrightarrow> rw_step api s (s\<lparr>r_stop := True\<rparr>)"

inductive_cases rw_stepE: "rw_step api s t"

fun r_inside :: "rpc \<Rightarrow> bool" where
  "r_inside R_print = True" | "r_inside R_sleep = True" | "r_inside _ = False"

fun w_inside :: "wpc \<Rightarrow> bool" where
  "w_inside W_incr = True" | "w_inside W_print = True" | "w_inside W_up = True" | "w_inside _ = False"

fun written_ev :: "rw_out \<Rightarrow> ulong list" where
  "written_ev (Written n) = [n]"
| "written_ev _ = []"

definition written :: "'m rw_st \<Rightarrow> ulong list" where
  "written s = concat (map written_ev (rw_log s))"

text \<open>The numbers written are 1, 2, 3 and so on, modulo \<open>2 ^ 64\<close>.\<close>

definition counts_up :: "ulong list \<Rightarrow> bool" where
  "counts_up ws \<longleftrightarrow> ws = map (\<lambda>i. of_nat (Suc i)) [0..<length ws]"

lemma counts_up_snoc: "counts_up ws \<Longrightarrow> x = of_nat (Suc (length ws)) \<Longrightarrow> counts_up (ws @ [x])"
  unfolding counts_up_def by simp

definition rw_inv :: "'m sem_api \<Rightarrow> 'm rw_st \<Rightarrow> bool" where
  "rw_inv api s \<longleftrightarrow>
     sem_readers api (rwsem s) = (if r_inside (r_pc s) then 1 else 0) \<and>
     sem_writer api (rwsem s) = w_inside (w_pc s) \<and>
     \<not> (r_inside (r_pc s) \<and> w_inside (w_pc s)) \<and>
     (r_inside (r_pc s) \<longrightarrow> number s = r_seen s) \<and>
     number s = of_nat (length (written s) + (if w_pc s = W_print then 1 else 0)) \<and>
     counts_up (written s)"

lemma rw_init_inv: "sem_laws api \<Longrightarrow> rw_inv api (down_read_init api)"
  by (auto simp: rw_inv_def sem_laws_def down_read_init_def written_def counts_up_def)

lemma sem_lawsD:
  assumes "sem_laws api"
  shows "sem_down_read api m = Some m' \<Longrightarrow> \<not> sem_writer api m \<and> sem_readers api m' = sem_readers api m + 1 \<and> \<not> sem_writer api m'"
    and "sem_readers api (sem_up_read api m) = sem_readers api m - 1" and "sem_writer api (sem_up_read api m) = sem_writer api m"
    and "sem_down_write api m = Some m' \<Longrightarrow> \<not> sem_writer api m \<and> sem_readers api m = 0 \<and> sem_readers api m' = 0 \<and> sem_writer api m'"
    and "sem_readers api (sem_up_write api m) = sem_readers api m" and "\<not> sem_writer api (sem_up_write api m)"
    and "\<not> sem_writer api m \<Longrightarrow> sem_down_read api m \<noteq> None"
    and "\<not> sem_writer api m \<Longrightarrow> sem_readers api m = 0 \<Longrightarrow> sem_down_write api m \<noteq> None"
  using assms unfolding sem_laws_def by blast+

lemma r_inside_test [simp]: "\<not> r_inside (if b then R_exit else R_down)"
  by simp

lemma rw_inv_stop [simp]: "rw_inv api (s\<lparr>w_stop := b\<rparr>) = rw_inv api s" "rw_inv api (s\<lparr>r_stop := b\<rparr>) = rw_inv api s"
  by (simp_all add: rw_inv_def written_def)

lemma reader_inv:
  assumes "sem_laws api" and "rw_inv api s" and "thread_read_func api s = Some t"
  shows "rw_inv api t"
proof (cases "r_pc s")
  case R_down
  then obtain m where "sem_down_read api (rwsem s) = Some m" "t = s\<lparr>rwsem := m, r_pc := R_print, r_seen := number s\<rparr>"
    using assms(3) by (auto simp: thread_read_func.simps)
  with R_down assms(2) sem_lawsD(1) [OF assms(1)] show ?thesis
    by (fastforce simp: rw_inv_def written_def)
qed (use assms(2,3) in \<open>auto simp: rw_inv_def written_def thread_read_func.simps sem_lawsD(2,3) [OF assms(1)]\<close>)

lemma writer_inv:
  assumes "sem_laws api" and "rw_inv api s" and "thread_write_func api s = Some t"
  shows "rw_inv api t"
proof (cases "w_pc s")
  case W_down
  then obtain m where "sem_down_write api (rwsem s) = Some m" "t = s\<lparr>rwsem := m, w_pc := W_incr\<rparr>"
    using assms(3) by (auto simp: thread_write_func.simps)
  with W_down assms(2) sem_lawsD(4) [OF assms(1)] show ?thesis
    by (fastforce simp: rw_inv_def written_def split: if_splits)
next
  case W_print
  have t: "t = s\<lparr>rw_log := rw_log s @ [Written (number s)], w_pc := W_up\<rparr>"
    using W_print assms(3) by (simp add: thread_write_func.simps)
  have "number s = of_nat (Suc (length (written s)))" "counts_up (written s)"
    using assms(2) W_print by (simp_all add: rw_inv_def)
  with counts_up_snoc have "counts_up (written t)" "length (written t) = Suc (length (written s))"
    by (auto simp: t written_def)
  then show ?thesis using W_print assms(2) t by (auto simp: rw_inv_def)
qed (use assms(2,3) in \<open>auto simp: rw_inv_def written_def thread_write_func.simps sem_lawsD(5,6) [OF assms(1)] split: if_splits\<close>)

lemma rw_step_inv: "sem_laws api \<Longrightarrow> rw_inv api s \<Longrightarrow> rw_step api s t \<Longrightarrow> rw_inv api t"
  by (erule rw_stepE) (auto intro: reader_inv writer_inv)

interpretation rw_threads: transition_system
  "\<lambda>s. sem_laws api \<and> s = down_read_init api" "\<lambda>s t. sem_laws api \<and> rw_step api s t" "rw_inv api" for api
  by unfold_locales (auto intro: rw_init_inv rw_step_inv)

text \<open>
  C9. In every reachable state of the two threads: they are never inside their sections at once; while
  the reader is inside, the number is the one it found when it entered; the numbers the writer has
  printed are 1, 2, 3 and so on without a gap (modulo \<open>2 ^ 64\<close>); and unless both threads have ended, one
  of them can make a step, so they never block each other for good.
\<close>

theorem rw_threads_safe:
  assumes "sem_laws api" and "(rw_step api)\<^sup>*\<^sup>* (down_read_init api) s"
  shows "\<not> (r_inside (r_pc s) \<and> w_inside (w_pc s)) \<and> (r_inside (r_pc s) \<longrightarrow> number s = r_seen s) \<and>
    counts_up (written s) \<and>
    (r_pc s \<noteq> R_exit \<or> w_pc s \<noteq> W_exit \<longrightarrow> thread_read_func api s \<noteq> None \<or> thread_write_func api s \<noteq> None)"
proof -
  have "(\<lambda>s t. sem_laws api \<and> rw_step api s t)\<^sup>*\<^sup>* (down_read_init api) s"
    using assms by (simp add: assms(1))
  then have inv: "rw_inv api s" using rw_threads.reachable_inv [of api "down_read_init api"] assms(1) by blast
  have "thread_read_func api s \<noteq> None \<or> thread_write_func api s \<noteq> None" if go: "r_pc s \<noteq> R_exit \<or> w_pc s \<noteq> W_exit"
  proof (cases "w_inside (w_pc s)")
    case True
    then show ?thesis by (cases "w_pc s") (simp_all add: thread_write_func.simps)
  next
    case False
    then have w: "\<not> sem_writer api (rwsem s)" using inv by (simp add: rw_inv_def)
    show ?thesis
    proof (cases "r_pc s = R_exit")
      case True
      then have "sem_readers api (rwsem s) = 0" using inv by (simp add: rw_inv_def)
      with w sem_lawsD(8) [OF assms(1)] go True False show ?thesis
        by (cases "w_pc s") (auto simp: thread_write_func.simps)
    next
      case False
      with w sem_lawsD(7) [OF assms(1)] show ?thesis
        by (cases "r_pc s") (auto simp: thread_read_func.simps)
    qed
  qed
  then show ?thesis using inv by (auto simp: rw_inv_def)
qed

text \<open>A run of the instance: the writer enters, the reader waits.\<close>

definition demo_rw :: "(nat \<times> bool) rw_st" where
  "demo_rw = the (Option.bind (thread_write_func pair_sem (down_read_init pair_sem)) (\<lambda>s.
     Option.bind (thread_write_func pair_sem s) (thread_read_func pair_sem)))"

theorem rw_threads_safe_witness:
  "(rw_step pair_sem)\<^sup>*\<^sup>* (down_read_init pair_sem) demo_rw \<and> w_inside (w_pc demo_rw) \<and> r_pc demo_rw = R_down \<and>
   thread_read_func pair_sem demo_rw = None \<and> thread_write_func pair_sem demo_rw \<noteq> None"
proof -
  obtain s1 s2 where s: "thread_write_func pair_sem (down_read_init pair_sem) = Some s1" "thread_write_func pair_sem s1 = Some s2"
    "thread_read_func pair_sem s2 = Some demo_rw"
    by (simp add: demo_rw_def thread_write_func.simps thread_read_func.simps down_read_init_def pair_sem_def)
  then have "(rw_step pair_sem)\<^sup>*\<^sup>* (down_read_init pair_sem) demo_rw"
    by (meson rw_step.intros rtranclp.rtrancl_into_rtrancl rtranclp.rtrancl_refl)
  moreover have "w_inside (w_pc demo_rw)" "r_pc demo_rw = R_down" "thread_read_func pair_sem demo_rw = None"
    by (simp_all add: demo_rw_def thread_write_func.simps thread_read_func.simps down_read_init_def pair_sem_def)
  ultimately show ?thesis using rw_threads_safe [OF pair_sem_laws, of demo_rw] by auto
qed

section \<open>Creation and stopping\<close>

text \<open>What \<^verbatim>\<open>kthread_run\<close> returns: a task, or an error coded as a pointer. Neither is NULL.\<close>

datatype task_ptr = Null | Err_ptr int | Task addr

datatype kt_ev =
    Kt_run task_ptr
  | Kt_stop task_ptr
  | Allow_signal
  | Should_stop bool
  | Log_running
  | Do_exit

record kt_env =
  kt_kthread_run :: "kt_ev list \<Rightarrow> task_ptr"
  kt_should_stop :: "kt_ev list \<Rightarrow> bool"

record kt_st = "kt_ev kst" +
  rthread :: task_ptr
  wthread :: task_ptr
  mthread :: task_ptr

definition down_read_start :: "kt_env \<Rightarrow> kt_st \<Rightarrow> int \<times> kt_st" where
  "down_read_start env s =
     (let (r, s1) = kcall (kt_kthread_run env) Kt_run s;
          s2 = s1\<lparr>rthread := r\<rparr>;
          (w, s3) = kcall (kt_kthread_run env) Kt_run s2
      in (0, s3\<lparr>wthread := w\<rparr>))"

definition down_read_exit :: "kt_st \<Rightarrow> kt_st" where
  "down_read_exit s = kdo (Kt_stop (rthread s)) (kdo (Kt_stop (wthread s)) s)"

text \<open>\<^verbatim>\<open>mythread.c\<close>: the loop of the thread, which ends when it is asked to.\<close>

partial_function (option) thread_loop :: "kt_env \<Rightarrow> kt_st \<Rightarrow> kt_st option" where
  "thread_loop env s =
     (let (stop, s1) = kcall (kt_should_stop env) Should_stop s
      in if stop then Some (kdo Do_exit s1) else thread_loop env (kdo Log_running s1))"

definition thread_func :: "kt_env \<Rightarrow> kt_st \<Rightarrow> kt_st option" where
  "thread_func env s = thread_loop env (kdo Allow_signal s)"

definition minit_thread :: "kt_env \<Rightarrow> kt_st \<Rightarrow> int \<times> kt_st" where
  "minit_thread env s = (let (p, s1) = kcall (kt_kthread_run env) Kt_run s in (0, s1\<lparr>mthread := p\<rparr>))"

definition mexit_thread :: "kt_st \<Rightarrow> kt_st" where
  "mexit_thread s = (if mthread s \<noteq> Null then kdo (Kt_stop (mthread s)) s else s)"

lemma thread_loop_ends:
  assumes "\<forall>tr. n \<le> length tr \<longrightarrow> kt_should_stop env tr"
  shows "\<exists>t. thread_loop env s = Some t"
proof (induction "n - length (evs s)" arbitrary: s rule: less_induct)
  case less
  show ?case
  proof (cases "kt_should_stop env (evs s)")
    case True
    then show ?thesis by (simp add: thread_loop.simps [of env s] kdefs)
  next
    case False
    then have "length (evs s) < n" using assms not_le by blast
    then have "n - length (evs (kdo Log_running (snd (kcall (kt_should_stop env) Should_stop s)))) < n - length (evs s)" by simp
    from less [OF this] False show ?thesis by (simp add: thread_loop.simps [of env s] kcall_def Let_def)
  qed
qed

text \<open>
  Both modules load with result 0 whether or not their threads could be created, and unloading hands
  whatever \<^verbatim>\<open>kthread_run\<close> returned to \<^verbatim>\<open>kthread_stop\<close>, the writer before the reader: tasks, each once,
  or an error code that is not a task. The thread of \<^verbatim>\<open>mythread.c\<close> ends if it is asked to stop from
  some time on.
\<close>

lemma kthread_modules_stop:
  assumes "\<forall>tr. kt_kthread_run env tr \<noteq> Null" and "\<forall>tr. n \<le> length tr \<longrightarrow> kt_should_stop env tr"
  shows "\<exists>t u r w p. down_read_start env s = (0, t) \<and>
    evs (down_read_exit t) = evs s @ [Kt_run r, Kt_run w, Kt_stop w, Kt_stop r] \<and>
    minit_thread env s = (0, u) \<and> evs (mexit_thread u) = evs s @ [Kt_run p, Kt_stop p] \<and>
    ((\<exists>e. \<forall>tr. kt_kthread_run env tr = Err_ptr e) \<longrightarrow> (\<exists>e. p = Err_ptr e \<and> r = Err_ptr e \<and> w = Err_ptr e)) \<and>
    (\<exists>v. thread_func env s = Some v)"
proof -
  have "fst (down_read_start env s) = 0" "fst (minit_thread env s) = 0"
    by (simp_all add: down_read_start_def minit_thread_def kdefs)
  then show ?thesis
    using assms(1) thread_loop_ends [OF assms(2)]
    by (auto simp: down_read_start_def down_read_exit_def minit_thread_def mexit_thread_def thread_func_def kdefs)
qed

lemma kthread_modules_stop_witness:
  "\<exists>t. down_read_start \<lparr>kt_kthread_run = (\<lambda>_. Err_ptr (-12)), kt_should_stop = (\<lambda>tr. 5 \<le> length tr)\<rparr>
       \<lparr>evs = [], rthread = Null, wthread = Null, mthread = Null\<rparr> = (0, t) \<and> Kt_stop (Err_ptr (-12)) \<in> set (evs (down_read_exit t))"
proof -
  let ?e = "\<lparr>kt_kthread_run = (\<lambda>_. Err_ptr (-12)), kt_should_stop = (\<lambda>tr. 5 \<le> length tr)\<rparr>"
  let ?s = "\<lparr>evs = [], rthread = Null, wthread = Null, mthread = Null\<rparr>"
  obtain t r w where t: "down_read_start ?e ?s = (0, t)" "evs (down_read_exit t) = [Kt_run r, Kt_run w, Kt_stop w, Kt_stop r]"
    using kthread_modules_stop [of ?e 5 ?s] by auto
  then have "r = Err_ptr (-12)" by (auto simp: down_read_start_def down_read_exit_def kdefs)
  with t show ?thesis by auto
qed

end
