(* ===== verification/Timers.thy ===== *)
theory Timers
  imports KPrelude
begin

text \<open>
  \<^verbatim>\<open>timer/stdtimer.c\<close> and \<^verbatim>\<open>timer/hrtimer.c\<close>: a periodic timer that counts its own calls and arms itself again,
  and a one-shot high-resolution timer.

  The timer structure belongs to the kernel: \<open>timer_api\<close> holds \<^verbatim>\<open>mod_timer\<close>, \<^verbatim>\<open>del_timer\<close>, what the timer core
  does to a timer when it expires, the time a timer is armed for, and whether \<^verbatim>\<open>del_timer\<close> waits for a callback that
  is running (\<open>tm_del_waits\<close>; it is documented not to); \<open>timer_laws\<close> is the documented behaviour of the others. A callback runs at the same time as the rest of the system, so it is split at the points
  where something else can happen: it has read the counter, it has armed the timer again, it is done. A
  step (\<open>tm_step\<close>) is the passing of time, the firing of the timer, one part of the callback, or the
  unloading of the module, which comes while the callback runs only where \<^verbatim>\<open>del_timer\<close> does not wait for it.
\<close>

section \<open>The kernel's timers\<close>

record 'm timer_api =
  tm_new :: 'm
  tm_mod :: "nat \<Rightarrow> 'm \<Rightarrow> int \<times> 'm"
  tm_del :: "'m \<Rightarrow> int \<times> 'm"
  tm_expire :: "'m \<Rightarrow> 'm"
  tm_at :: "'m \<Rightarrow> nat option"
  tm_del_waits :: bool

definition timer_laws :: "'m timer_api \<Rightarrow> bool" where
  "timer_laws api \<longleftrightarrow>
     tm_at api (tm_new api) = None \<and>
     (\<forall>at m. tm_at api (snd (tm_mod api at m)) = Some at \<and>
        fst (tm_mod api at m) = (if tm_at api m = None then 0 else 1)) \<and>
     (\<forall>m. tm_at api (snd (tm_del api m)) = None \<and> fst (tm_del api m) = (if tm_at api m = None then 0 else 1)) \<and>
     (\<forall>m. tm_at api (tm_expire api m) = None)"

definition option_timer :: "nat option timer_api" where
  "option_timer = \<lparr>tm_new = None, tm_mod = (\<lambda>at m. (if m = None then 0 else 1, Some at)),
     tm_del = (\<lambda>m. (if m = None then 0 else 1, None)), tm_expire = (\<lambda>m. None), tm_at = (\<lambda>m. m), tm_del_waits = False\<rparr>"

lemma option_timer_laws: "timer_laws option_timer"
  by (simp add: timer_laws_def option_timer_def)

section \<open>stdtimer.c\<close>

datatype cb_pc = Idle | Counted u32 | Rearmed u32

record 'm tm_st =
  jiffies :: nat
  num :: u32
  my_timer :: 'm
  callback :: cb_pc
  loaded :: bool
  fired :: "nat list"
  tm_log :: "u32 list"

text \<open>The three parts of \<^verbatim>\<open>my_timer_callback\<close>: called with the timer expired, it prints the incremented number;
  it arms the timer again (\<open>period\<close> is \<^verbatim>\<open>msecs_to_jiffies(5000)\<close>); it stores the number. The clock is counted
  without the wrap-around of its \<^verbatim>\<open>unsigned long\<close>, which no machine stays up long enough to see.\<close>

definition callback_count :: "'m timer_api \<Rightarrow> 'm tm_st \<Rightarrow> 'm tm_st" where
  "callback_count api s =
     s\<lparr>my_timer := tm_expire api (my_timer s), fired := fired s @ [jiffies s], callback := Counted (num s + 1),
       tm_log := tm_log s @ [num s + 1]\<rparr>"

definition callback_rearm :: "'m timer_api \<Rightarrow> nat \<Rightarrow> u32 \<Rightarrow> 'm tm_st \<Rightarrow> 'm tm_st" where
  "callback_rearm api period n s = s\<lparr>my_timer := snd (tm_mod api (jiffies s + period) (my_timer s)), callback := Rearmed n\<rparr>"

definition callback_store :: "u32 \<Rightarrow> 'm tm_st \<Rightarrow> 'm tm_st" where
  "callback_store n s = s\<lparr>num := n, callback := Idle\<rparr>"

definition timer_init_module :: "'m timer_api \<Rightarrow> nat \<Rightarrow> nat \<Rightarrow> int \<times> 'm tm_st" where
  "timer_init_module api period now =
     (0, \<lparr>jiffies = now, num = 0, my_timer = snd (tm_mod api (now + period) (tm_new api)), callback = Idle, loaded = True,
          fired = [], tm_log = []\<rparr>)"

definition timer_exit_module :: "'m timer_api \<Rightarrow> 'm tm_st \<Rightarrow> 'm tm_st" where
  "timer_exit_module api s = s\<lparr>my_timer := snd (tm_del api (my_timer s)), loaded := False\<rparr>"

inductive tm_step :: "'m timer_api \<Rightarrow> nat \<Rightarrow> 'm tm_st \<Rightarrow> 'm tm_st \<Rightarrow> bool" for api period where
  tick: "tm_step api period s (s\<lparr>jiffies := jiffies s + 1\<rparr>)"
| fires: "tm_at api (my_timer s) = Some e \<Longrightarrow> e \<le> jiffies s \<Longrightarrow> callback s = Idle \<Longrightarrow>
    tm_step api period s (callback_count api s)"
| rearm: "callback s = Counted n \<Longrightarrow> tm_step api period s (callback_rearm api period n s)"
| store: "callback s = Rearmed n \<Longrightarrow> tm_step api period s (callback_store n s)"
| unload: "loaded s \<Longrightarrow> callback s = Idle \<or> \<not> tm_del_waits api \<Longrightarrow> tm_step api period s (timer_exit_module api s)"

inductive_cases tm_stepE: "tm_step api period s t"

text \<open>How many callbacks have stored their number.\<close>

definition completed :: "'m tm_st \<Rightarrow> nat" where
  "completed s = length (fired s) - (if callback s = Idle then 0 else 1)"

definition spaced :: "nat \<Rightarrow> nat list \<Rightarrow> bool" where
  "spaced period xs \<longleftrightarrow> (\<forall>i. Suc i < length xs \<longrightarrow> xs ! i + period \<le> xs ! Suc i)"

definition tm_inv :: "'m timer_api \<Rightarrow> nat \<Rightarrow> 'm tm_st \<Rightarrow> bool" where
  "tm_inv api period s \<longleftrightarrow>
     num s + (if callback s = Idle then 0 else 1) = of_nat (length (fired s)) \<and>
     (\<forall>n. callback s = Counted n \<or> callback s = Rearmed n \<longrightarrow> n = num s + 1 \<and> fired s \<noteq> []) \<and>
     tm_log s = map (\<lambda>i. of_nat (Suc i)) [0..<length (fired s)] \<and>
     (fired s \<noteq> [] \<longrightarrow> last (fired s) \<le> jiffies s \<and>
        (\<forall>e. tm_at api (my_timer s) = Some e \<longrightarrow> last (fired s) + period \<le> e)) \<and>
     spaced period (fired s)"

lemma spaced_snoc:
  assumes "spaced period xs" and "xs \<noteq> [] \<Longrightarrow> last xs + period \<le> x"
  shows "spaced period (xs @ [x])"
  unfolding spaced_def
proof (intro allI impI)
  fix i assume i: "Suc i < length (xs @ [x])"
  show "(xs @ [x]) ! i + period \<le> (xs @ [x]) ! Suc i"
  proof (cases "Suc i < length xs")
    case True
    with assms(1) show ?thesis by (simp add: spaced_def nth_append)
  next
    case False
    with i have "Suc i = length xs" by simp
    then have "xs \<noteq> []" "i = length xs - 1" by auto
    with assms(2) \<open>Suc i = length xs\<close> show ?thesis by (simp add: nth_append last_conv_nth)
  qed
qed

lemma timer_lawsD:
  assumes "timer_laws api"
  shows "tm_at api (snd (tm_mod api at m)) = Some at" and "tm_at api (snd (tm_del api m)) = None"
    and "tm_at api (tm_expire api m) = None"
  using assms unfolding timer_laws_def by blast+

lemma tm_init_inv: "tm_inv api period (snd (timer_init_module api period now))"
  by (simp add: tm_inv_def timer_init_module_def spaced_def)

lemma count_inv:
  assumes "timer_laws api" and "tm_inv api period s" and "tm_at api (my_timer s) = Some e" and "e \<le> jiffies s" and "callback s = Idle"
  shows "tm_inv api period (callback_count api s)"
proof -
  have "spaced period (fired s @ [jiffies s])"
    using assms(2-4) by (intro spaced_snoc) (auto simp: tm_inv_def)
  with assms(2,5) show ?thesis
    by (simp add: tm_inv_def callback_count_def timer_lawsD(3) [OF assms(1)])
qed

lemma rearm_inv:
  assumes "timer_laws api" and "tm_inv api period s" and "callback s = Counted n"
  shows "tm_inv api period (callback_rearm api period n s)"
  using assms(2,3) by (auto simp: tm_inv_def callback_rearm_def timer_lawsD(1) [OF assms(1)])

lemma store_inv:
  assumes "tm_inv api period s" and "callback s = Rearmed n"
  shows "tm_inv api period (callback_store n s)"
  using assms by (auto simp: tm_inv_def callback_store_def)

lemma tick_inv: "tm_inv api period s \<Longrightarrow> tm_inv api period (s\<lparr>jiffies := Suc (jiffies s)\<rparr>)"
  by (auto simp: tm_inv_def)

lemma unload_inv: "timer_laws api \<Longrightarrow> tm_inv api period s \<Longrightarrow> tm_inv api period (timer_exit_module api s)"
  by (auto simp: tm_inv_def timer_exit_module_def timer_lawsD(2))

lemmas tm_invs = count_inv rearm_inv store_inv tick_inv unload_inv

interpretation std_timer: transition_system
  "\<lambda>s. timer_laws api \<and> (\<exists>now. s = snd (timer_init_module api period now))"
  "\<lambda>s t. timer_laws api \<and> tm_step api period s t" "tm_inv api period" for api period
proof
  fix s t
  assume inv: "tm_inv api period s" and st: "timer_laws api \<and> tm_step api period s t"
  from st have "tm_step api period s t" by simp
  then show "tm_inv api period t"
    using inv st by cases (auto intro: tm_invs)
qed (auto intro: tm_init_inv)

text \<open>
  C36. In every reachable state of the periodic timer the number is that of the completed callbacks
  (modulo \<open>2 ^ 32\<close>), the callbacks have printed 1, 2, 3 and so on, and two of them are at least
  the period apart.
\<close>

theorem std_timer_counts:
  assumes "timer_laws api" and "(tm_step api period)\<^sup>*\<^sup>* (snd (timer_init_module api period now)) s"
  shows "num s = of_nat (completed s) \<and> tm_log s = map (\<lambda>i. of_nat (Suc i)) [0..<length (fired s)] \<and> spaced period (fired s)"
proof -
  have "(\<lambda>s t. timer_laws api \<and> tm_step api period s t)\<^sup>*\<^sup>* (snd (timer_init_module api period now)) s"
    using assms by (simp add: assms(1))
  then have inv: "tm_inv api period s" using std_timer.reachable_inv assms(1) by blast
  have "num s = of_nat (completed s)"
  proof (cases "callback s = Idle")
    case True
    with inv show ?thesis by (simp add: tm_inv_def completed_def)
  next
    case False
    then have f: "fired s \<noteq> []" "num s + 1 = of_nat (length (fired s))"
      using inv by (cases "callback s"; auto simp: tm_inv_def)+
    then obtain k where "length (fired s) = Suc k" by (cases "fired s") auto
    with f(2) False show ?thesis by (simp add: completed_def)
  qed
  with inv show ?thesis by (simp add: tm_inv_def)
qed

text \<open>A run: the timer fires once, and the module is unloaded before the callback arms the timer again.\<close>

definition demo_timer :: "nat \<Rightarrow> nat option tm_st" where
  "demo_timer now = callback_rearm option_timer 0 1 (timer_exit_module option_timer
     (callback_count option_timer (snd (timer_init_module option_timer 0 now))))"

lemma demo_timer_reachable:
  "(tm_step option_timer 0)\<^sup>*\<^sup>* (snd (timer_init_module option_timer 0 now)) (demo_timer now)"
proof -
  let ?s0 = "snd (timer_init_module option_timer 0 now)"
  let ?s1 = "callback_count option_timer ?s0" and ?s2 = "timer_exit_module option_timer (callback_count option_timer ?s0)"
  have "tm_step option_timer 0 ?s0 ?s1"
    by (rule tm_step.fires [where e = now]) (simp_all add: timer_init_module_def option_timer_def)
  moreover have "tm_step option_timer 0 ?s1 ?s2"
    by (rule tm_step.unload) (simp_all add: callback_count_def timer_init_module_def option_timer_def)
  moreover have "tm_step option_timer 0 ?s2 (demo_timer now)"
    unfolding demo_timer_def
    by (rule tm_step.rearm) (simp add: callback_count_def timer_exit_module_def timer_init_module_def)
  ultimately show ?thesis by (meson rtranclp.rtrancl_into_rtrancl rtranclp.rtrancl_refl)
qed

theorem std_timer_counts_witness:
  "(tm_step option_timer 0)\<^sup>*\<^sup>* (snd (timer_init_module option_timer 0 9)) (demo_timer 9) \<and> tm_log (demo_timer 9) = [1] \<and>
   num (demo_timer 9) = 0"
  using std_timer_counts [OF option_timer_laws demo_timer_reachable, of 9] demo_timer_reachable [of 9]
  by (simp add: demo_timer_def callback_count_def timer_exit_module_def timer_init_module_def callback_rearm_def completed_def)

section \<open>Unloading the timer\<close>

text \<open>The module is gone, the timer is not armed and nothing will arm it: the callback can finish, but not run again.\<close>

definition disarmed :: "'m timer_api \<Rightarrow> nat list \<Rightarrow> 'm tm_st \<Rightarrow> bool" where
  "disarmed api calls s \<longleftrightarrow>
     \<not> loaded s \<and> fired s = calls \<and> tm_at api (my_timer s) = None \<and> (\<forall>n. callback s \<noteq> Counted n)"

interpretation timer_unloaded: transition_system "disarmed api calls" "tm_step api period" "disarmed api calls"
  for api calls period
proof
  fix s t
  assume "disarmed api calls s" and "tm_step api period s t"
  then show "disarmed api calls t"
    by (elim tm_stepE) (auto simp: disarmed_def callback_store_def)
qed

lemma unload_disarms:
  "timer_laws api \<Longrightarrow> \<forall>n. callback s \<noteq> Counted n \<Longrightarrow> disarmed api (fired s) (timer_exit_module api s)"
  by (simp add: disarmed_def timer_exit_module_def timer_lawsD(2))

lemma not_loaded_after: "\<not> loaded (timer_exit_module api s)"
  by (simp add: timer_exit_module_def)

lemma unload_step:
  "loaded s \<Longrightarrow> tm_step api period s u \<and> \<not> loaded u \<longleftrightarrow>
     u = timer_exit_module api s \<and> (callback s = Idle \<or> \<not> tm_del_waits api)"
  by (auto elim!: tm_stepE intro: tm_step.unload
      simp: callback_count_def callback_rearm_def callback_store_def not_loaded_after)

lemma time_passes: "(tm_step api period)\<^sup>*\<^sup>* s (s\<lparr>jiffies := jiffies s + k\<rparr>)"
proof (induction k)
  case (Suc k)
  have "tm_step api period (s\<lparr>jiffies := jiffies s + k\<rparr>) (s\<lparr>jiffies := jiffies s + Suc k\<rparr>)"
    using tm_step.tick [of api period "s\<lparr>jiffies := jiffies s + k\<rparr>"] by simp
  with Suc show ?case by (rule rtranclp.rtrancl_into_rtrancl)
qed simp

text \<open>A callback that has not armed the timer yet does so, and the timer fires a period later.\<close>

lemma counted_fires_again:
  assumes "timer_laws api" and "callback s = Counted n"
  shows "\<exists>t. (tm_step api period)\<^sup>*\<^sup>* s t \<and> fired t = fired s @ [jiffies s + period]"
proof -
  let ?u = "callback_store n (callback_rearm api period n s)"
  let ?v = "?u\<lparr>jiffies := jiffies ?u + period\<rparr>"
  have "tm_step api period s (callback_rearm api period n s)" using assms(2) by (rule tm_step.rearm)
  moreover have "tm_step api period (callback_rearm api period n s) ?u"
    by (rule tm_step.store) (simp add: callback_rearm_def)
  moreover have "(tm_step api period)\<^sup>*\<^sup>* ?u ?v" by (rule time_passes)
  moreover have "tm_step api period ?v (callback_count api ?v)"
    by (rule tm_step.fires [where e = "jiffies s + period"])
      (simp_all add: callback_store_def callback_rearm_def timer_lawsD(1) [OF assms(1)])
  ultimately have "(tm_step api period)\<^sup>*\<^sup>* s (callback_count api ?v)"
    by (meson converse_rtranclp_into_rtranclp rtranclp.rtrancl_into_rtrancl)
  moreover have "fired (callback_count api ?v) = fired s @ [jiffies s + period]"
    by (simp add: callback_count_def callback_store_def callback_rearm_def)
  ultimately show ?thesis by blast
qed

text \<open>
  C37. When unloading stops the timer. From a state with the module loaded, an unload can be followed by
  another call of the callback exactly if \<^verbatim>\<open>del_timer\<close> does not wait for a running callback (it is documented not
  to) and the unload comes after the callback has counted and before it has armed the timer again; the code of the
  module is then called although it is gone. An unload at any other moment, a timer that is armed or a callback
  that has armed it again included, is final.
\<close>

theorem std_timer_survives_unload:
  assumes "timer_laws api" and "loaded s"
  shows "(\<exists>u t. tm_step api period s u \<and> \<not> loaded u \<and> (tm_step api period)\<^sup>*\<^sup>* u t \<and> fired t \<noteq> fired s) \<longleftrightarrow>
    \<not> tm_del_waits api \<and> (\<exists>n. callback s = Counted n)"
proof -
  let ?u = "timer_exit_module api s"
  have lhs: "(\<exists>u t. tm_step api period s u \<and> \<not> loaded u \<and> (tm_step api period)\<^sup>*\<^sup>* u t \<and> fired t \<noteq> fired s) \<longleftrightarrow>
      (callback s = Idle \<or> \<not> tm_del_waits api) \<and> (\<exists>t. (tm_step api period)\<^sup>*\<^sup>* ?u t \<and> fired t \<noteq> fired s)"
    unfolding conj_assoc [symmetric] unload_step [OF assms(2)] by blast
  show ?thesis
  proof (cases "\<exists>n. callback s = Counted n")
    case True
    then obtain n where n: "callback s = Counted n" by blast
    then have "callback ?u = Counted n" "fired ?u = fired s" by (simp_all add: timer_exit_module_def)
    then obtain t where "(tm_step api period)\<^sup>*\<^sup>* ?u t" "fired t \<noteq> fired s"
      using counted_fires_again [OF assms(1), of ?u n period] by force
    then have "\<exists>t. (tm_step api period)\<^sup>*\<^sup>* ?u t \<and> fired t \<noteq> fired s" by blast
    with n show ?thesis unfolding lhs by simp
  next
    case False
    then have "disarmed api (fired s) ?u" using unload_disarms [OF assms(1)] by blast
    then have "fired t = fired s" if "(tm_step api period)\<^sup>*\<^sup>* ?u t" for t
      using timer_unloaded.reachable_inv [OF _ that] by (simp add: disarmed_def)
    then have "\<not> (\<exists>t. (tm_step api period)\<^sup>*\<^sup>* ?u t \<and> fired t \<noteq> fired s)" by blast
    with False show ?thesis unfolding lhs by blast
  qed
qed

theorem std_timer_survives_unload_witness:
  "\<exists>u t. tm_step option_timer 5 (callback_count option_timer (snd (timer_init_module option_timer 5 0))) u \<and> \<not> loaded u \<and>
     (tm_step option_timer 5)\<^sup>*\<^sup>* u t \<and> fired t \<noteq> [0]"
proof -
  let ?s = "callback_count option_timer (snd (timer_init_module option_timer 5 0))"
  have "loaded ?s" "callback ?s = Counted 1" "fired ?s = [0]"
    by (simp_all add: callback_count_def timer_init_module_def)
  moreover from this(2) have "\<not> tm_del_waits option_timer \<and> (\<exists>n. callback ?s = Counted n)" by (simp add: option_timer_def)
  ultimately show ?thesis using iffD2 [OF std_timer_survives_unload [OF option_timer_laws, of ?s 5]] by simp
qed

section \<open>hrtimer.c\<close>

datatype hr_ev = Hrtimer_init | Hrtimer_start nat | Hrtimer_cancel bool | Log_callback

datatype restart = HRTIMER_NORESTART | HRTIMER_RESTART

definition my_hrtimer_callback :: "hr_ev kst \<Rightarrow> restart \<times> hr_ev kst" where
  "my_hrtimer_callback s = (HRTIMER_NORESTART, kdo Log_callback s)"

abbreviation MS_TO_NS :: "nat \<Rightarrow> nat" where "MS_TO_NS x \<equiv> x * 1000000"

definition hrtimer_init_module :: "hr_ev kst \<Rightarrow> int \<times> hr_ev kst" where
  "hrtimer_init_module s =
     (let delay_in_ms = 200 in (0, kdo (Hrtimer_start (MS_TO_NS delay_in_ms)) (kdo Hrtimer_init s)))"

definition hrtimer_exit_module :: "(hr_ev list \<Rightarrow> bool) \<Rightarrow> hr_ev kst \<Rightarrow> hr_ev kst" where
  "hrtimer_exit_module cancel s = snd (kcall cancel Hrtimer_cancel s)"

lemma hrtimer_one_shot:
  "snd (hrtimer_init_module s) = s\<lparr>evs := evs s @ [Hrtimer_init, Hrtimer_start 200000000]\<rparr> \<and>
   fst (my_hrtimer_callback s) = HRTIMER_NORESTART"
  by (simp add: hrtimer_init_module_def my_hrtimer_callback_def kdefs)

end
