(* ===== verification/Deferred.thy ===== *)
theory Deferred
  imports KPrelude
begin

text \<open>
  \<^verbatim>\<open>tasklet_workqueue/myworkqueue.c\<close> and \<^verbatim>\<open>tasklet.c\<close>: work that is queued now and done later.

  The work items are heap blocks; \<open>w_heap\<close> maps a live block to its field \<^verbatim>\<open>x\<close>, which has no value before
  it is written. The worker runs \<^verbatim>\<open>my_wq_func\<close> on the queued items, in order; whether it has already run the
  first item when \<^verbatim>\<open>wq_init\<close> goes on to the second is up to the scheduler, the field \<open>w_ran\<close> of the
  environment. An access to a freed block is the fault \<open>UseAfterFree\<close>.
\<close>

section \<open>myworkqueue.c\<close>

datatype wq_ev =
    Create_workqueue bool
  | W_kmalloc "addr option"
  | Queue_work addr
  | Schedule_work3
  | Log_x "u32 option"
  | W_kfree addr
  | Log_here
  | Destroy_workqueue

record wq_env =
  w_create :: "wq_ev list \<Rightarrow> bool"
  w_kmalloc :: "wq_ev list \<Rightarrow> addr option"
  w_enqueue :: "addr \<Rightarrow> addr list \<Rightarrow> addr list"
  w_ran :: bool

record wq_st = "wq_ev kst" +
  w_heap :: "addr \<rightharpoonup> u32 option"
  work :: "addr option"
  work2 :: "addr option"
  wq_queue :: "addr list"

definition my_wq_func :: "addr \<Rightarrow> wq_st \<Rightarrow> fault + wq_st" where
  "my_wq_func a s =
     (case w_heap s a of
        None \<Rightarrow> Inl UseAfterFree
      | Some x \<Rightarrow> Inr (kdo (W_kfree a) ((kdo (Log_x x) s)\<lparr>w_heap := (w_heap s)(a := None)\<rparr>)))"

definition sys_work_handler :: "wq_st \<Rightarrow> wq_st" where
  "sys_work_handler s = kdo Log_here s"

text \<open>The worker takes the first item off the queue and runs it.\<close>

definition run_first :: "wq_st \<Rightarrow> fault + wq_st" where
  "run_first s = (case wq_queue s of [] \<Rightarrow> Inr s | a # q \<Rightarrow> my_wq_func a (s\<lparr>wq_queue := q\<rparr>))"

definition write_x :: "addr option \<Rightarrow> u32 \<Rightarrow> wq_st \<Rightarrow> fault + wq_st" where
  "write_x p x s =
     (case p of
        None \<Rightarrow> Inl NullDeref
      | Some a \<Rightarrow> if w_heap s a = None then Inl UseAfterFree else Inr (s\<lparr>w_heap := (w_heap s)(a \<mapsto> Some x)\<rparr>))"

text \<open>A call of \<^verbatim>\<open>queue_work\<close>; what it does to the queue is the kernel's, documented to be that an item that is not
  queued yet goes to the end.\<close>

definition queue_work :: "wq_env \<Rightarrow> addr \<Rightarrow> wq_st \<Rightarrow> wq_st" where
  "queue_work env a s = (kdo (Queue_work a) s)\<lparr>wq_queue := w_enqueue env a (wq_queue s)\<rparr>"

definition enqueue_law :: "wq_env \<Rightarrow> bool" where
  "enqueue_law env \<longleftrightarrow> (\<forall>a q. a \<notin> set q \<longrightarrow> w_enqueue env a q = q @ [a])"

definition w_alloc :: "wq_env \<Rightarrow> wq_st \<Rightarrow> addr option \<times> wq_st" where
  "w_alloc env s =
     (case kcall (w_kmalloc env) W_kmalloc s of
        (None, s1) \<Rightarrow> (None, s1)
      | (Some a, s1) \<Rightarrow> (Some a, s1\<lparr>w_heap := (w_heap s1)(a \<mapsto> None)\<rparr>))"

text \<open>\<^verbatim>\<open>wq_init\<close>: its first part up to the first \<^verbatim>\<open>queue_work\<close>, and the second, which writes through \<^verbatim>\<open>work\<close>
  where it means \<^verbatim>\<open>work2\<close>.\<close>

definition wq_init_first :: "wq_env \<Rightarrow> wq_st \<Rightarrow> fault + wq_st" where
  "wq_init_first env s =
     (case w_alloc env s of
        (None, s1) \<Rightarrow> Inr (s1\<lparr>work := None\<rparr>)
      | (Some a, s1) \<Rightarrow>
          (case write_x (Some a) 1 (s1\<lparr>work := Some a\<rparr>) of Inl f \<Rightarrow> Inl f | Inr s2 \<Rightarrow> Inr (queue_work env a s2)))"

definition wq_init_second :: "wq_env \<Rightarrow> wq_st \<Rightarrow> fault + wq_st" where
  "wq_init_second env s =
     (case w_alloc env s of
        (None, s1) \<Rightarrow> Inr (s1\<lparr>work2 := None\<rparr>)
      | (Some b, s1) \<Rightarrow>
          (case write_x (work s1) 2 (s1\<lparr>work2 := Some b\<rparr>) of Inl f \<Rightarrow> Inl f | Inr s2 \<Rightarrow> Inr (queue_work env b s2)))"

definition wq_init :: "wq_env \<Rightarrow> wq_st \<Rightarrow> fault + int \<times> wq_st" where
  "wq_init env s =
     (let (ok, s1) = kcall (w_create env) Create_workqueue s
      in if \<not> ok then Inr (- ENOMEM, s1)
         else case wq_init_first env s1 of
                Inl f \<Rightarrow> Inl f
              | Inr s2 \<Rightarrow>
                  (case (if w_ran env then run_first s2 else Inr s2) of
                     Inl f \<Rightarrow> Inl f
                   | Inr s3 \<Rightarrow>
                       (case wq_init_second env s3 of
                          Inl f \<Rightarrow> Inl f
                        | Inr s4 \<Rightarrow> Inr (0, kdo Schedule_work3 s4))))"

text \<open>\<^verbatim>\<open>flush_workqueue\<close> waits until the queue is empty.\<close>

fun flush :: "addr list \<Rightarrow> wq_st \<Rightarrow> fault + wq_st" where
  "flush [] s = Inr s"
| "flush (a # q) s = (case my_wq_func a s of Inl f \<Rightarrow> Inl f | Inr s1 \<Rightarrow> flush q s1)"

definition wq_exit :: "wq_st \<Rightarrow> fault + wq_st" where
  "wq_exit s =
     (case flush (wq_queue s) (s\<lparr>wq_queue := []\<rparr>) of Inl f \<Rightarrow> Inl f | Inr s1 \<Rightarrow> Inr (kdo Destroy_workqueue s1))"

fun x_ev :: "wq_ev \<Rightarrow> u32 option list" where
  "x_ev (Log_x v) = [v]"
| "x_ev _ = []"

definition x_log :: "wq_ev list \<Rightarrow> u32 option list" where
  "x_log tr = concat (map x_ev tr)"

abbreviation wq_boot :: wq_st where
  "wq_boot \<equiv> \<lparr>evs = [], w_heap = (\<lambda>_. None), work = None, work2 = None, wq_queue = []\<rparr>"

text \<open>
  What becomes of the two work items, \<open>a\<close> and \<open>b\<close> being the blocks \<^verbatim>\<open>kmalloc\<close> returns. If the worker has
  not yet run the first when the second is set up, then by the time the module is unloaded the first
  has printed 2, not 1, the second has printed a value nobody stored, and both blocks are freed. If the
  worker was faster, setting up the second writes to the freed block of the first. If the first
  allocation failed and the second did not, it writes through NULL.
\<close>

lemma wq_init_mixes_items:
  assumes "enqueue_law env" and "\<forall>tr. w_create env tr"
    and "w_kmalloc env [Create_workqueue True] = Some a" and "\<forall>tr. 1 < length tr \<longrightarrow> w_kmalloc env tr = Some b" and "a \<noteq> b"
  shows "(\<not> w_ran env \<longrightarrow> (\<exists>t u. wq_init env wq_boot = Inr (0, t) \<and> wq_exit t = Inr u \<and>
      x_log (evs u) = [Some 2, None] \<and> w_heap u = (\<lambda>_. None))) \<and>
    (w_ran env \<longrightarrow> wq_init env wq_boot = Inl UseAfterFree) \<and>
    wq_init_second env (wq_boot\<lparr>evs := [Create_workqueue True, W_kmalloc None]\<rparr>) = Inl NullDeref"
  using assms
  by (simp add: wq_init_def wq_init_first_def wq_init_second_def w_alloc_def write_x_def queue_work_def run_first_def
      my_wq_func_def wq_exit_def kdefs x_log_def fun_eq_iff enqueue_law_def)

lemma wq_init_mixes_items_witness:
  "\<exists>t u. wq_init \<lparr>w_create = (\<lambda>_. True), w_kmalloc = (\<lambda>tr. Some (if length tr < 2 then 1 else 2)), w_enqueue = (\<lambda>a q. q @ [a]), w_ran = False\<rparr> wq_boot = Inr (0, t) \<and>
     wq_exit t = Inr u \<and> x_log (evs u) = [Some 2, None]"
  using wq_init_mixes_items [of "\<lparr>w_create = (\<lambda>_. True), w_kmalloc = (\<lambda>tr. Some (if length tr < 2 then 1 else 2)), w_enqueue = (\<lambda>a q. q @ [a]), w_ran = False\<rparr>" 1 2]
  by (auto simp: enqueue_law_def)

section \<open>tasklet.c\<close>

datatype tl_ev = Tasklet_schedule | Tasklet_kill | Log_data string

definition my_tasklet_data :: string where
  "my_tasklet_data = ''my tasklet function was called''"

definition my_tasklet_func :: "string \<Rightarrow> tl_ev kst \<Rightarrow> tl_ev kst" where
  "my_tasklet_func data s = kdo (Log_data data) s"

definition tasklet_init_module :: "tl_ev kst \<Rightarrow> int \<times> tl_ev kst" where
  "tasklet_init_module s = (0, kdo Tasklet_schedule s)"

definition tasklet_cleanup_module :: "tl_ev kst \<Rightarrow> tl_ev kst" where
  "tasklet_cleanup_module s = kdo Tasklet_kill s"

lemma tasklet_stopped_last:
  "evs (tasklet_cleanup_module (my_tasklet_func my_tasklet_data (snd (tasklet_init_module s)))) =
     evs s @ [Tasklet_schedule, Log_data my_tasklet_data, Tasklet_kill]"
  by (simp add: tasklet_init_module_def my_tasklet_func_def tasklet_cleanup_module_def)

end
