(* ===== verification/Demos.thy ===== *)
theory Demos
  imports Cnum
begin

text \<open>
  The smallest modules: \<^verbatim>\<open>tty/tty.c\<close> writes a line to the terminal of the process that loads it,
  \<^verbatim>\<open>usermode_helper/usermodehelper.c\<close> starts a program, \<^verbatim>\<open>multifile\<close> is one module of four files that
  prints. Their whole behaviour is the calls they make.
\<close>

datatype dm_ev =
    Tty_write addr "byte list" nat
  | Call_usermodehelper string "string list" "string list" int
  | Printk string

section \<open>tty.c\<close>

text \<open>\<open>tty\<close> is \<^verbatim>\<open>current->signal->tty\<close>; the string is the memory behind the pointer.\<close>

definition print_string :: "addr option \<Rightarrow> byte list \<Rightarrow> dm_ev kst \<Rightarrow> dm_ev kst" where
  "print_string tty str s =
     (case tty of
        None \<Rightarrow> s
      | Some t \<Rightarrow> kdo (Tty_write t [13, 10] 2) (kdo (Tty_write t (cstr str) (strlen str)) s))"

definition print_string_init :: "addr option \<Rightarrow> dm_ev kst \<Rightarrow> int \<times> dm_ev kst" where
  "print_string_init tty s = (0, print_string tty (lit ''The module has been inserted.  Hello world!'' @ [0]) s)"

definition print_string_exit :: "addr option \<Rightarrow> dm_ev kst \<Rightarrow> dm_ev kst" where
  "print_string_exit tty s = print_string tty (lit ''The module has been removed.  Farewell world!'' @ [0]) s"

fun tty_out :: "dm_ev \<Rightarrow> (addr \<times> byte list) list" where
  "tty_out (Tty_write t bs n) = [(t, take n bs)]"
| "tty_out _ = []"

text \<open>What reaches the terminal: the string up to its terminator and a line end, or nothing at all if the
  process has no terminal.\<close>

lemma print_string_output:
  "concat (map tty_out (evs (print_string tty str s))) =
   concat (map tty_out (evs s)) @ (case tty of None \<Rightarrow> [] | Some t \<Rightarrow> [(t, cstr str), (t, [13, 10])])"
  by (simp add: print_string_def strlen_def split: option.split)

section \<open>usermodehelper.c\<close>

definition uhm_test :: "(dm_ev list \<Rightarrow> int) \<Rightarrow> dm_ev kst \<Rightarrow> int \<times> dm_ev kst" where
  "uhm_test umh s =
     kcall umh (Call_usermodehelper ''/bin/ls'' [''/bin/ls'']
       [''HOME=/'', ''TERM=linux'', ''PATH=/sbin:/bin:/usr/sbin:/usr/bin'']) s"

definition mod_entry_func :: "(dm_ev list \<Rightarrow> int) \<Rightarrow> dm_ev kst \<Rightarrow> int \<times> dm_ev kst" where
  "mod_entry_func umh s = uhm_test umh s"

definition mod_exit_func :: "dm_ev kst \<Rightarrow> dm_ev kst" where
  "mod_exit_func s = kdo (Printk ''usermodehelp exit'') s"

lemma mod_entry_func_result:
  "fst (mod_entry_func umh s) = umh (evs s) \<and> length (evs (snd (mod_entry_func umh s))) = length (evs s) + 1"
  by (simp add: mod_entry_func_def uhm_test_def)

section \<open>multifile\<close>

definition show_hello :: "dm_ev kst \<Rightarrow> dm_ev kst" where
  "show_hello s = kdo (Printk ''Hello world'') s"

definition kernel_speak :: "string \<Rightarrow> dm_ev kst \<Rightarrow> dm_ev kst" where
  "kernel_speak words s = kdo (Printk words) s"

definition init_module :: "dm_ev kst \<Rightarrow> int \<times> dm_ev kst" where
  "init_module s = (0, kdo (Printk ''Hello world - this is the kernel speaking'') (kernel_speak ''initializaion'' s))"

definition cleanup_module :: "dm_ev kst \<Rightarrow> dm_ev kst" where
  "cleanup_module s = kdo (Printk ''Short is the life of a kernel module'') (kernel_speak ''finalization'' s)"

end
