(* ===== verification/Smp.thy ===== *)
theory Smp
  imports Capture
begin

text \<open>
  The capture module of \<^verbatim>\<open>netlink/netlink.c\<close> on a machine with several processors. Any number of packets
  pass \<^verbatim>\<open>hook_func_queue\<close> at the same time, while the kernel thread sends and messages from users
  arrive. Here a step is what one of them does between two points where another may come in: one access to a
  shared variable, one region under a lock, one call of the kernel.

  \<open>hook_pc\<close> and \<open>thread_pc\<close> say where an activation of the hook and the thread are, with the values of
  their local variables; \<open>hook_step\<close> and \<open>thread_step\<close> do the next step. A message is handled as one step:
  under \<^verbatim>\<open>cap_cmd_mutex\<close> messages exclude each other, and of the variables a message changes only
  \<^verbatim>\<open>cap_nlk_portid\<close>, written once, is read by the others.

  Run alone, the steps give exactly \<open>hook_func_queue\<close> and \<open>kcapd_iter\<close> (\<open>hook_alone\<close>, \<open>thread_alone\<close>). The invariant is one of ownership: a capture buffer is on the
  free list or belongs to one activation, a socket buffer is in the queue or belongs to one activation or to
  the thread.
\<close>

section \<open>Steps\<close>

datatype hook_pc =
    H_check "byte list"
  | H_pop "byte list"
  | H_kmalloc "byte list"
  | H_new "byte list" addr
  | H_put "byte list" addr addr
  | H_rate "byte list" addr addr
  | H_queue "byte list" addr addr
  | H_wake addr
  | H_free addr
  | H_err "addr option"
  | H_done nf_verdict
  | H_fault fault

text \<open>Before each part of \<^verbatim>\<open>hook_func_queue\<close> and, from \<open>H_pop\<close> to \<open>H_put\<close> and at \<open>H_err\<close>, of the \<^verbatim>\<open>cap_buffer_alloc\<close> it
  calls. The last argument of \<open>H_put\<close>, \<open>H_rate\<close> and \<open>H_queue\<close> is the value of \<^verbatim>\<open>cb->skb\<close> that this activation stored.\<close>

fun hook_step :: "nl_env \<Rightarrow> hook_pc \<Rightarrow> nl_st \<Rightarrow> hook_pc \<times> nl_st" where
  "hook_step env (H_check pkt) s = (if cap_nlk_portid s = 0 then (H_done NF_ACCEPT, s) else (H_pop pkt, s))"
| "hook_step env (H_pop pkt) s =
     (case cap_freelist_pop env s of (Some a, s1) \<Rightarrow> (H_new pkt a, s1) | (None, s1) \<Rightarrow> (H_kmalloc pkt, s1))"
| "hook_step env (H_kmalloc pkt) s =
     (let (r, s1) = kcall (e_kmalloc env) Kmalloc_cb s
      in case r of
           None \<Rightarrow> (H_err None, s1)
         | Some a \<Rightarrow> (H_new pkt a, s1\<lparr>bufs := (bufs s1)(a := Some \<lparr>cb_skb = None, cb_data = None, cb_gfp = GFP_NONE\<rparr>)\<rparr>))"
| "hook_step env (H_new pkt a) s =
     (let s1 = upd_buf a (\<lambda>b. b\<lparr>cb_data := None, cb_gfp := GFP_KERNEL\<rparr>) s;
          (sk, s2) = kcall (e_nlmsg_new env MAX_SKB_BUFSIZE) (Nlmsg_new MAX_SKB_BUFSIZE) s1;
          s3 = upd_buf a (\<lambda>b. b\<lparr>cb_skb := sk\<rparr>) s2
      in case sk of None \<Rightarrow> (H_err (Some a), s3) | Some k \<Rightarrow> (H_put pkt a k, s3))"
| "hook_step env (H_put pkt a k) s =
     (let (m, s1) = kcall (e_nlmsg_put env k (cap_nlk_portid s) 0 NLMSG_DONE (length pkt) 0)
                          (Nlmsg_put k (cap_nlk_portid s) 0 NLMSG_DONE (length pkt) 0) s
      in case m of
           None \<Rightarrow> (H_err (Some a), upd_buf a (\<lambda>b. b\<lparr>cb_skb := None\<rparr>) (kdo (Kfree_skb k) s1))
         | Some c \<Rightarrow>
             (H_rate pkt a k, s1\<lparr>skbs := (skbs s1)(k := Some (c\<lparr>sk_payload := memcpy_at 0 (sk_payload c) pkt\<rparr>))\<rparr>))"
| "hook_step env (H_rate pkt a k) s =
     (case cap_rate_check env s of (ok, s1) \<Rightarrow> if ok = 0 then (H_done NF_ACCEPT, s1) else (H_queue pkt a k, s1))"
| "hook_step env (H_queue pkt a k) s =
     (case Option.bind (bufs s a) cb_skb of
        None \<Rightarrow> (H_fault NullDeref, s)
      | Some j \<Rightarrow>
          (H_wake a, kdo (Skb_queue_tail j)
             (upd_skb j (\<lambda>c. c\<lparr>sk_hdr := (sk_hdr c)\<lparr>nlmsg_len := of_nat (sk_len c)\<rparr>\<rparr>) s)))"
| "hook_step env (H_wake a) s = (H_free a, snd (kcall (e_qlen env) Skb_queue_len (kdo Wake_up_kcapd s)))"
| "hook_step env (H_free a) s =
     (let s1 = upd_buf a (\<lambda>b. b\<lparr>cb_skb := None\<rparr>) s
      in case cap_buffer_free (Some a) s1 of Inl f \<Rightarrow> (H_fault f, s1) | Inr s2 \<Rightarrow> (H_done NF_ACCEPT, s2))"
| "hook_step env (H_err cb) s =
     (case cap_buffer_free cb s of Inl f \<Rightarrow> (H_fault f, s) | Inr s1 \<Rightarrow> (H_done NF_ACCEPT, s1))"
| "hook_step env (H_done v) s = (H_done v, s)"
| "hook_step env (H_fault f) s = (H_fault f, s)"

text \<open>
  The loop of \<^verbatim>\<open>kcapd_thread\<close> with \<^verbatim>\<open>kcapd_send_reply\<close>. The two queue lengths are read at different times.

  \<^verbatim>\<open>wait_event_freezable(kcapd_wait, skb_queue_len(&cap_skb_queue))\<close> puts the thread on the wait queue (\<open>T_wait\<close>), tests the condition
  (\<open>T_check\<close>) and, if it does not hold, sleeps (\<open>T_sleep\<close>) until \<^verbatim>\<open>wake_up_interruptible(&kcapd_wait)\<close> is called; then
  it begins again. The condition is not looked at while the thread sleeps: \<open>woken\<close> says whether there was a wake-up since it
  went on the wait queue.
\<close>

fun wake_ev :: "nl_ev \<Rightarrow> bool \<Rightarrow> bool" where
  "wake_ev Wake_up_kcapd b = True"
| "wake_ev Wait_kcapd b = False"
| "wake_ev _ b = b"

definition woken :: "nl_ev list \<Rightarrow> bool" where
  "woken tr = fold wake_ev tr False"

lemma woken_append [simp]: "woken (tr @ es) = fold wake_ev es (woken tr)"
  by (simp add: woken_def)

datatype thread_pc =
    T_test
  | T_dequeue
  | T_log addr
  | T_backlog addr
  | T_get addr
  | T_unicast addr
  | T_sent addr int
  | T_wait
  | T_check
  | T_sleep
  | T_exit
  | T_fault fault

fun thread_step :: "nl_env \<Rightarrow> thread_pc \<Rightarrow> nl_st \<Rightarrow> thread_pc \<times> nl_st" where
  "thread_step env T_test s =
     (let (stop, s1) = kcall (e_should_stop env) Kthread_should_stop s in (if stop then T_exit else T_dequeue, s1))"
| "thread_step env T_dequeue s =
     (let (sk, s1) = kcall (e_dequeue env) Skb_dequeue s
      in case sk of Some k \<Rightarrow> (T_log k, s1) | None \<Rightarrow> (T_wait, s1))"
| "thread_step env (T_log k) s = (T_backlog k, snd (kcall (e_qlen env) Skb_queue_len s))"
| "thread_step env (T_backlog k) s =
     (let (m, s1) = kcall (e_qlen env) Skb_queue_len s
      in (T_get k, if m \<le> unat (cap_backlog_limit s1) then kdo Wake_up_backlog s1 else s1))"
| "thread_step env (T_get k) s = (T_unicast k, kdo (Skb_get k) s)"
| "thread_step env (T_unicast k) s =
     (let (err, s1) = kcall (e_unicast env (cap_sock s) k (cap_nlk_portid s))
                           (Netlink_unicast (cap_sock s) k (skbs s k) (cap_nlk_portid s)) s
      in (T_sent k err, s1))"
| "thread_step env (T_sent k err) s =
     (if err < 0
      then if err \<noteq> - ECONNREFUSED then (T_fault BugOn, s) else (T_test, s\<lparr>cap_nlk_portid := 0\<rparr>)
      else (T_test, kdo (Consume_skb k) s))"
| "thread_step env T_wait s = (T_check, kdo Wait_kcapd s)"
| "thread_step env T_check s =
     (let (n, s1) = kcall (e_qlen env) Skb_queue_len s in (if n \<noteq> 0 then T_test else T_sleep, s1))"
| "thread_step env T_sleep s = (if woken (evs s) then T_wait else T_sleep, s)"
| "thread_step env T_exit s = (T_exit, s)"
| "thread_step env (T_fault f) s = (T_fault f, s)"

text \<open>The whole module: the shared state, the activations of the hook, the thread, and every packet that
  has entered the hook so far. The freezer, or a signal, may disturb the sleeping thread at any time: it then waits again, or leaves the
  wait.\<close>

record smp =
  shared :: nl_st
  hooks :: "hook_pc list"
  thr :: thread_pc
  entered :: "byte list list"

inductive smp_step :: "nl_env \<Rightarrow> smp \<Rightarrow> smp \<Rightarrow> bool" for env where
  enter: "smp_step env \<lparr>shared = s, hooks = hs, thr = t, entered = ps\<rparr>
    \<lparr>shared = s, hooks = hs @ [H_check pkt], thr = t, entered = ps @ [pkt]\<rparr>"
| hook: "hook_step env h s = (h', s') \<Longrightarrow>
    smp_step env \<lparr>shared = s, hooks = pre @ h # post, thr = t, entered = ps\<rparr>
      \<lparr>shared = s', hooks = pre @ h' # post, thr = t, entered = ps\<rparr>"
| leave: "smp_step env \<lparr>shared = s, hooks = pre @ H_done v # post, thr = t, entered = ps\<rparr>
    \<lparr>shared = s, hooks = pre @ post, thr = t, entered = ps\<rparr>"
| message: "smp_step env \<lparr>shared = s, hooks = hs, thr = t, entered = ps\<rparr>
    \<lparr>shared = cap_receive_one env h p s, hooks = hs, thr = t, entered = ps\<rparr>"
| thread: "kcapd_task s \<noteq> None \<Longrightarrow> thread_step env t s = (t', s') \<Longrightarrow>
    smp_step env \<lparr>shared = s, hooks = hs, thr = t, entered = ps\<rparr>
      \<lparr>shared = s', hooks = hs, thr = t', entered = ps\<rparr>"
| disturbed: "t' \<in> {T_wait, T_test} \<Longrightarrow>
    smp_step env \<lparr>shared = s, hooks = hs, thr = T_sleep, entered = ps\<rparr>
      \<lparr>shared = s, hooks = hs, thr = t', entered = ps\<rparr>"

inductive_cases smp_stepE: "smp_step env g g'"

definition smp_start :: "nl_st \<Rightarrow> smp" where
  "smp_start s = \<lparr>shared = s, hooks = [], thr = T_test, entered = []\<rparr>"

section \<open>An operation that runs alone\<close>

fun hook_steps :: "nl_env \<Rightarrow> nat \<Rightarrow> hook_pc \<times> nl_st \<Rightarrow> hook_pc \<times> nl_st" where
  "hook_steps env 0 c = c"
| "hook_steps env (Suc n) c = hook_steps env n (hook_step env (fst c) (snd c))"

fun thread_steps :: "nl_env \<Rightarrow> nat \<Rightarrow> thread_pc \<times> nl_st \<Rightarrow> thread_pc \<times> nl_st" where
  "thread_steps env 0 c = c"
| "thread_steps env (Suc n) c = thread_steps env n (thread_step env (fst c) (snd c))"

lemma hook_steps_final [simp]:
  "hook_steps env n (H_done v, s) = (H_done v, s)" "hook_steps env n (H_fault f, s) = (H_fault f, s)"
  by (induction n) simp_all

definition ends_as :: "hook_pc \<times> nl_st \<Rightarrow> fault + (nf_verdict \<times> nl_st) \<Rightarrow> bool" where
  "ends_as c r \<longleftrightarrow> (case r of Inl f \<Rightarrow> fst c = H_fault f | Inr (v, t) \<Rightarrow> c = (H_done v, t))"

lemma ends_as_simps [simp]:
  "ends_as c (Inl f) \<longleftrightarrow> fst c = H_fault f" "ends_as c (Inr (v, t)) \<longleftrightarrow> c = (H_done v, t)"
  by (simp_all add: ends_as_def)

lemma alone_rate:
  "ends_as (hook_steps env (Suc (Suc (Suc (Suc n)))) (H_rate pkt a k, s))
     (case cap_rate_check env s of
        (ok, s2) \<Rightarrow>
          if ok = 0 then Inr (NF_ACCEPT, s2)
          else case Option.bind (bufs s2 a) cb_skb of
                 None \<Rightarrow> Inl NullDeref
               | Some k \<Rightarrow>
                   (let s3 = upd_skb k (\<lambda>c. c\<lparr>sk_hdr := (sk_hdr c)\<lparr>nlmsg_len := of_nat (sk_len c)\<rparr>\<rparr>) s2;
                        s4 = kdo Wake_up_kcapd (kdo (Skb_queue_tail k) s3);
                        (n, s5) = kcall (e_qlen env) Skb_queue_len s4;
                        s6 = upd_buf a (\<lambda>b. b\<lparr>cb_skb := None\<rparr>) s5
                    in case cap_buffer_free (Some a) s6 of
                         Inl f \<Rightarrow> Inl f
                       | Inr s7 \<Rightarrow> Inr (NF_ACCEPT, s7)))"
  by (cases "cap_rate_check env s")
    (simp add: Let_def case_prod_beta split: option.split sum.split)

lemma alone_new:
  assumes "cap_buffer_get env s = (Some a, s1)" and "cap_nlk_portid s \<noteq> 0"
  shows "ends_as (hook_steps env (Suc (Suc (Suc (Suc (Suc (Suc n)))))) (H_new pkt a, s1)) (hook_func_queue env pkt s)"
proof (cases "e_nlmsg_new env MAX_SKB_BUFSIZE (evs s1)")
  case None
  with assms show ?thesis
    by (simp add: hook_func_queue_def cap_buffer_alloc_def cap_buffer_err_def kcall_def Let_def split: sum.split)
next
  case (Some k)
  let ?s4 = "upd_buf a (\<lambda>b. b\<lparr>cb_skb := Some k\<rparr>) ((upd_buf a (\<lambda>b. b\<lparr>cb_data := None, cb_gfp := GFP_KERNEL\<rparr>) s1)
    \<lparr>evs := evs s1 @ [Nlmsg_new MAX_SKB_BUFSIZE (Some k)]\<rparr>)"
  have new: "hook_step env (H_new pkt a) s1 = (H_put pkt a k, ?s4)"
    using Some by (simp add: kcall_def Let_def)
  show ?thesis
  proof (cases "e_nlmsg_put env k (cap_nlk_portid ?s4) 0 NLMSG_DONE (length pkt) 0 (evs ?s4)")
    case None
    with assms Some show ?thesis
      by (simp add: hook_func_queue_def cap_buffer_alloc_def cap_buffer_err_def kcall_def Let_def split: sum.split)
  next
    case put: (Some c)
    let ?s5 = "?s4\<lparr>evs := evs ?s4 @ [Nlmsg_put k (cap_nlk_portid ?s4) 0 NLMSG_DONE (length pkt) 0 (Some c)],
      skbs := (skbs ?s4)(k := Some (c\<lparr>sk_payload := memcpy_at 0 (sk_payload c) pkt\<rparr>))\<rparr>"
    have "hook_step env (H_put pkt a k) ?s4 = (H_rate pkt a k, ?s5)"
      using put by (simp add: kcall_def Let_def)
    moreover have "cap_buffer_alloc env pkt None GFP_KERNEL NLMSG_DONE s = Inr (Some a, ?s5)"
      using assms Some put by (simp add: cap_buffer_alloc_def kcall_def Let_def)
    ultimately show ?thesis
      using alone_rate [of env n pkt a k ?s5] new assms(2) by (simp only: hook_func_queue_def hook_steps.simps fst_conv snd_conv if_False) simp
  qed
qed

lemma alone_get:
  "ends_as (hook_steps env (Suc (Suc (Suc (Suc (Suc (Suc (Suc (Suc n)))))))) (H_pop pkt, s)) (hook_func_queue env pkt s)"
  if port: "cap_nlk_portid s \<noteq> 0"
proof (cases "cap_freelist_pop env s")
  case (Pair r s1)
  show ?thesis
  proof (cases r)
    case (Some a)
    with Pair have "cap_buffer_get env s = (Some a, s1)" by (simp add: cap_buffer_get_def)
    from alone_new [OF this port, of "Suc n" pkt] Some Pair show ?thesis by simp
  next
    case None
    let ?r = "e_kmalloc env (evs s1)" and ?s2 = "s1\<lparr>evs := evs s1 @ [Kmalloc_cb (e_kmalloc env (evs s1))]\<rparr>"
    have get: "cap_buffer_get env s = (case ?r of None \<Rightarrow> (None, ?s2)
        | Some a \<Rightarrow> (Some a, ?s2\<lparr>bufs := (bufs ?s2)(a := Some \<lparr>cb_skb = None, cb_data = None, cb_gfp = GFP_NONE\<rparr>)\<rparr>))"
      using Pair None by (simp add: cap_buffer_get_def kcall_def Let_def)
    show ?thesis
    proof (cases ?r)
      case None
      then have "cap_buffer_alloc env pkt None GFP_KERNEL NLMSG_DONE s = Inl NullDeref"
        using get by (simp add: cap_buffer_alloc_none)
      with None Pair \<open>r = None\<close> port show ?thesis
        by (simp add: hook_func_queue_def cap_buffer_free_def kcall_def Let_def)
    next
      case (Some a)
      with get alone_new [OF _ port, of env a _ n pkt] Pair \<open>r = None\<close> show ?thesis
        by (simp add: kcall_def Let_def del: hook_step.simps(4))
    qed
  qed
qed

lemma hook_alone:
  "ends_as (hook_steps env 9 (H_check pkt, s)) (hook_func_queue env pkt s)"
proof (cases "cap_nlk_portid s = 0")
  case True
  then show ?thesis using hook_steps.simps(2) [of env 8 "(H_check pkt, s)"] by (simp add: hook_func_queue_def)
next
  case False
  have "Suc (Suc (Suc (Suc (Suc (Suc (Suc (Suc 0))))))) = 8" by simp
  note e = alone_get [OF False, of env 0 pkt, unfolded this]
  have "hook_steps env 9 (H_check pkt, s) = hook_steps env 8 (H_pop pkt, s)"
    using hook_steps.simps(2) [of env 8 "(H_check pkt, s)"] False by simp
  with e show ?thesis by simp
qed

lemma thread_alone:
  "case kcapd_iter env s of
     Inl f \<Rightarrow> fst (thread_steps env 7 (T_test, s)) = T_fault f
   | Inr (Sent, t) \<Rightarrow> thread_steps env 7 (T_test, s) = (T_test, t)
   | Inr (Sleeping, t) \<Rightarrow> thread_steps env 3 (T_test, s) = (T_check, t)
   | Inr (Stopped, t) \<Rightarrow> thread_steps env 1 (T_test, s) = (T_exit, t)"
proof -
  have n: "(7::nat) = Suc (Suc (Suc (Suc (Suc (Suc (Suc 0))))))" "(3::nat) = Suc (Suc (Suc 0))" by simp_all
  show ?thesis
    unfolding n by (simp add: kcapd_iter_def kcapd_send_reply_def kcall_def Let_def split: option.split)
qed

section \<open>Runs of one activation\<close>

lemma hook_steps_run:
  "(smp_step env)\<^sup>*\<^sup>* \<lparr>shared = s, hooks = pre @ h # post, thr = t, entered = ps\<rparr>
     \<lparr>shared = snd (hook_steps env n (h, s)), hooks = pre @ fst (hook_steps env n (h, s)) # post, thr = t, entered = ps\<rparr>"
proof (induction n arbitrary: h s)
  case 0
  then show ?case by simp
next
  case (Suc n)
  have "smp_step env \<lparr>shared = s, hooks = pre @ h # post, thr = t, entered = ps\<rparr>
      \<lparr>shared = snd (hook_step env h s), hooks = pre @ fst (hook_step env h s) # post, thr = t, entered = ps\<rparr>"
    by (rule smp_step.hook) simp
  with Suc [of "snd (hook_step env h s)" "fst (hook_step env h s)"] show ?case
    by (auto intro: converse_rtranclp_into_rtranclp)
qed

lemma cap_receive_one_task: "kcapd_task s \<noteq> None \<Longrightarrow> kcapd_task (cap_receive_one env h p s) = kcapd_task s"
  by (auto simp: cap_receive_one_def cap_receive_msg_def cap_dispatch_def kdefs)

lemma thread_step_task: "kcapd_task (snd (thread_step env t s)) = kcapd_task s"
  by (cases t) (simp_all add: kdefs split: option.split)

lemma thread_steps_run:
  assumes "kcapd_task s \<noteq> None"
  shows "(smp_step env)\<^sup>*\<^sup>* \<lparr>shared = s, hooks = hs, thr = t, entered = ps\<rparr>
     \<lparr>shared = snd (thread_steps env n (t, s)), hooks = hs, thr = fst (thread_steps env n (t, s)), entered = ps\<rparr>"
  using assms
proof (induction n arbitrary: t s)
  case 0
  then show ?case by simp
next
  case (Suc n)
  have "smp_step env \<lparr>shared = s, hooks = hs, thr = t, entered = ps\<rparr>
      \<lparr>shared = snd (thread_step env t s), hooks = hs, thr = fst (thread_step env t s), entered = ps\<rparr>"
    by (rule smp_step.thread [OF Suc.prems]) simp
  with Suc.IH [of "snd (thread_step env t s)" "fst (thread_step env t s)"] Suc.prems show ?case
    by (auto simp: thread_step_task intro: converse_rtranclp_into_rtranclp)
qed

text \<open>Nothing in the module stops the thread, so \<^verbatim>\<open>kthread_should_stop\<close> answers no.\<close>

definition never_stopped :: "nl_env \<Rightarrow> bool" where
  "never_stopped env \<longleftrightarrow> (\<forall>tr. \<not> e_should_stop env tr)"

section \<open>Ownership\<close>

text \<open>The capture buffers and socket buffers that belong to an activation, and to the thread.\<close>

fun buf_of :: "hook_pc \<Rightarrow> addr list" where
  "buf_of (H_new pkt a) = [a]"
| "buf_of (H_put pkt a k) = [a]"
| "buf_of (H_rate pkt a k) = [a]"
| "buf_of (H_queue pkt a k) = [a]"
| "buf_of (H_wake a) = [a]"
| "buf_of (H_free a) = [a]"
| "buf_of (H_err (Some a)) = [a]"
| "buf_of _ = []"

fun skb_of :: "hook_pc \<Rightarrow> addr list" where
  "skb_of (H_put pkt a k) = [k]"
| "skb_of (H_rate pkt a k) = [k]"
| "skb_of (H_queue pkt a k) = [k]"
| "skb_of _ = []"

fun thr_skb :: "thread_pc \<Rightarrow> addr list" where
  "thr_skb (T_log k) = [k]"
| "thr_skb (T_backlog k) = [k]"
| "thr_skb (T_get k) = [k]"
| "thr_skb (T_unicast k) = [k]"
| "thr_skb (T_sent k err) = [k]"
| "thr_skb _ = []"

text \<open>\<open>copies ps m\<close>: the message starts with the bytes of one of the packets \<open>ps\<close>.\<close>

definition copies :: "byte list list \<Rightarrow> nlskb \<Rightarrow> bool" where
  "copies ps m \<longleftrightarrow> (\<exists>pkt\<in>set ps. take (length pkt) (sk_payload m) = pkt)"

definition full :: "byte list list \<Rightarrow> nl_st \<Rightarrow> addr \<Rightarrow> bool" where
  "full ps s k \<longleftrightarrow> (\<exists>m. skbs s k = Some m \<and> copies ps m)"

definition points :: "nl_st \<Rightarrow> addr \<Rightarrow> addr \<Rightarrow> bool" where
  "points s a k \<longleftrightarrow> (\<exists>b. bufs s a = Some b \<and> cb_skb b = Some k)"

fun pc_ok :: "byte list list \<Rightarrow> nl_st \<Rightarrow> hook_pc \<Rightarrow> bool" where
  "pc_ok ps s (H_check pkt) \<longleftrightarrow> pkt \<in> set ps"
| "pc_ok ps s (H_pop pkt) \<longleftrightarrow> pkt \<in> set ps"
| "pc_ok ps s (H_kmalloc pkt) \<longleftrightarrow> pkt \<in> set ps"
| "pc_ok ps s (H_new pkt a) \<longleftrightarrow> pkt \<in> set ps"
| "pc_ok ps s (H_put pkt a k) \<longleftrightarrow> pkt \<in> set ps \<and> points s a k \<and> skb_refs (evs s) k = 1"
| "pc_ok ps s (H_rate pkt a k) \<longleftrightarrow> pkt \<in> set ps \<and> points s a k \<and> skb_refs (evs s) k = 1 \<and> full [pkt] s k"
| "pc_ok ps s (H_queue pkt a k) \<longleftrightarrow> pkt \<in> set ps \<and> points s a k \<and> skb_refs (evs s) k = 1 \<and> full [pkt] s k"
| "pc_ok ps s (H_fault f) \<longleftrightarrow> f = NullDeref"
| "pc_ok ps s _ \<longleftrightarrow> True"

fun thr_ok :: "byte list list \<Rightarrow> nl_st \<Rightarrow> thread_pc \<Rightarrow> bool" where
  "thr_ok ps s (T_log k) \<longleftrightarrow> skb_refs (evs s) k = 1 \<and> full ps s k"
| "thr_ok ps s (T_backlog k) \<longleftrightarrow> skb_refs (evs s) k = 1 \<and> full ps s k"
| "thr_ok ps s (T_get k) \<longleftrightarrow> skb_refs (evs s) k = 1 \<and> full ps s k"
| "thr_ok ps s (T_unicast k) \<longleftrightarrow> skb_refs (evs s) k = 2 \<and> full ps s k"
| "thr_ok ps s (T_sent k err) \<longleftrightarrow> skb_refs (evs s) k = 1"
| "thr_ok ps s (T_fault f) \<longleftrightarrow> f = BugOn"
| "thr_ok ps s _ \<longleftrightarrow> True"

text \<open>The addresses of a store, with the rules that the proofs compute them by.\<close>

definition allocated :: "(addr \<Rightarrow> 'b option) \<Rightarrow> addr set" where
  "allocated m = dom m"

lemma allocated_upd [simp]:
  "allocated (m(a := None)) = allocated m - {a}" "allocated (m(a := Some b)) = insert a (allocated m)"
  "allocated (m(a := map_option f (m a))) = allocated m"
  by (auto simp: allocated_def domIff)

text \<open>\<open>fl_inv s B\<close>: the allocated capture buffers are exactly those on the free list and those of \<open>B\<close>, each once.
  \<open>q_inv ps s K\<close>: the queue and \<open>K\<close> share no socket buffer, and what is in the queue is a copy of a packet.\<close>

definition fl_inv :: "nl_st \<Rightarrow> addr list \<Rightarrow> bool" where
  "fl_inv s B \<longleftrightarrow>
     cap_freelist_count s = int (length (freelist (evs s))) \<and> cap_freelist_count s \<le> CAP_MAXFREE \<and>
     distinct (cb_live (evs s)) \<and> distinct (freelist (evs s) @ B) \<and>
     set (cb_live (evs s)) = set (freelist (evs s)) \<union> set B \<and>
     allocated (bufs s) = set (cb_live (evs s))"

definition q_inv :: "byte list list \<Rightarrow> nl_st \<Rightarrow> addr list \<Rightarrow> bool" where
  "q_inv ps s K \<longleftrightarrow>
     distinct (skbq (evs s) @ K) \<and> (\<forall>k\<in>set (skbq (evs s)). skb_refs (evs s) k = 1 \<and> full ps s k) \<and>
     (\<forall>k\<in>set K. skb_refs (evs s) k \<noteq> 0)"

definition bufs_in_use :: "smp \<Rightarrow> addr list" where
  "bufs_in_use g = concat (map buf_of (hooks g))"

definition skbs_in_use :: "smp \<Rightarrow> addr list" where
  "skbs_in_use g = concat (map skb_of (hooks g)) @ thr_skb (thr g)"

definition smp_inv :: "smp \<Rightarrow> bool" where
  "smp_inv g \<longleftrightarrow>
     fl_inv (shared g) (bufs_in_use g) \<and> q_inv (entered g) (shared g) (skbs_in_use g) \<and>
     (\<forall>h\<in>set (hooks g). pc_ok (entered g) (shared g) h) \<and> thr_ok (entered g) (shared g) (thr g) \<and>
     (\<forall>(c, p, e)\<in>set (sent (evs (shared g))). \<exists>m. c = Some m \<and> copies (entered g) m) \<and>
     cap_rate_limit (shared g) = 0"

text \<open>\<open>untouched s t B K\<close>: the capture buffers \<open>B\<close> and the socket buffers \<open>K\<close> of others are as they were.\<close>

definition untouched :: "nl_st \<Rightarrow> nl_st \<Rightarrow> addr list \<Rightarrow> addr list \<Rightarrow> bool" where
  "untouched s t B K \<longleftrightarrow> (\<forall>a\<in>set B. bufs t a = bufs s a) \<and>
     (\<forall>k\<in>set K. skbs t k = skbs s k \<and> skb_refs (evs t) k = skb_refs (evs s) k)"

lemma untouched_pc_ok:
  "untouched s t (buf_of h) (skb_of h) \<Longrightarrow> pc_ok ps s h \<Longrightarrow> pc_ok ps t h"
  by (cases h) (auto simp: untouched_def points_def full_def)

lemma untouched_thr_ok: "untouched s t [] (thr_skb u) \<Longrightarrow> thr_ok ps s u \<Longrightarrow> thr_ok ps t u"
  by (cases u) (auto simp: untouched_def full_def)

lemma copies_more: "copies ps m \<Longrightarrow> copies (ps @ qs) m"
  by (auto simp: copies_def)

lemma pc_ok_more: "pc_ok ps s h \<Longrightarrow> pc_ok (ps @ qs) s h"
  by (cases h) (auto simp: full_def copies_more)

lemma thr_ok_more: "thr_ok ps s u \<Longrightarrow> thr_ok (ps @ qs) s u"
  by (cases u) (auto simp: full_def copies_more)

lemma fl_inv_mset: "fl_inv s B \<Longrightarrow> mset B = mset C \<Longrightarrow> fl_inv s C"
  using mset_eq_setD [of B C] mset_eq_imp_distinct_iff [of B C] by (auto simp: fl_inv_def)

lemma q_inv_mset: "q_inv ps s K \<Longrightarrow> mset K = mset L \<Longrightarrow> q_inv ps s L"
  using mset_eq_setD [of K L] mset_eq_imp_distinct_iff [of K L] by (auto simp: q_inv_def)

section \<open>Each step keeps what belongs to others\<close>

lemmas ownership = fl_inv_def q_inv_def untouched_def upd_buf_def upd_skb_def kdefs

lemma hook_step_pop:
  assumes "list_laws env" and "fl_inv s B" and "cap_freelist_pop env s = (r, t)"
  shows "fl_inv t ((case r of Some a \<Rightarrow> [a] | None \<Rightarrow> []) @ B) \<and> bufs t = bufs s \<and> skbs t = skbs s \<and>
    skbq (evs t) = skbq (evs s) \<and> sent (evs t) = sent (evs s) \<and> (\<forall>k. skb_refs (evs t) k = skb_refs (evs s) k) \<and>
    cap_rate_limit t = cap_rate_limit s"
proof (cases "freelist (evs s)")
  case Nil
  with assms show ?thesis by (auto simp: cap_freelist_pop_def list_laws_def ownership)
next
  case (Cons a l)
  with assms show ?thesis by (auto simp: cap_freelist_pop_def list_laws_def ownership)
qed

lemma cap_buffer_free_own:
  assumes "fl_inv s (a # B)" and "cap_buffer_free (Some a) s = Inr t"
  shows "fl_inv t B \<and> (\<forall>b\<in>set B. bufs t b = bufs s b) \<and> skbs t = skbs s \<and> skbq (evs t) = skbq (evs s) \<and>
    sent (evs t) = sent (evs s) \<and> (\<forall>k. skb_refs (evs t) k = skb_refs (evs s) k) \<and> cap_rate_limit t = cap_rate_limit s"
  using assms by (cases "cap_freelist_count s \<ge> CAP_MAXFREE") (auto simp: cap_buffer_free_def ownership)

text \<open>\<open>owner_step ps s t h' B K\<close>: after a step of an activation, which is then at \<open>h'\<close>, it owns what \<open>h'\<close> says, and the
  others, who own \<open>B\<close> and \<open>K\<close>, see no change.\<close>

definition owner_step :: "byte list list \<Rightarrow> nl_st \<Rightarrow> nl_st \<Rightarrow> hook_pc \<Rightarrow> addr list \<Rightarrow> addr list \<Rightarrow> bool" where
  "owner_step ps s t h' B K \<longleftrightarrow> fl_inv t (buf_of h' @ B) \<and> q_inv ps t (skb_of h' @ K) \<and> pc_ok ps t h' \<and>
     untouched s t B K \<and> sent (evs t) = sent (evs s) \<and> cap_rate_limit t = 0"

lemma owner_step_new:
  assumes "alloc_laws env" and "fl_inv s (a # B)" and "q_inv ps s K" and "pkt \<in> set ps" and "cap_rate_limit s = 0"
    and "hook_step env (H_new pkt a) s = (h', t)"
  shows "owner_step ps s t h' B K"
proof -
  have "a \<in> allocated (bufs s)" using assms(2) by (simp add: fl_inv_def)
  then obtain b where b: "bufs s a = Some b" by (auto simp: allocated_def)
  show ?thesis
  proof (cases "e_nlmsg_new env MAX_SKB_BUFSIZE (evs s)")
    case None
    with assms b show ?thesis by (auto simp: owner_step_def ownership full_def points_def)
  next
    case (Some k)
    then have "skb_refs (evs s) k = 0" using assms(1) by (simp add: alloc_laws_def)
    then have "k \<notin> set (skbq (evs s))" "k \<notin> set K" using assms(3) by (auto simp: q_inv_def)
    with assms b Some show ?thesis by (auto simp: owner_step_def ownership full_def points_def split: if_splits)
  qed
qed

lemma owner_step_put:
  assumes "put_laws env" and "fl_inv s (a # B)" and "q_inv ps s (k # K)" and "pc_ok ps s (H_put pkt a k)"
    and "cap_rate_limit s = 0" and "hook_step env (H_put pkt a k) s = (h', t)"
  shows "owner_step ps s t h' B K"
proof (cases "e_nlmsg_put env k (cap_nlk_portid s) 0 NLMSG_DONE (length pkt) 0 (evs s)")
  case None
  with assms show ?thesis by (auto simp: owner_step_def ownership full_def split: if_splits)
next
  case (Some c)
  have "copies [pkt] (c\<lparr>sk_payload := memcpy_at 0 (sk_payload c) pkt\<rparr>)"
    using put_lawsD [OF assms(1) Some] assms(4) by (auto simp: copies_def)
  with assms Some show ?thesis by (auto simp: owner_step_def ownership full_def points_def split: if_splits)
qed

lemma owner_step_queue:
  assumes "fl_inv s (a # B)" and "q_inv ps s (k # K)" and "pc_ok ps s (H_queue pkt a k)"
    and "cap_rate_limit s = 0" and "hook_step env (H_queue pkt a k) s = (h', t)"
  shows "owner_step ps s t h' B K"
proof -
  obtain m where "skbs s k = Some m" "copies ps m" using assms(3) by (auto simp: full_def copies_def)
  then have m: "skbs s k = Some m" "copies ps (m\<lparr>sk_hdr := h\<rparr>)" for h by (simp_all add: copies_def)
  have "Option.bind (bufs s a) cb_skb = Some k" using assms(3) by (auto simp: points_def)
  with assms m show ?thesis by (auto simp: owner_step_def ownership full_def points_def split: if_splits)
qed

lemma owner_step_free:
  assumes "fl_inv s (a # B)" and "q_inv ps s K" and "cap_rate_limit s = 0" and "cap_buffer_free (Some a) s = Inr t"
  shows "owner_step ps s t (H_done NF_ACCEPT) B K"
  using cap_buffer_free_own [OF assms(1,4)] assms(2,3) by (auto simp: owner_step_def q_inv_def untouched_def full_def)

lemma owner_step_upd_buf:
  assumes "owner_step ps (upd_buf a f s) t h' B K" and "a \<notin> set B"
  shows "owner_step ps s t h' B K"
  using assms by (auto simp: owner_step_def untouched_def upd_buf_def)

lemma owner_step_any:
  assumes laws: "list_laws env" "alloc_laws env" "put_laws env"
    and inv: "fl_inv s (buf_of h @ B)" "q_inv ps s (skb_of h @ K)" "pc_ok ps s h" "cap_rate_limit s = 0"
    and step: "hook_step env h s = (h', t)"
  shows "owner_step ps s t h' B K"
proof (cases h)
  case (H_check pkt)
  with inv step show ?thesis by (auto simp: owner_step_def untouched_def split: if_splits)
next
  case (H_pop pkt)
  obtain r u where pop: "cap_freelist_pop env s = (r, u)" by (cases "cap_freelist_pop env s")
  with H_pop inv step hook_step_pop [OF laws(1) _ pop, of B] show ?thesis
    by (auto simp: owner_step_def untouched_def q_inv_def full_def split: option.splits)
next
  case (H_kmalloc pkt)
  show ?thesis
  proof (cases "e_kmalloc env (evs s)")
    case None
    with H_kmalloc inv step show ?thesis by (auto simp: owner_step_def ownership full_def)
  next
    case (Some a)
    then have "a \<notin> set (cb_live (evs s))" using laws(2) by (simp add: alloc_laws_def)
    with Some H_kmalloc inv step show ?thesis by (auto simp: owner_step_def ownership full_def)
  qed
next
  case (H_new pkt a)
  with owner_step_new [OF laws(2)] inv step show ?thesis by simp
next
  case (H_put pkt a k)
  with owner_step_put [OF laws(3)] inv step show ?thesis by simp
next
  case (H_rate pkt a k)
  with inv step show ?thesis by (auto simp: owner_step_def untouched_def cap_rate_check_unlimited)
next
  case (H_queue pkt a k)
  with owner_step_queue inv step show ?thesis by simp
next
  case (H_wake a)
  with inv step show ?thesis by (auto simp: owner_step_def ownership full_def)
next
  case (H_free a)
  let ?s = "upd_buf a (\<lambda>b. b\<lparr>cb_skb := None\<rparr>) s"
  have "fl_inv ?s (a # B)" "q_inv ps ?s K" "cap_rate_limit ?s = 0" "a \<notin> set B"
    using H_free inv by (auto simp: ownership full_def)
  moreover obtain u where "cap_buffer_free (Some a) ?s = Inr u" by (simp add: cap_buffer_free_def)
  ultimately show ?thesis
    using H_free step owner_step_upd_buf [OF owner_step_free] by simp
next
  case (H_err cb)
  with inv step owner_step_free show ?thesis
    by (cases cb) (auto simp: owner_step_def untouched_def cap_buffer_free_def split: sum.splits)
qed (use inv step in \<open>auto simp: owner_step_def untouched_def\<close>)

text \<open>The same for a step of the thread, which owns the socket buffer it took off the queue until it is sent.\<close>

lemma thread_owner_step:
  assumes laws: "queue_laws env" and inv: "fl_inv s B" "q_inv ps s (K @ thr_skb u)" "thr_ok ps s u"
    and step: "thread_step env u s = (u', t)"
  shows "fl_inv t B \<and> q_inv ps t (K @ thr_skb u') \<and> thr_ok ps t u' \<and> untouched s t B K \<and>
    cap_rate_limit t = cap_rate_limit s \<and>
    (\<forall>x\<in>set (sent (evs t)). x \<in> set (sent (evs s)) \<or> (\<exists>m p e. x = (Some m, p, e) \<and> copies ps m))"
proof (cases u)
  case T_dequeue
  show ?thesis
  proof (cases "skbq (evs s)")
    case Nil
    with T_dequeue inv step show ?thesis by (auto simp: ownership full_def queue_lawsD [OF laws])
  next
    case (Cons k q)
    with T_dequeue inv step show ?thesis by (auto simp: ownership full_def queue_lawsD [OF laws])
  qed
next
  case (T_unicast k)
  with inv step show ?thesis by (auto simp: ownership full_def split: if_splits)
next
  case (T_sent k err)
  with inv step show ?thesis by (auto simp: ownership full_def split: if_splits)
qed (use inv step in \<open>auto simp: ownership full_def split: if_splits\<close>)

lemma message_untouched:
  assumes "fl_inv s B" and "q_inv ps s K" and "t = cap_receive_one env h p s"
  shows "fl_inv t B \<and> q_inv ps t K \<and> untouched s t B K \<and> sent (evs t) = sent (evs s) \<and>
    cap_rate_limit t = cap_rate_limit s"
  using assms
  by (auto simp: cap_receive_one_def cap_receive_msg_def cap_dispatch_def ownership full_def split: sum.splits)

section \<open>The invariant\<close>

lemma smp_step_hook_inv:
  assumes laws: "list_laws env" "alloc_laws env" "put_laws env" and step: "hook_step env h s = (h', t)"
    and inv: "smp_inv \<lparr>shared = s, hooks = pre @ h # post, thr = u, entered = ps\<rparr>"
  shows "smp_inv \<lparr>shared = t, hooks = pre @ h' # post, thr = u, entered = ps\<rparr>"
proof -
  let ?B = "concat (map buf_of pre) @ concat (map buf_of post)"
  let ?K = "concat (map skb_of pre) @ concat (map skb_of post) @ thr_skb u"
  have "fl_inv s (buf_of h @ ?B)" "q_inv ps s (skb_of h @ ?K)" "pc_ok ps s h" "cap_rate_limit s = 0"
    using inv by (auto simp: smp_inv_def bufs_in_use_def skbs_in_use_def intro: fl_inv_mset q_inv_mset)
  from owner_step_any [OF laws this step] have o: "owner_step ps s t h' ?B ?K" .
  then have un: "untouched s t ?B ?K" by (simp add: owner_step_def)
  have "pc_ok ps t x" if "x \<in> set pre \<union> set post" for x
  proof (rule untouched_pc_ok)
    show "untouched s t (buf_of x) (skb_of x)" using un that by (auto simp: untouched_def)
    show "pc_ok ps s x" using inv that by (auto simp: smp_inv_def)
  qed
  moreover have "thr_ok ps t u"
    using un inv by (intro untouched_thr_ok [of s t u ps]) (auto simp: untouched_def smp_inv_def)
  moreover have "fl_inv t (concat (map buf_of pre) @ buf_of h' @ concat (map buf_of post))"
    "q_inv ps t ((concat (map skb_of pre) @ skb_of h' @ concat (map skb_of post)) @ thr_skb u)"
    using o by (auto simp: owner_step_def intro: fl_inv_mset q_inv_mset)
  ultimately show ?thesis
    using o inv by (auto simp: smp_inv_def bufs_in_use_def skbs_in_use_def owner_step_def)
qed

lemma untouched_hooks:
  assumes "untouched s t (bufs_in_use g) (skbs_in_use g)" and "shared g = s" and "smp_inv g" and "h \<in> set (hooks g)"
  shows "pc_ok (entered g) t h"
proof (rule untouched_pc_ok)
  show "untouched s t (buf_of h) (skb_of h)"
    using assms(1,4) by (auto simp: untouched_def bufs_in_use_def skbs_in_use_def)
  show "pc_ok (entered g) s h" using assms(2-4) by (auto simp: smp_inv_def)
qed

lemma smp_step_thread_inv:
  assumes "queue_laws env" and "thread_step env u s = (u', t)"
    and inv: "smp_inv \<lparr>shared = s, hooks = hs, thr = u, entered = ps\<rparr>"
  shows "smp_inv \<lparr>shared = t, hooks = hs, thr = u', entered = ps\<rparr>"
proof -
  let ?B = "concat (map buf_of hs)" and ?K = "concat (map skb_of hs)"
  have i: "fl_inv s ?B" "q_inv ps s (?K @ thr_skb u)" "thr_ok ps s u" "cap_rate_limit s = 0"
    and sent: "\<forall>(c, p, e)\<in>set (sent (evs s)). \<exists>m. c = Some m \<and> copies ps m"
    using inv by (simp_all add: smp_inv_def bufs_in_use_def skbs_in_use_def)
  note o = thread_owner_step [OF assms(1) i(1-3) assms(2)]
  have "pc_ok ps t h" if "h \<in> set hs" for h
  proof (rule untouched_pc_ok)
    show "untouched s t (buf_of h) (skb_of h)" using o that by (auto simp: untouched_def)
    show "pc_ok ps s h" using inv that by (auto simp: smp_inv_def)
  qed
  moreover have "\<forall>(c, p, e)\<in>set (sent (evs t)). \<exists>m. c = Some m \<and> copies ps m"
    using o sent by fastforce
  ultimately show ?thesis
    using o i(4) by (simp add: smp_inv_def bufs_in_use_def skbs_in_use_def)
qed

lemma smp_step_message_inv:
  assumes inv: "smp_inv \<lparr>shared = s, hooks = hs, thr = u, entered = ps\<rparr>" (is "smp_inv ?g")
  shows "smp_inv \<lparr>shared = cap_receive_one env h p s, hooks = hs, thr = u, entered = ps\<rparr>"
proof -
  let ?t = "cap_receive_one env h p s"
  have i: "fl_inv s (bufs_in_use ?g)" "q_inv ps s (skbs_in_use ?g)" using inv by (simp_all add: smp_inv_def)
  note o = message_untouched [OF i refl, of env h p]
  have "\<forall>h\<in>set hs. pc_ok ps ?t h" using untouched_hooks [of s ?t ?g] o inv by simp
  moreover have "thr_ok ps ?t u"
    using o inv by (intro untouched_thr_ok [of s ?t u ps]) (auto simp: untouched_def smp_inv_def skbs_in_use_def)
  ultimately show ?thesis using o inv by (simp add: smp_inv_def bufs_in_use_def skbs_in_use_def)
qed

lemma smp_step_inv:
  assumes "env_laws api env" and "smp_inv g" and "smp_step env g g'"
  shows "smp_inv g'"
  using assms(3)
proof (cases rule: smp_step.cases)
  case (enter s hs t ps pkt)
  with assms(2) show ?thesis
    by (auto simp: smp_inv_def bufs_in_use_def skbs_in_use_def q_inv_def full_def intro: pc_ok_more thr_ok_more copies_more)
       (fastforce intro: copies_more)+
next
  case (hook h s h' s' pre post t ps)
  with smp_step_hook_inv [of env h s h' s' pre post t ps] assms(1,2) show ?thesis by (simp add: env_laws_def)
next
  case (leave s pre v post t ps)
  with assms(2) show ?thesis by (simp add: smp_inv_def bufs_in_use_def skbs_in_use_def)
next
  case (message s hs t ps h p)
  with smp_step_message_inv assms(2) show ?thesis by simp
next
  case (thread s t t' s' hs ps)
  with smp_step_thread_inv [of env t s t' s' hs ps] assms(1,2) show ?thesis by (simp add: env_laws_def)
next
  case (disturbed t' s hs ps)
  with assms(2) show ?thesis by (auto simp: smp_inv_def bufs_in_use_def skbs_in_use_def)
qed

lemma smp_start_inv:
  assumes "nl_started env s"
  shows "smp_inv (smp_start s)"
proof -
  note st = nl_started_inv [OF assms]
  have "freelist (evs s) = [] \<and> cb_live (evs s) = [] \<and> bufs s = (\<lambda>_. None)"
    using assms by (cases "e_sock_create env []")
      (auto simp: nl_started_def app_init_def cap_hook_init_def nl_boot_def kdefs freelist_def cb_live_def)
  with st show ?thesis
    by (simp add: smp_inv_def smp_start_def bufs_in_use_def skbs_in_use_def fl_inv_def q_inv_def nl_inv_def fl_ok_def
        allocated_def)
qed

section \<open>Where faults come from\<close>

text \<open>The history only grows.\<close>

lemma hook_step_evs: "hook_step env h s = (h', t) \<Longrightarrow> \<exists>es. evs t = evs s @ es"
proof (cases h)
  case (H_rate pkt a k)
  moreover assume "hook_step env h s = (h', t)"
  ultimately show ?thesis by (auto simp: cap_rate_check_def kdefs split: if_splits prod.splits)
qed (auto simp: cap_freelist_pop_def cap_buffer_free_def upd_buf_def upd_skb_def kdefs split: if_splits option.splits sum.splits)

lemma thread_step_evs: "thread_step env u s = (u', t) \<Longrightarrow> \<exists>es. evs t = evs s @ es"
  by (cases u) (auto simp: kdefs split: if_splits option.splits)

lemma message_evs: "\<exists>es. evs (cap_receive_one env h p s) = evs s @ es"
  by (auto simp: cap_receive_one_def cap_receive_msg_def cap_dispatch_def kdefs split: sum.splits)

text \<open>An activation that goes for the NULL pointer was refused memory for its capture buffer; the thread that stops at
  \<^verbatim>\<open>BUG_ON\<close> has got an error other than \<^verbatim>\<open>-ECONNREFUSED\<close> from \<^verbatim>\<open>netlink_unicast\<close>.\<close>

fun pc_cause :: "nl_ev list \<Rightarrow> hook_pc \<Rightarrow> bool" where
  "pc_cause tr (H_err None) \<longleftrightarrow> Kmalloc_cb None \<in> set tr"
| "pc_cause tr (H_fault f) \<longleftrightarrow> f = NullDeref \<and> Kmalloc_cb None \<in> set tr"
| "pc_cause tr _ \<longleftrightarrow> True"

fun thr_cause :: "nl_ev list \<Rightarrow> thread_pc \<Rightarrow> bool" where
  "thr_cause tr (T_sent k err) \<longleftrightarrow> (\<exists>c p. (c, p, err) \<in> set (sent tr))"
| "thr_cause tr (T_fault f) \<longleftrightarrow> f = BugOn \<and> (\<exists>c p err. (c, p, err) \<in> set (sent tr) \<and> err < 0 \<and> err \<noteq> - ECONNREFUSED)"
| "thr_cause tr _ \<longleftrightarrow> True"

definition faults_caused :: "smp \<Rightarrow> bool" where
  "faults_caused g \<longleftrightarrow> (\<forall>h\<in>set (hooks g). pc_cause (evs (shared g)) h) \<and> thr_cause (evs (shared g)) (thr g)"

lemma pc_cause_more: "pc_cause tr h \<Longrightarrow> pc_cause (tr @ es) h"
  by (induction tr h rule: pc_cause.induct) auto

lemma thr_cause_more: "thr_cause tr u \<Longrightarrow> thr_cause (tr @ es) u"
  by (cases u) auto

lemma hook_step_cause:
  assumes "hook_step env h s = (h', t)" and "pc_ok ps s h" and "pc_cause (evs s) h"
  shows "pc_cause (evs t) h'"
proof (cases h)
  case (H_err cb)
  with assms show ?thesis by (cases cb) (auto simp: cap_buffer_free_def split: sum.splits if_splits)
qed (use assms in \<open>auto simp: points_def cap_buffer_free_def kdefs split: if_splits option.splits sum.splits prod.splits\<close>)

lemma thread_step_cause:
  assumes "thread_step env u s = (u', t)" and "thr_cause (evs s) u"
  shows "thr_cause (evs t) u'"
  using assms by (cases u) (auto simp: kdefs split: if_splits option.splits, blast+)

lemma faults_caused_step:
  assumes "smp_inv g" and "faults_caused g" and "smp_step env g g'"
  shows "faults_caused g'"
  using assms(3)
proof (cases rule: smp_step.cases)
  case (hook h s h' s' pre post t ps)
  obtain es where "evs s' = evs s @ es" using hook_step_evs [OF hook(3)] by blast
  moreover have "pc_cause (evs s') h'"
    using hook_step_cause [OF hook(3), of ps] assms(1,2) hook(1) by (simp add: smp_inv_def faults_caused_def)
  ultimately show ?thesis using assms(2) hook(1,2) by (auto simp: faults_caused_def intro: pc_cause_more thr_cause_more)
next
  case (message s hs t ps h p)
  obtain es where "evs (cap_receive_one env h p s) = evs s @ es" using message_evs by blast
  with assms(2) message show ?thesis by (simp add: faults_caused_def pc_cause_more thr_cause_more)
next
  case (thread s t t' s' hs ps)
  obtain es where "evs s' = evs s @ es" using thread_step_evs [OF thread(4)] by blast
  with thread_step_cause [OF thread(4)] assms(2) thread(1,2) show ?thesis
    by (auto simp: faults_caused_def intro: pc_cause_more)
qed (use assms(2) in \<open>auto simp: faults_caused_def\<close>)

interpretation smp_system: transition_system
  "\<lambda>g. \<exists>s. env_laws api env \<and> nl_started env s \<and> g = smp_start s" "\<lambda>g g'. env_laws api env \<and> smp_step env g g'"
  "\<lambda>g. smp_inv g \<and> faults_caused g" for api env
proof
  fix g assume "\<exists>s. env_laws api env \<and> nl_started env s \<and> g = smp_start s"
  then show "smp_inv g \<and> faults_caused g" by (auto simp: smp_start_inv) (simp add: faults_caused_def smp_start_def)
next
  fix g g' assume "smp_inv g \<and> faults_caused g" and "env_laws api env \<and> smp_step env g g'"
  then show "smp_inv g' \<and> faults_caused g'" using smp_step_inv faults_caused_step by blast
qed

lemma smp_reachable_inv:
  assumes "env_laws api env" and "nl_started env s" and "(smp_step env)\<^sup>*\<^sup>* (smp_start s) g"
  shows "smp_inv g" and "faults_caused g"
proof -
  have "(\<lambda>g g'. env_laws api env \<and> smp_step env g g')\<^sup>*\<^sup>* (smp_start s) g" using assms(1,3) by simp
  with smp_system.reachable_inv [of api env "smp_start s" g] assms(1,2) show "smp_inv g" "faults_caused g" by blast+
qed

section \<open>Concrete runs\<close>

lemma demo_receive_add: "cap_receive linux_nlmsg demo_env (hdr_bytes demo_add) demo_loaded = Some demo_listening"
  using cap_receive_fold [OF linux_nlmsg_laws, of demo_env "hdr_bytes demo_add" demo_loaded] demo_msgs
  by (simp add: demo_listening_def del: nl_msgs.simps)

lemma demo_queued_state:
  "hook_func_queue demo_env [1, 2, 3] demo_listening = Inr (NF_ACCEPT, demo_queued) \<and> nl_inv demo_queued \<and>
   enqueued demo_listening demo_queued [1, 2, 3]"
  using hook_enqueues [OF demo_env_laws _ demo_env_good(1), of demo_listening "[1, 2, 3]"] demo_listening_state
  by (auto simp: demo_queued_def)

lemma demo_task: "kcapd_task demo_listening \<noteq> None"
  by (simp add: demo_listening_def cap_receive_one_def cap_receive_msg_def cap_netlink_ok_def demo_add_def
      cap_dispatch_def demo_env_def demo_loaded_def app_init_def cap_hook_init_def nl_boot_def kdefs)

text \<open>The packet goes through the hook and is sent.\<close>

lemma demo_queued_run:
  "(smp_step demo_env)\<^sup>*\<^sup>* (smp_start demo_loaded) \<lparr>shared = demo_queued, hooks = [], thr = T_test, entered = [[1, 2, 3]]\<rparr>"
proof -
  let ?g = "\<lambda>s hs ps. \<lparr>shared = s, hooks = hs, thr = T_test, entered = ps\<rparr>"
  have "hook_steps demo_env 9 (H_check [1, 2, 3], demo_listening) = (H_done NF_ACCEPT, demo_queued)"
    using hook_alone [of demo_env "[1, 2, 3]" demo_listening] demo_queued_state by simp
  then have "(smp_step demo_env)\<^sup>*\<^sup>* (?g demo_listening [H_check [1, 2, 3]] [[1, 2, 3]]) (?g demo_queued [H_done NF_ACCEPT] [[1, 2, 3]])"
    using hook_steps_run [of demo_env demo_listening "[]" "H_check [1, 2, 3]" "[]" T_test "[[1, 2, 3]]" 9] by simp
  moreover have "smp_step demo_env (?g demo_loaded [] []) (?g demo_listening [] [])"
    unfolding demo_listening_def by (rule smp_step.message)
  moreover have "smp_step demo_env (?g demo_listening [] []) (?g demo_listening [H_check [1, 2, 3]] [[1, 2, 3]])"
    using smp_step.enter [of demo_env demo_listening "[]" T_test "[]" "[1, 2, 3]"] by simp
  moreover have "smp_step demo_env (?g demo_queued [H_done NF_ACCEPT] [[1, 2, 3]]) (?g demo_queued [] [[1, 2, 3]])"
    using smp_step.leave [of demo_env demo_queued "[]" NF_ACCEPT "[]"] by simp
  ultimately show ?thesis
    unfolding smp_start_def by (meson converse_rtranclp_into_rtranclp rtranclp.rtrancl_into_rtrancl)
qed

lemma demo_sent_run:
  "\<exists>g. (smp_step demo_env)\<^sup>*\<^sup>* (smp_start demo_loaded) g \<and> sent (evs (shared g)) \<noteq> []"
proof -
  obtain k where k: "skbq (evs demo_queued) = [k]" "kcapd_task demo_queued = kcapd_task demo_listening"
    using demo_queued_state demo_listening_state by (auto simp: enqueued_def)
  have "\<not> e_should_stop demo_env tr" for tr using demo_env_good(2) by (simp add: can_send_def)
  moreover have "queue_laws demo_env" using demo_laws by simp
  ultimately obtain u where u: "kcapd_iter demo_env demo_queued = Inr (Sent, u)" "sent (evs u) \<noteq> []"
    using kcapd_iter_cons [of demo_env demo_queued k "[]"] k(1) demo_env_good(2)
    by (auto simp: Let_def can_send_def round_err_def not_less [symmetric])
  then have "thread_steps demo_env 7 (T_test, demo_queued) = (T_test, u)" using thread_alone [of demo_env demo_queued] by simp
  then have "(smp_step demo_env)\<^sup>*\<^sup>* \<lparr>shared = demo_queued, hooks = [], thr = T_test, entered = [[1, 2, 3]]\<rparr>
      \<lparr>shared = u, hooks = [], thr = T_test, entered = [[1, 2, 3]]\<rparr>"
    using thread_steps_run [of demo_queued demo_env "[]" T_test "[[1, 2, 3]]" 7] demo_task k(2) by simp
  from rtranclp_trans [OF demo_queued_run this] u(2) show ?thesis
    by (intro exI [of _ "\<lparr>shared = u, hooks = [], thr = T_test, entered = [[1, 2, 3]]\<rparr>"]) simp
qed

lemma demo_freelist: "freelist (evs demo_listening) = []"
  by (simp add: demo_listening_def demo_loaded_def cap_receive_one_def cap_receive_msg_def cap_netlink_ok_known
      cmd_known_def demo_add_def cap_dispatch_def demo_env_def app_init_def cap_hook_init_def nl_boot_def kdefs freelist_def)

text \<open>Two packets in the hook at once, one of which has got its capture buffer.\<close>

lemma demo_two_packets:
  "\<exists>g. (smp_step demo_env)\<^sup>*\<^sup>* (smp_start demo_loaded) g \<and> length (hooks g) = 2 \<and> bufs_in_use g \<noteq> []"
proof -
  let ?g = "\<lambda>s hs ps. \<lparr>shared = s, hooks = hs, thr = T_test, entered = ps\<rparr>"
  have l: "cap_nlk_portid demo_listening = 7" using demo_listening_state by simp
  obtain a where a: "e_kmalloc demo_env (evs demo_listening @ [List_empty True]) = Some a"
    using demo_env_good(1) unfolding mem_ok_def by blast
  have pop: "cap_freelist_pop demo_env demo_listening = (None, demo_listening\<lparr>evs := evs demo_listening @ [List_empty True]\<rparr>)"
    using demo_freelist demo_laws(1) by (simp add: cap_freelist_pop_def list_laws_def kdefs)
  have "fst (hook_steps demo_env (Suc (Suc (Suc 0))) (H_check [1], demo_listening)) = H_new [1] a"
    using l pop a by (simp add: kcall_def Let_def)
  then have "(smp_step demo_env)\<^sup>*\<^sup>* (?g demo_listening ([] @ H_check [1] # [H_check [2]]) [[1], [2]])
      (?g (snd (hook_steps demo_env (Suc (Suc (Suc 0))) (H_check [1], demo_listening))) ([] @ H_new [1] a # [H_check [2]]) [[1], [2]])"
    using hook_steps_run [of demo_env demo_listening "[]" "H_check [1]" "[H_check [2]]" T_test "[[1], [2]]" "Suc (Suc (Suc 0))"]
    by simp
  moreover have "smp_step demo_env (?g demo_loaded [] []) (?g demo_listening [] [])"
    unfolding demo_listening_def by (rule smp_step.message)
  moreover have "smp_step demo_env (?g demo_listening [] []) (?g demo_listening [H_check [1]] [[1]])"
    "smp_step demo_env (?g demo_listening [H_check [1]] [[1]]) (?g demo_listening ([] @ H_check [1] # [H_check [2]]) [[1], [2]])"
    using smp_step.enter [of demo_env demo_listening "[]" T_test "[]" "[1]"]
      smp_step.enter [of demo_env demo_listening "[H_check [1]]" T_test "[[1]]" "[2]"] by simp_all
  ultimately have "(smp_step demo_env)\<^sup>*\<^sup>* (smp_start demo_loaded)
      (?g (snd (hook_steps demo_env (Suc (Suc (Suc 0))) (H_check [1], demo_listening))) ([] @ H_new [1] a # [H_check [2]]) [[1], [2]])"
    unfolding smp_start_def by (meson converse_rtranclp_into_rtranclp)
  then show ?thesis by (intro exI conjI) (assumption | simp add: bufs_in_use_def)+
qed

section \<open>Properties\<close>

text \<open>
  C4. However packets, messages and the thread interleave on any number of processors: the counter of the free
  list is its length and at most 1024; the allocated capture buffers are exactly those on the free list and those
  in use by a packet in the hook, each once, so none is lost, shared or used after it was freed; no socket buffer
  is in the queue twice, or in the queue and still in use. The hook has no other fault than the NULL pointer, and that only if
  memory for a capture buffer was refused; the thread has no other than its \<^verbatim>\<open>BUG_ON\<close>, and that only if \<^verbatim>\<open>netlink_unicast\<close> returned
  an error other than \<^verbatim>\<open>-ECONNREFUSED\<close>.
\<close>

theorem smp_module_sound:
  assumes "env_laws api env" and "nl_started env s" and "(smp_step env)\<^sup>*\<^sup>* (smp_start s) g"
  shows "cap_freelist_count (shared g) = int (length (freelist (evs (shared g)))) \<and>
    cap_freelist_count (shared g) \<le> CAP_MAXFREE \<and>
    mset (cb_live (evs (shared g))) = mset (freelist (evs (shared g))) + mset (bufs_in_use g) \<and>
    distinct (cb_live (evs (shared g))) \<and> distinct (skbq (evs (shared g)) @ skbs_in_use g) \<and>
    (\<forall>k\<in>set (skbq (evs (shared g))). skb_refs (evs (shared g)) k = 1) \<and>
    (\<forall>f. H_fault f \<in> set (hooks g) \<longrightarrow> f = NullDeref \<and> Kmalloc_cb None \<in> set (evs (shared g))) \<and>
    (\<forall>f. thr g = T_fault f \<longrightarrow>
       f = BugOn \<and> (\<exists>c p err. (c, p, err) \<in> set (sent (evs (shared g))) \<and> err < 0 \<and> err \<noteq> - ECONNREFUSED))"
proof -
  note inv = smp_reachable_inv [OF assms]
  from inv(1) have fl: "fl_inv (shared g) (bufs_in_use g)" by (simp add: smp_inv_def)
  then have "mset (cb_live (evs (shared g))) = mset (freelist (evs (shared g)) @ bufs_in_use g)"
    unfolding fl_inv_def by (subst set_eq_iff_mset_eq_distinct [symmetric]) auto
  with fl inv(1) have own: "cap_freelist_count (shared g) = int (length (freelist (evs (shared g)))) \<and>
      cap_freelist_count (shared g) \<le> CAP_MAXFREE \<and>
      mset (cb_live (evs (shared g))) = mset (freelist (evs (shared g))) + mset (bufs_in_use g) \<and>
      distinct (cb_live (evs (shared g))) \<and> distinct (skbq (evs (shared g)) @ skbs_in_use g) \<and>
      (\<forall>k\<in>set (skbq (evs (shared g))). skb_refs (evs (shared g)) k = 1)"
    by (auto simp: smp_inv_def fl_inv_def q_inv_def)
  have "\<forall>f. H_fault f \<in> set (hooks g) \<longrightarrow> f = NullDeref \<and> Kmalloc_cb None \<in> set (evs (shared g))"
    using inv(2) by (fastforce simp: faults_caused_def)
  moreover have "\<forall>f. thr g = T_fault f \<longrightarrow>
      f = BugOn \<and> (\<exists>c p err. (c, p, err) \<in> set (sent (evs (shared g))) \<and> err < 0 \<and> err \<noteq> - ECONNREFUSED)"
    using inv(2) by (auto simp: faults_caused_def)
  ultimately show ?thesis using own by blast
qed

theorem smp_module_sound_witness:
  "\<exists>g. length (hooks g) = 2 \<and> bufs_in_use g \<noteq> [] \<and>
     mset (cb_live (evs (shared g))) = mset (freelist (evs (shared g))) + mset (bufs_in_use g)"
  using demo_two_packets smp_module_sound [OF demo_env_laws demo_loaded_started] by blast

end
