(* ===== verification/SmpOnce.thy ===== *)
theory SmpOnce
  imports Smp
begin

text \<open>
  What becomes of each packet in the interleaved capture module of \<open>Smp\<close>. The messages sent, in the hands of the thread and in the
  queue stand in one order, to which the hook adds at the end and the thread moves the boundaries; each of them
  carries one of the packets that entered the hook, and none carries the same one as another.
\<close>

section \<open>Messages and packets\<close>

text \<open>The messages sent, the one in the hands of the thread and those in the queue, in this order; and the packets in the
  hook that are not yet in the queue.\<close>

fun thr_unsent :: "thread_pc \<Rightarrow> addr list" where
  "thr_unsent (T_log k) = [k]"
| "thr_unsent (T_backlog k) = [k]"
| "thr_unsent (T_get k) = [k]"
| "thr_unsent (T_unicast k) = [k]"
| "thr_unsent _ = []"

fun hook_pkt :: "hook_pc \<Rightarrow> byte list list" where
  "hook_pkt (H_check pkt) = [pkt]"
| "hook_pkt (H_pop pkt) = [pkt]"
| "hook_pkt (H_kmalloc pkt) = [pkt]"
| "hook_pkt (H_new pkt a) = [pkt]"
| "hook_pkt (H_put pkt a k) = [pkt]"
| "hook_pkt (H_rate pkt a k) = [pkt]"
| "hook_pkt (H_queue pkt a k) = [pkt]"
| "hook_pkt _ = []"

definition sent_msgs :: "smp \<Rightarrow> nlskb option list" where
  "sent_msgs g = map fst (sent (evs (shared g)))"

definition waiting_msgs :: "smp \<Rightarrow> nlskb option list" where
  "waiting_msgs g = map (skbs (shared g)) (thr_unsent (thr g) @ skbq (evs (shared g)))"

definition hook_pkts :: "smp \<Rightarrow> byte list list" where
  "hook_pkts g = concat (map hook_pkt (hooks g))"

definition brings :: "nlskb option \<Rightarrow> byte list \<Rightarrow> bool" where
  "brings c pkt \<longleftrightarrow> (\<exists>m. c = Some m \<and> take (length pkt) (sk_payload m) = pkt)"

text \<open>A step of the hook puts its packet in the queue, goes on with it, or gives it up, and touches no other message.\<close>

lemma hook_step_moves:
  assumes "hook_step env h s = (h', t)" and "pc_ok ps s h"
  shows "sent (evs t) = sent (evs s) \<and> cap_nlk_portid t = cap_nlk_portid s \<and>
    (\<forall>j. j \<notin> set (skb_of h) \<longrightarrow> skbs t j = skbs s j) \<and>
    ((\<forall>pkt a k. h \<noteq> H_queue pkt a k) \<and> (hook_pkt h' = hook_pkt h \<or> hook_pkt h' = []) \<and> skbq (evs t) = skbq (evs s) \<or>
     (\<exists>pkt a k. h = H_queue pkt a k \<and> h' = H_wake a \<and> skbq (evs t) = skbq (evs s) @ [k] \<and> brings (skbs t k) pkt))"
proof (cases h)
  case (H_rate pkt a k)
  with assms(1) cap_rate_check_frame [of env s] show ?thesis by (auto split: if_splits prod.splits)
next
  case (H_queue pkt a k)
  then obtain m where "skbs s k = Some m" "take (length pkt) (sk_payload m) = pkt" "Option.bind (bufs s a) cb_skb = Some k"
    using assms(2) by (auto simp: full_def copies_def points_def)
  with H_queue assms(1) show ?thesis by (auto simp: kdefs upd_skb_def brings_def)
qed (use assms(1) in \<open>auto simp: cap_freelist_pop_def cap_buffer_free_def kdefs upd_buf_def
       split: if_splits option.splits sum.splits prod.splits\<close>)

lemma thr_unsent_owned: "set (thr_unsent u) \<subseteq> set (thr_skb u)"
  by (cases u) simp_all

text \<open>What a step of the hook and of the thread means for the messages.\<close>

lemma hook_step_msgs:
  assumes "smp_inv g" and "hooks g = pre @ h # post" and "hook_step env h (shared g) = (h', t)"
  defines "g' \<equiv> g\<lparr>shared := t, hooks := pre @ h' # post\<rparr>"
  shows "sent_msgs g' = sent_msgs g \<and>
    (waiting_msgs g' = waiting_msgs g \<and> (\<forall>pkt a k. h \<noteq> H_queue pkt a k) \<and> (hook_pkt h' = hook_pkt h \<or> hook_pkt h' = []) \<or>
     (\<exists>m pkt a k. waiting_msgs g' = waiting_msgs g @ [m] \<and> brings m pkt \<and> h = H_queue pkt a k \<and> h' = H_wake a))"
proof -
  have inv: "pc_ok (entered g) (shared g) h" "q_inv (entered g) (shared g) (skbs_in_use g)"
    using assms(1,2) by (auto simp: smp_inv_def)
  note p = hook_step_moves [OF assms(3) inv(1)]
  have "j \<notin> set (skb_of h)" if "j \<in> set (thr_unsent (thr g) @ skbq (evs (shared g)))" for j
    using inv(2) that assms(2) thr_unsent_owned [of "thr g"] by (auto simp: q_inv_def skbs_in_use_def)
  then have same: "map (skbs t) (thr_unsent (thr g) @ skbq (evs (shared g))) = waiting_msgs g"
    using p by (simp add: waiting_msgs_def)
  have sent: "sent_msgs g' = sent_msgs g" using p by (simp add: g'_def sent_msgs_def)
  have "waiting_msgs g' = waiting_msgs g" if "skbq (evs t) = skbq (evs (shared g))"
    using same that by (simp add: g'_def waiting_msgs_def)
  moreover have "waiting_msgs g' = waiting_msgs g @ [skbs t k]" if "skbq (evs t) = skbq (evs (shared g)) @ [k]" for k
    using same that by (simp add: g'_def waiting_msgs_def)
  ultimately show ?thesis using p sent by fastforce
qed

lemma thread_step_msgs:
  assumes "queue_laws env" and "thread_step env (thr g) (shared g) = (u, t)"
  defines "g' \<equiv> g\<lparr>shared := t, thr := u\<rparr>"
  shows "sent_msgs g' = sent_msgs g \<and> waiting_msgs g' = waiting_msgs g \<or>
    (\<exists>m. waiting_msgs g = m # waiting_msgs g' \<and> sent_msgs g' = sent_msgs g @ [m])"
  using assms(2) unfolding g'_def
  by (cases "thr g"; cases "skbq (evs (shared g))")
    (auto simp: sent_msgs_def waiting_msgs_def kdefs queue_lawsD [OF assms(1)] split: if_splits)

section \<open>No packet twice\<close>

definition once :: "smp \<Rightarrow> bool" where
  "once g \<longleftrightarrow> (\<exists>ps. list_all2 brings (sent_msgs g @ waiting_msgs g) ps \<and> mset (ps @ hook_pkts g) \<subseteq># mset (entered g))"

lemma once_hook:
  assumes "smp_inv g" and "once g" and "hooks g = pre @ h # post" and "hook_step env h (shared g) = (h', t)"
  shows "once (g\<lparr>shared := t, hooks := pre @ h' # post\<rparr>)" (is "once ?g'")
proof -
  obtain ps where ps: "list_all2 brings (sent_msgs g @ waiting_msgs g) ps" "mset (ps @ hook_pkts g) \<subseteq># mset (entered g)"
    using assms(2) by (auto simp: once_def)
  have pk: "hook_pkts g = concat (map hook_pkt pre) @ hook_pkt h @ concat (map hook_pkt post)"
    "hook_pkts ?g' = concat (map hook_pkt pre) @ hook_pkt h' @ concat (map hook_pkt post)"
    using assms(3) by (simp_all add: hook_pkts_def)
  from hook_step_msgs [OF assms(1,3,4)] show ?thesis
  proof (elim disjE exE conjE)
    assume same: "sent_msgs ?g' = sent_msgs g" "waiting_msgs ?g' = waiting_msgs g"
    assume "hook_pkt h' = hook_pkt h"
    with ps same pk show ?thesis unfolding once_def by (intro exI [of _ ps]) simp
  next
    assume same: "sent_msgs ?g' = sent_msgs g" "waiting_msgs ?g' = waiting_msgs g"
    assume "hook_pkt h' = []"
    then have "mset (ps @ hook_pkts ?g') \<subseteq># mset (ps @ hook_pkts g)" using pk by simp
    from subset_mset.order_trans [OF this ps(2)] ps(1) same show ?thesis unfolding once_def by (intro exI [of _ ps]) simp
  next
    fix m pkt a k
    assume q: "waiting_msgs ?g' = waiting_msgs g @ [m]" "brings m pkt"
      "h = H_queue pkt a k" "h' = H_wake a" "sent_msgs ?g' = sent_msgs g"
    have "list_all2 brings ((sent_msgs g @ waiting_msgs g) @ [m]) (ps @ [pkt])"
      using ps(1) q(2) by (intro list_all2_appendI) simp_all
    then show ?thesis unfolding once_def using ps(2) q pk by (intro exI [of _ "ps @ [pkt]"]) simp
  qed
qed

lemma message_msgs: "skbs (cap_receive_one env h p s) = skbs s \<and> skbq (evs (cap_receive_one env h p s)) = skbq (evs s) \<and>
    sent (evs (cap_receive_one env h p s)) = sent (evs s)"
  by (auto simp: cap_receive_one_def cap_receive_msg_def cap_dispatch_def kdefs split: sum.splits)

lemma once_step:
  assumes "env_laws api env" and "smp_inv g" and "once g" and "smp_step env g g'"
  shows "once g'"
  using assms(4)
proof (cases rule: smp_step.cases)
  case (enter s hs t ps pkt)
  with assms(3) show ?thesis
    by (auto simp: once_def sent_msgs_def waiting_msgs_def hook_pkts_def)
next
  case (hook h s h' s' pre post t ps)
  with once_hook [OF assms(2,3), of pre h post env h' s'] show ?thesis by simp
next
  case (leave s pre v post t ps)
  with assms(3) show ?thesis by (auto simp: once_def sent_msgs_def waiting_msgs_def hook_pkts_def)
next
  case (message s hs t ps h p)
  with assms(3) show ?thesis by (auto simp: once_def sent_msgs_def waiting_msgs_def hook_pkts_def message_msgs)
next
  case (thread s t t' s' hs ps)
  moreover have "queue_laws env" using assms(1) by (simp add: env_laws_def)
  ultimately show ?thesis
    using assms(3) thread_step_msgs [of env g t' s'] by (auto simp: once_def hook_pkts_def)
next
  case (disturbed t' s hs ps)
  with assms(3) show ?thesis by (auto simp: once_def sent_msgs_def waiting_msgs_def hook_pkts_def)
qed

lemma once_start: "nl_started env s \<Longrightarrow> once (smp_start s)"
  using nl_started_inv [of env s] by (auto simp: once_def smp_start_def sent_msgs_def waiting_msgs_def hook_pkts_def)

interpretation once_system: transition_system
  "\<lambda>g. \<exists>s. env_laws api env \<and> nl_started env s \<and> g = smp_start s" "\<lambda>g g'. env_laws api env \<and> smp_step env g g'"
  "\<lambda>g. smp_inv g \<and> once g" for api env
  by unfold_locales (auto intro: smp_start_inv once_start smp_step_inv once_step)

lemma reachable_once:
  assumes "env_laws api env" and "nl_started env s" and "(smp_step env)\<^sup>*\<^sup>* (smp_start s) g"
  shows "once g"
proof -
  have "(\<lambda>g g'. env_laws api env \<and> smp_step env g g')\<^sup>*\<^sup>* (smp_start s) g" using assms(1,3) by simp
  with once_system.reachable_inv [of api env "smp_start s" g] assms(1,2) show ?thesis by blast
qed

section \<open>The specification: a queue that may lose packets\<close>

text \<open>Packets arrive; one of those in the hook is queued at the end, or given up; the first one in the queue is delivered. Nothing is
  said about buffers, references, locks or the state of the thread.\<close>

record capture_spec =
  arrived :: "byte list list"
  in_hook :: "byte list multiset"
  queue :: "byte list list"
  delivered :: "byte list list"

inductive spec_step :: "capture_spec \<Rightarrow> capture_spec \<Rightarrow> bool" where
  arrive: "spec_step a (a\<lparr>arrived := arrived a @ [pkt], in_hook := add_mset pkt (in_hook a)\<rparr>)"
| queue: "pkt \<in># in_hook a \<Longrightarrow> spec_step a (a\<lparr>in_hook := in_hook a - {#pkt#}, queue := queue a @ [pkt]\<rparr>)"
| give_up: "pkt \<in># in_hook a \<Longrightarrow> spec_step a (a\<lparr>in_hook := in_hook a - {#pkt#}\<rparr>)"
| deliver: "queue a = pkt # ps \<Longrightarrow> spec_step a (a\<lparr>queue := ps, delivered := delivered a @ [pkt]\<rparr>)"

definition spec_start :: capture_spec where
  "spec_start = \<lparr>arrived = [], in_hook = {#}, queue = [], delivered = []\<rparr>"

definition matches :: "smp \<Rightarrow> capture_spec \<Rightarrow> bool" where
  "matches g a \<longleftrightarrow> entered g = arrived a \<and> mset (hook_pkts g) = in_hook a \<and>
     list_all2 brings (waiting_msgs g) (queue a) \<and> list_all2 brings (sent_msgs g) (delivered a)"

lemma hook_matches:
  assumes "smp_inv g" and "matches g a" and "hooks g = pre @ h # post" and "hook_step env h (shared g) = (h', t)"
  shows "\<exists>b. (b = a \<or> spec_step a b) \<and> matches (g\<lparr>shared := t, hooks := pre @ h' # post\<rparr>) b" (is "\<exists>b. _ \<and> matches ?g' b")
proof -
  have pk: "mset (hook_pkts g) = mset (hook_pkt h) + mset (concat (map hook_pkt (pre @ post)))"
    "mset (hook_pkts ?g') = mset (hook_pkt h') + mset (concat (map hook_pkt (pre @ post)))"
    using assms(3) by (simp_all add: hook_pkts_def)
  from hook_step_msgs [OF assms(1,3,4)] show ?thesis
  proof (elim conjE disjE exE)
    assume "sent_msgs ?g' = sent_msgs g" "waiting_msgs ?g' = waiting_msgs g" "hook_pkt h' = hook_pkt h"
    then have "matches ?g' a" using assms(2) pk by (simp add: matches_def)
    then show ?thesis by blast
  next
    assume same: "sent_msgs ?g' = sent_msgs g" "waiting_msgs ?g' = waiting_msgs g" and gone: "hook_pkt h' = []"
    show ?thesis
    proof (cases "hook_pkt h")
      case Nil
      then have "matches ?g' a" using assms(2) pk same gone by (simp add: matches_def)
      then show ?thesis by blast
    next
      case (Cons pkt rest)
      then have one: "hook_pkt h = [pkt]" by (cases h) auto
      then have "in_hook a = add_mset pkt (mset (hook_pkts ?g'))" using assms(2) pk gone by (simp add: matches_def)
      then have "pkt \<in># in_hook a" "matches ?g' (a\<lparr>in_hook := in_hook a - {#pkt#}\<rparr>)"
        using assms(2) same by (auto simp: matches_def)
      then show ?thesis using spec_step.give_up by blast
    qed
  next
    fix m pkt b k
    assume q: "sent_msgs ?g' = sent_msgs g" "waiting_msgs ?g' = waiting_msgs g @ [m]" "brings m pkt"
      "h = H_queue pkt b k" "h' = H_wake b"
    then have "in_hook a = add_mset pkt (mset (hook_pkts ?g'))" using assms(2) pk by (simp add: matches_def)
    then have "pkt \<in># in_hook a" "matches ?g' (a\<lparr>in_hook := in_hook a - {#pkt#}, queue := queue a @ [pkt]\<rparr>)"
      using assms(2) q by (auto simp: matches_def intro: list_all2_appendI)
    then show ?thesis using spec_step.queue by blast
  qed
qed

lemma thread_matches:
  assumes "queue_laws env" and "matches g a" and "thread_step env (thr g) (shared g) = (u, t)"
  shows "\<exists>b. (b = a \<or> spec_step a b) \<and> matches (g\<lparr>shared := t, thr := u\<rparr>) b" (is "\<exists>b. _ \<and> matches ?g' b")
proof -
  have same: "entered ?g' = entered g" "hook_pkts ?g' = hook_pkts g" by (simp_all add: hook_pkts_def)
  from thread_step_msgs [OF assms(1,3)] show ?thesis
  proof (elim disjE exE conjE)
    assume "sent_msgs ?g' = sent_msgs g" "waiting_msgs ?g' = waiting_msgs g"
    then have "matches ?g' a" using assms(2) same by (simp add: matches_def)
    then show ?thesis by blast
  next
    fix m assume m: "waiting_msgs g = m # waiting_msgs ?g'" "sent_msgs ?g' = sent_msgs g @ [m]"
    then obtain pkt ps where p: "queue a = pkt # ps" "brings m pkt" "list_all2 brings (waiting_msgs ?g') ps"
      using assms(2) by (auto simp: matches_def list_all2_Cons1)
    then have "matches ?g' (a\<lparr>queue := ps, delivered := delivered a @ [pkt]\<rparr>)"
      using assms(2) m same by (auto simp: matches_def intro: list_all2_appendI)
    with spec_step.deliver [OF p(1)] show ?thesis by blast
  qed
qed

lemma step_matches:
  assumes "env_laws api env" and "smp_inv g" and "matches g a" and "smp_step env g g'"
  shows "\<exists>b. (b = a \<or> spec_step a b) \<and> matches g' b"
  using assms(4)
proof (cases rule: smp_step.cases)
  case (enter s hs t ps pkt)
  let ?b = "a\<lparr>arrived := arrived a @ [pkt], in_hook := add_mset pkt (in_hook a)\<rparr>"
  have "matches g' ?b" using enter assms(3) by (simp add: matches_def sent_msgs_def waiting_msgs_def hook_pkts_def)
  then show ?thesis using spec_step.arrive by blast
next
  case (hook h s h' s' pre post t ps)
  with hook_matches [OF assms(2,3), of pre h post env h' s'] show ?thesis by simp
next
  case (thread s t t' s' hs ps)
  have "queue_laws env" using assms(1) by (simp add: env_laws_def)
  from thread_matches [OF this assms(3), of t' s'] thread show ?thesis by simp
qed (use assms(3) in \<open>auto simp: matches_def sent_msgs_def waiting_msgs_def hook_pkts_def message_msgs\<close>)

interpretation capture_queue: simulation
  "\<lambda>g a. smp_inv g \<and> matches g a" "\<lambda>g g'. env_laws api env \<and> smp_step env g g'" spec_step for api env
proof
  fix g a g'
  assume g: "smp_inv g \<and> matches g a" and st: "env_laws api env \<and> smp_step env g g'"
  then have "smp_inv g'" using smp_step_inv [of api env g g'] by simp
  moreover obtain b where "b = a \<or> spec_step a b" "matches g' b" using step_matches [of api env g a g'] g st by auto
  ultimately show "\<exists>b. (b = a \<or> spec_step a b) \<and> smp_inv g' \<and> matches g' b" by blast
qed

lemma start_matches: "nl_started env s \<Longrightarrow> smp_inv (smp_start s) \<and> matches (smp_start s) spec_start"
  using nl_started_inv [of env s] smp_start_inv [of env s]
  by (simp add: matches_def spec_start_def smp_start_def sent_msgs_def waiting_msgs_def hook_pkts_def)

section \<open>Properties\<close>

text \<open>
  C7. However packets, messages and the thread interleave on any number of processors, and whatever fails: the messages the
  thread has sent carry the unchanged bytes of packets that entered the hook, a different one each. So packets in the
  hook at the same time do not mix, nothing is made up, and no packet is sent twice.
\<close>

theorem packets_sent_at_most_once:
  assumes "env_laws api env" and "nl_started env s" and "(smp_step env)\<^sup>*\<^sup>* (smp_start s) g"
  shows "\<exists>ps. list_all2 (\<lambda>(c, port, err) pkt. \<exists>m. c = Some m \<and> take (length pkt) (sk_payload m) = pkt)
      (sent (evs (shared g))) ps \<and> mset ps \<subseteq># mset (entered g)"
proof -
  obtain ps where ps: "list_all2 brings (sent_msgs g @ waiting_msgs g) ps" "mset (ps @ hook_pkts g) \<subseteq># mset (entered g)"
    using reachable_once [OF assms] by (auto simp: once_def)
  then obtain qs rs where q: "ps = qs @ rs" "list_all2 brings (map fst (sent (evs (shared g)))) qs"
    by (auto simp: list_all2_append1 sent_msgs_def)
  have "mset qs \<subseteq># mset (ps @ hook_pkts g)" using q(1) by simp
  then have "mset qs \<subseteq># mset (entered g)" using ps(2) by (rule subset_mset.order_trans)
  with q(2) show ?thesis
    by (intro exI [of _ qs]) (auto simp: list_all2_conv_all_nth brings_def split: prod.split)
qed

theorem packets_sent_at_most_once_witness:
  "\<exists>g ps. sent (evs (shared (g::smp))) \<noteq> [] \<and> mset ps \<subseteq># mset (entered g) \<and>
     list_all2 (\<lambda>(c, port, err) pkt. \<exists>m. c = Some m \<and> take (length pkt) (sk_payload m) = pkt) (sent (evs (shared g))) ps"
proof -
  obtain g where g: "(smp_step demo_env)\<^sup>*\<^sup>* (smp_start demo_loaded) g" "sent (evs (shared g)) \<noteq> []"
    using demo_sent_run by blast
  with packets_sent_at_most_once [OF demo_env_laws demo_loaded_started g(1)] show ?thesis by blast
qed

text \<open>
  C8. The interleaved module implements a queue. Follow any run from the loading of the module, with packets, messages and the thread
  interleaved in any way and with any failures. State by state it is a run of the specification, in which a packet arrives, is put at
  the end of one queue or given up, and the first packet of the queue is delivered: in every state the messages sent carry the packets
  delivered there, those waiting carry the packets of its queue, in order, and the packets still in the hook are the
  same. So packets leave in the order they were queued in.
\<close>

theorem module_implements_queue:
  assumes "env_laws api env" and "nl_started env s" and "r 0 = smp_start s" and "\<forall>i<n. smp_step env (r i) (r (Suc i))"
  shows "\<exists>a. a 0 = spec_start \<and> (\<forall>i<n. a (Suc i) = a i \<or> spec_step (a i) (a (Suc i))) \<and>
    (\<forall>i\<le>n. entered (r i) = arrived (a i) \<and> mset (hook_pkts (r i)) = in_hook (a i) \<and>
       list_all2 brings (waiting_msgs (r i)) (queue (a i)) \<and> list_all2 brings (sent_msgs (r i)) (delivered (a i)))"
proof -
  have "smp_inv (r 0) \<and> matches (r 0) spec_start" using start_matches [OF assms(2)] assms(3) by simp
  moreover have "\<forall>i<n. env_laws api env \<and> smp_step env (r i) (r (Suc i))" using assms(1,4) by simp
  ultimately obtain a where a: "a 0 = spec_start" "\<forall>i<n. a (Suc i) = a i \<or> spec_step (a i) (a (Suc i))"
    "\<forall>i\<le>n. smp_inv (r i) \<and> matches (r i) (a i)"
    using capture_queue.simulate_run [of r spec_start n api env] by blast
  then show ?thesis unfolding matches_def by blast
qed

theorem module_implements_queue_witness:
  "\<exists>r n a. sent (evs (shared (r n :: smp))) \<noteq> [] \<and> a 0 = spec_start \<and>
     (\<forall>i<n. a (Suc i) = a i \<or> spec_step (a i) (a (Suc i))) \<and> list_all2 brings (sent_msgs (r n)) (delivered (a n))"
proof -
  obtain g where g: "(smp_step demo_env)\<^sup>*\<^sup>* (smp_start demo_loaded) g" "sent (evs (shared g)) \<noteq> []"
    using demo_sent_run by blast
  then obtain r n where r: "r 0 = smp_start demo_loaded" "r n = g" "\<forall>i<n. smp_step demo_env (r i) (r (Suc i))"
    by (auto simp: rtranclp_power relpowp_fun_conv)
  from module_implements_queue [OF demo_env_laws demo_loaded_started r(1,3)] g(2) r(2) show ?thesis by blast
qed

end
