(* ===== verification/SmpLive.thy ===== *)
theory SmpLive
  imports SmpOnce
begin

text \<open>
  Progress of the interleaved capture module of \<open>Smp\<close>. When no new packet and no message arrives, the packets in the hook
  and the thread have a bounded amount of work left (\<open>work\<close>), which no step increases; with memory and a working socket,
  the module can always come to rest (\<open>quiet_run_rests\<close>), with the queue empty and every capture buffer back on the free list
  (\<open>rest_no_leak\<close>). \<open>SmpFair\<close> shows that it does so in every fair run.
\<close>

section \<open>The work that is left\<close>

text \<open>The steps an activation and the thread still have to do; six for a queued packet.\<close>

fun hook_weight :: "hook_pc \<Rightarrow> nat" where
  "hook_weight (H_check pkt) = 16"
| "hook_weight (H_pop pkt) = 15"
| "hook_weight (H_kmalloc pkt) = 14"
| "hook_weight (H_new pkt a) = 13"
| "hook_weight (H_put pkt a k) = 12"
| "hook_weight (H_rate pkt a k) = 11"
| "hook_weight (H_queue pkt a k) = 10"
| "hook_weight (H_wake a) = 3"
| "hook_weight (H_free a) = 2"
| "hook_weight (H_err cb) = 2"
| "hook_weight (H_done v) = 1"
| "hook_weight (H_fault f) = 0"

fun thr_weight :: "thread_pc \<Rightarrow> nat" where
  "thr_weight (T_log k) = 5"
| "thr_weight (T_backlog k) = 4"
| "thr_weight (T_get k) = 3"
| "thr_weight (T_unicast k) = 2"
| "thr_weight (T_sent k err) = 1"
| "thr_weight _ = 0"

definition work :: "smp \<Rightarrow> nat" where
  "work g = sum_list (map hook_weight (hooks g)) + 6 * length (skbq (evs (shared g))) + thr_weight (thr g)"

text \<open>The steps inside the module, without new packets and messages.\<close>

inductive quiet_step :: "nl_env \<Rightarrow> smp \<Rightarrow> smp \<Rightarrow> bool" for env where
  hook: "hook_step env h s = (h', s') \<Longrightarrow>
    quiet_step env \<lparr>shared = s, hooks = pre @ h # post, thr = t, entered = ps\<rparr>
      \<lparr>shared = s', hooks = pre @ h' # post, thr = t, entered = ps\<rparr>"
| leave: "quiet_step env \<lparr>shared = s, hooks = pre @ H_done v # post, thr = t, entered = ps\<rparr>
    \<lparr>shared = s, hooks = pre @ post, thr = t, entered = ps\<rparr>"
| thread: "kcapd_task s \<noteq> None \<Longrightarrow> thread_step env t s = (t', s') \<Longrightarrow>
    quiet_step env \<lparr>shared = s, hooks = hs, thr = t, entered = ps\<rparr>
      \<lparr>shared = s', hooks = hs, thr = t', entered = ps\<rparr>"
| disturbed: "t' \<in> {T_wait, T_test} \<Longrightarrow>
    quiet_step env \<lparr>shared = s, hooks = hs, thr = T_sleep, entered = ps\<rparr>
      \<lparr>shared = s, hooks = hs, thr = t', entered = ps\<rparr>"

lemma quiet_step_smp: "quiet_step env g g' \<Longrightarrow> smp_step env g g'"
  by (induction rule: quiet_step.induct) (auto intro: smp_step.intros)

text \<open>An activation that has not ended does work with every step; the thread never makes more of it, and less unless
  it finds the queue empty.\<close>

lemma hook_step_queue:
  assumes "hook_step env h s = (h', t)"
  shows "length (skbq (evs t)) = length (skbq (evs s)) + (case (h, h') of (H_queue _ _ _, H_wake _) \<Rightarrow> 1 | _ \<Rightarrow> 0) \<and>
    kcapd_task t = kcapd_task s"
proof (cases h)
  case (H_rate pkt a k)
  with assms show ?thesis using cap_rate_check_frame [of env s] by (auto split: if_splits prod.splits)
qed (use assms in \<open>auto simp: cap_freelist_pop_def cap_buffer_free_def upd_buf_def upd_skb_def kdefs
       split: if_splits option.splits sum.splits\<close>)

lemma hook_step_weight:
  assumes "hook_step env h s = (h', t)" and "\<forall>v. h \<noteq> H_done v" and "\<forall>f. h \<noteq> H_fault f"
  shows "hook_weight h' + 6 * length (skbq (evs t)) < hook_weight h + 6 * length (skbq (evs s))"
  using hook_step_queue [OF assms(1)] assms
  by (cases h) (auto simp: kdefs split: if_splits option.splits sum.splits prod.splits hook_pc.splits)

lemma thread_step_weight:
  assumes "queue_laws env" and "thread_step env u s = (u', t)"
  shows "thr_weight u' + 6 * length (skbq (evs t)) \<le> thr_weight u + 6 * length (skbq (evs s))"
    and "thr_weight u \<noteq> 0 \<or> u = T_dequeue \<and> skbq (evs s) \<noteq> [] \<Longrightarrow>
      thr_weight u' + 6 * length (skbq (evs t)) < thr_weight u + 6 * length (skbq (evs s))"
  using assms(2)
  by (cases u; cases "skbq (evs s)"; auto simp: kdefs queue_lawsD [OF assms(1)] split: if_splits option.splits)+

lemma quiet_step_work:
  assumes "queue_laws env" and "quiet_step env g g'"
  shows "work g' \<le> work g"
  using assms(2)
proof (cases rule: quiet_step.cases)
  case (hook h s h' s' pre post t ps)
  show ?thesis
  proof (cases "(\<exists>v. h = H_done v) \<or> (\<exists>f. h = H_fault f)")
    case True
    with hook show ?thesis by (auto simp: work_def)
  next
    case False
    with hook hook_step_weight [of env h s h' s'] show ?thesis by (auto simp: work_def)
  qed
next
  case (leave s pre v post t ps)
  then show ?thesis by (simp add: work_def)
next
  case (thread s t t' s' hs ps)
  with thread_step_weight(1) [OF assms(1), of t s t' s'] show ?thesis by (simp add: work_def)
next
  case (disturbed t' s hs ps)
  then show ?thesis by (auto simp: work_def)
qed

section \<open>No wake-up is lost\<close>

text \<open>If the thread sleeps although a packet is in the queue, a wake-up has come since it went on the wait queue, or the packet in
  the hook that is to send one has put its message in the queue and has not yet got to it.\<close>

definition wakeup_pending :: "smp \<Rightarrow> bool" where
  "wakeup_pending g \<longleftrightarrow>
     (thr g = T_sleep \<and> skbq (evs (shared g)) \<noteq> [] \<longrightarrow> woken (evs (shared g)) \<or> (\<exists>a. H_wake a \<in> set (hooks g)))"

lemma cap_rate_check_woken: "woken (evs (snd (cap_rate_check env s))) = woken (evs s)"
  by (simp add: cap_rate_check_def kdefs split: prod.split)

lemma hook_step_woken:
  assumes "hook_step env h s = (h', t)"
  shows "(woken (evs s) \<longrightarrow> woken (evs t)) \<and> ((\<exists>a. h = H_wake a) \<longrightarrow> woken (evs t)) \<and>
    (skbq (evs t) = skbq (evs s) \<or> (\<exists>a. h' = H_wake a))"
proof (cases h)
  case (H_rate pkt a k)
  with assms cap_rate_check_frame [of env s] cap_rate_check_woken [of env s] show ?thesis by (auto split: if_splits prod.splits)
qed (use assms in \<open>auto simp: cap_freelist_pop_def cap_buffer_free_def upd_buf_def upd_skb_def kdefs
       split: if_splits option.splits sum.splits\<close>)

lemma message_woken: "woken (evs (cap_receive_one env h p s)) = woken (evs s)"
  by (auto simp: cap_receive_one_def cap_receive_msg_def cap_dispatch_def kdefs split: sum.splits)

lemma wakeup_pending_step:
  assumes "queue_laws env" and "wakeup_pending g" and "smp_step env g g'"
  shows "wakeup_pending g'"
  using assms(3)
proof (cases rule: smp_step.cases)
  case (hook h s h' s' pre post t ps)
  with hook_step_woken [OF hook(3)] assms(2) show ?thesis by (auto simp: wakeup_pending_def)
next
  case (message s hs t ps h p)
  with message_woken [of env h p s] message_msgs [of env h p s] assms(2) show ?thesis by (simp add: wakeup_pending_def)
next
  case (thread s t t' s' hs ps)
  with assms(2) show ?thesis
    by (cases t) (auto simp: wakeup_pending_def kdefs queue_lawsD [OF assms(1)] split: if_splits option.splits)
qed (use assms(2) in \<open>auto simp: wakeup_pending_def\<close>)

interpretation wake_system: transition_system
  "\<lambda>g. \<exists>s. g = smp_start s" "\<lambda>g g'. queue_laws env \<and> smp_step env g g'" wakeup_pending for env
proof
  fix g assume "\<exists>s. g = smp_start s"
  then show "wakeup_pending g" by (auto simp: wakeup_pending_def smp_start_def)
qed (use wakeup_pending_step in blast)

lemma reachable_wakeup:
  assumes "queue_laws env" and "(smp_step env)\<^sup>*\<^sup>* (smp_start s) g"
  shows "wakeup_pending g"
proof -
  have "(\<lambda>g g'. queue_laws env \<and> smp_step env g g')\<^sup>*\<^sup>* (smp_start s) g" using assms by simp
  with wake_system.reachable_inv [of "smp_start s" env g] show ?thesis by blast
qed

section \<open>Without errors\<close>

text \<open>With memory for capture buffers and a socket that works, no activation is on its way to the NULL pointer, and the
  thread has not failed.\<close>

fun calm_pc :: "hook_pc \<Rightarrow> bool" where
  "calm_pc (H_err None) = False"
| "calm_pc (H_fault f) = False"
| "calm_pc _ = True"

fun calm_thr :: "thread_pc \<Rightarrow> bool" where
  "calm_thr (T_sent k err) \<longleftrightarrow> 0 \<le> err"
| "calm_thr T_exit = False"
| "calm_thr (T_fault f) = False"
| "calm_thr _ = True"

definition calm :: "smp \<Rightarrow> bool" where
  "calm g \<longleftrightarrow> (\<forall>h\<in>set (hooks g). calm_pc h) \<and> calm_thr (thr g)"

definition good_env :: "nlmsg_api \<Rightarrow> nl_env \<Rightarrow> bool" where
  "good_env api env \<longleftrightarrow> env_laws api env \<and> (\<forall>tr. e_kmalloc env tr \<noteq> None) \<and> can_send env"

lemma hook_step_calm:
  assumes "hook_step env h s = (h', t)" and "\<forall>tr. e_kmalloc env tr \<noteq> None" and "pc_ok ps s h" and "calm_pc h"
  shows "calm_pc h'"
proof (cases h)
  case (H_kmalloc pkt)
  obtain a where "e_kmalloc env (evs s) = Some a" using assms(2) by blast
  with H_kmalloc assms(1) show ?thesis by (auto simp: kdefs)
next
  case (H_err cb)
  with assms show ?thesis by (cases cb) (auto simp: cap_buffer_free_def split: sum.splits if_splits)
qed (use assms in \<open>auto simp: points_def cap_buffer_free_def kdefs split: if_splits option.splits sum.splits prod.splits\<close>)

lemma thread_step_calm:
  assumes "thread_step env u s = (u', t)" and "can_send env" and "calm_thr u"
  shows "calm_thr u'"
  using assms by (cases u) (auto simp: kdefs can_send_def split: if_splits option.splits)

lemma smp_step_calm:
  assumes "good_env api env" and "smp_inv g" and "calm g" and "smp_step env g g'"
  shows "calm g'"
  using assms(4)
proof (cases rule: smp_step.cases)
  case (hook h s h' s' pre post t ps)
  with assms(1-3) hook_step_calm [of env h s h' s' ps] show ?thesis by (auto simp: calm_def good_env_def smp_inv_def)
next
  case (thread s t t' s' hs ps)
  with assms(1,3) thread_step_calm [of env t s t' s'] show ?thesis by (auto simp: calm_def good_env_def)
qed (use assms(3) in \<open>auto simp: calm_def\<close>)

interpretation calm_system: transition_system
  "\<lambda>g. \<exists>s. good_env api env \<and> nl_started env s \<and> g = smp_start s" "\<lambda>g g'. good_env api env \<and> smp_step env g g'"
  "\<lambda>g. smp_inv g \<and> calm g" for api env
proof
  fix g assume "\<exists>s. good_env api env \<and> nl_started env s \<and> g = smp_start s"
  then show "smp_inv g \<and> calm g" by (auto simp: calm_def smp_start_def intro: smp_start_inv [unfolded smp_start_def])
next
  fix g g' assume "smp_inv g \<and> calm g" and "good_env api env \<and> smp_step env g g'"
  then show "smp_inv g' \<and> calm g'"
    using smp_step_inv [of api env] smp_step_calm [of api env] unfolding good_env_def by blast
qed

lemma reachable_calm:
  assumes "good_env api env" and "nl_started env s" and "(smp_step env)\<^sup>*\<^sup>* (smp_start s) g"
  shows "smp_inv g \<and> calm g"
proof -
  have "(\<lambda>g g'. good_env api env \<and> smp_step env g g')\<^sup>*\<^sup>* (smp_start s) g" using assms(1,3) by simp
  with calm_system.reachable_inv [of api env "smp_start s" g] assms(1,2) show ?thesis by blast
qed

section \<open>Coming to rest\<close>

definition at_rest :: "smp \<Rightarrow> bool" where
  "at_rest g \<longleftrightarrow> hooks g = [] \<and> skbq (evs (shared g)) = [] \<and> thr g = T_sleep \<and> \<not> woken (evs (shared g))"

text \<open>How many steps an idle thread is away from sleeping, or from the next packet.\<close>

definition idle_rank :: "smp \<Rightarrow> nat" where
  "idle_rank g =
     (if skbq (evs (shared g)) = []
      then (case thr g of T_test \<Rightarrow> 6 | T_dequeue \<Rightarrow> 5 | T_check \<Rightarrow> if woken (evs (shared g)) then 4 else 1
              | T_sleep \<Rightarrow> if woken (evs (shared g)) then 3 else 0 | T_wait \<Rightarrow> 2 | _ \<Rightarrow> 0)
      else (case thr g of T_sleep \<Rightarrow> 4 | T_wait \<Rightarrow> 3 | T_check \<Rightarrow> 2 | T_test \<Rightarrow> 1 | _ \<Rightarrow> 0))"

abbreviation togo :: "smp \<Rightarrow> nat" where "togo g \<equiv> 7 * work g + idle_rank g"

lemma less_work_less_togo: "work g' < work g \<Longrightarrow> togo g' < togo g"
proof -
  have "idle_rank g' \<le> 6" by (simp add: idle_rank_def split: thread_pc.split)
  then show "work g' < work g \<Longrightarrow> togo g' < togo g" by simp
qed

lemma hook_progress:
  assumes "calm g" and "hooks g = h # post"
  shows "\<exists>g'. quiet_step env g g' \<and> work g' < work g \<and> kcapd_task (shared g') = kcapd_task (shared g)"
proof -
  let ?g = "\<lambda>s hs. \<lparr>shared = s, hooks = hs, thr = thr g, entered = entered g\<rparr>"
  have g: "g = ?g (shared g) ([] @ h # post)" using assms(2) by simp
  show ?thesis
  proof (cases "\<exists>v. h = H_done v")
    case True
    then obtain v where v: "h = H_done v" ..
    have "quiet_step env (?g (shared g) ([] @ H_done v # post)) (?g (shared g) ([] @ post))" by (rule quiet_step.leave)
    then have "quiet_step env g (?g (shared g) post)" using g v by simp
    moreover have "work (?g (shared g) post) < work g" using assms(2) v by (simp add: work_def)
    ultimately show ?thesis by (intro exI [of _ "?g (shared g) post"]) simp
  next
    case False
    obtain h' t where st: "hook_step env h (shared g) = (h', t)" by (cases "hook_step env h (shared g)")
    have "quiet_step env (?g (shared g) ([] @ h # post)) (?g t ([] @ h' # post))" by (rule quiet_step.hook [OF st])
    then have "quiet_step env g (?g t (h' # post))" using g by simp
    moreover have "\<forall>f. h \<noteq> H_fault f" using assms by (auto simp: calm_def)
    then have "work (?g t (h' # post)) < work g"
      using hook_step_weight [OF st] False assms(2) by (auto simp: work_def)
    ultimately show ?thesis using hook_step_queue [OF st] by (intro exI [of _ "?g t (h' # post)"]) simp
  qed
qed

lemma thread_progress:
  assumes "good_env api env" and "calm g" and "kcapd_task (shared g) \<noteq> None" and "hooks g = []" and "\<not> at_rest g"
    and "wakeup_pending g"
  shows "\<exists>g'. quiet_step env g g' \<and> togo g' < togo g \<and> kcapd_task (shared g') = kcapd_task (shared g)"
proof -
  let ?g = "\<lambda>s u. \<lparr>shared = s, hooks = [], thr = u, entered = entered g\<rparr>"
  have laws: "queue_laws env" "can_send env" using assms(1) by (simp_all add: good_env_def env_laws_def)
  have g: "g = ?g (shared g) (thr g)" using assms(4) by simp
  obtain u t where st: "thread_step env (thr g) (shared g) = (u, t)" by (cases "thread_step env (thr g) (shared g)")
  have q: "quiet_step env g (?g t u)" using quiet_step.thread [OF assms(3) st, of "[]" "entered g"] g by simp
  have k: "kcapd_task t = kcapd_task (shared g)" using thread_step_task [of env "thr g" "shared g"] st by simp
  have "togo (?g t u) < togo g"
  proof (cases "thr_weight (thr g) \<noteq> 0 \<or> thr g = T_dequeue \<and> skbq (evs (shared g)) \<noteq> []")
    case True
    then have "work (?g t u) < work g" using thread_step_weight(2) [OF laws(1) st] assms(4) by (simp add: work_def)
    then show ?thesis by (rule less_work_less_togo)
  next
    case False
    have "\<not> e_should_stop env (evs (shared g))" using laws(2) by (simp add: can_send_def)
    moreover have "\<And>f. thr g \<noteq> T_fault f" "thr g \<noteq> T_exit" using assms(2) by (auto simp: calm_def)
    ultimately show ?thesis
      using False st assms(4-6)
      by (cases "thr g"; cases "skbq (evs (shared g))")
        (auto simp: work_def idle_rank_def at_rest_def wakeup_pending_def kdefs queue_lawsD [OF laws(1)] split: if_splits)
  qed
  with q k show ?thesis by (intro exI [of _ "?g t u"]) simp
qed

lemma quiet_run_rests:
  assumes "good_env api env" and "smp_inv g" and "calm g" and "kcapd_task (shared g) \<noteq> None" and "wakeup_pending g"
  shows "\<exists>g'. (quiet_step env)\<^sup>*\<^sup>* g g' \<and> at_rest g' \<and> smp_inv g'"
  using assms(2-5)
proof (induction "togo g" arbitrary: g rule: less_induct)
  case less
  show ?case
  proof (cases "at_rest g")
    case True
    with less.prems(1) show ?thesis by blast
  next
    case False
    obtain g1 where g1: "quiet_step env g g1" "togo g1 < togo g" "kcapd_task (shared g1) = kcapd_task (shared g)"
      using hook_progress [OF less.prems(2)] thread_progress [OF assms(1) less.prems(2,3) _ False less.prems(4)] less_work_less_togo
      by (cases "hooks g") blast+
    have "smp_inv g1" "calm g1" "wakeup_pending g1"
      using smp_step_inv [OF _ less.prems(1)] smp_step_calm [OF assms(1) less.prems(1,2)] quiet_step_smp [OF g1(1)] assms(1)
        wakeup_pending_step [OF _ less.prems(4)]
      by (auto simp: good_env_def env_laws_def)
    with less.hyps [OF g1(2)] g1(3) less.prems(3) obtain g' where
      "(quiet_step env)\<^sup>*\<^sup>* g1 g'" "at_rest g'" "smp_inv g'" by auto
    with g1(1) show ?thesis by (meson converse_rtranclp_into_rtranclp)
  qed
qed

lemma rest_no_leak:
  assumes "smp_inv g" and "hooks g = []"
  shows "mset (cb_live (evs (shared g))) = mset (freelist (evs (shared g)))"
  using assms by (intro iffD1 [OF set_eq_iff_mset_eq_distinct]) (auto simp: smp_inv_def fl_inv_def bufs_in_use_def)

section \<open>A concrete state\<close>

definition demo_in_hook :: smp where
  "demo_in_hook = \<lparr>shared = demo_listening, hooks = [H_check [1, 2]], thr = T_test, entered = [[1, 2]]\<rparr>"

lemma demo_good_env: "good_env linux_nlmsg demo_env"
  using demo_env_laws demo_env_good by (simp add: good_env_def mem_ok_def)

lemma demo_in_hook_reachable: "(smp_step demo_env)\<^sup>*\<^sup>* (smp_start demo_loaded) demo_in_hook"
proof -
  let ?g = "\<lambda>s hs ps. \<lparr>shared = s, hooks = hs, thr = T_test, entered = ps\<rparr>"
  have "smp_step demo_env (?g demo_loaded [] []) (?g demo_listening [] [])"
    unfolding demo_listening_def by (rule smp_step.message)
  moreover have "smp_step demo_env (?g demo_listening [] []) (?g demo_listening [H_check [1, 2]] [[1, 2]])"
    using smp_step.enter [of demo_env demo_listening "[]" T_test "[]" "[1, 2]"] by simp
  ultimately show ?thesis
    unfolding smp_start_def demo_in_hook_def by (auto intro: converse_rtranclp_into_rtranclp)
qed

lemma hook_reaches_wake:
  assumes "list_laws env" and "mem_ok env" and "freelist (evs s) = []" and "cap_nlk_portid s \<noteq> 0" and "cap_rate_limit s = 0"
    and "length pkt \<le> MAX_SKB_BUFSIZE"
  shows "\<exists>a k t. hook_steps env 7 (H_check pkt, s) = (H_wake a, t) \<and> skbq (evs t) = skbq (evs s) @ [k] \<and> woken (evs t) = woken (evs s)"
proof -
  let ?ev1 = "evs s @ [List_empty True]"
  obtain a where a: "e_kmalloc env ?ev1 = Some a" using assms(2) unfolding mem_ok_def by blast
  let ?ev2 = "?ev1 @ [Kmalloc_cb (Some a)]"
  obtain k where k: "e_nlmsg_new env MAX_SKB_BUFSIZE ?ev2 = Some k" using assms(2) unfolding mem_ok_def by blast
  let ?ev3 = "?ev2 @ [Nlmsg_new MAX_SKB_BUFSIZE (Some k)]"
  obtain c where c: "e_nlmsg_put env k (cap_nlk_portid s) 0 NLMSG_DONE (length pkt) 0 ?ev3 = Some c"
    using assms(2,6) unfolding mem_ok_def by blast
  have pop: "cap_freelist_pop env s = (None, s\<lparr>evs := ?ev1\<rparr>)"
    using assms(1,3) by (simp add: cap_freelist_pop_def list_laws_def kdefs)
  have seven: "(7::nat) = Suc (Suc (Suc (Suc (Suc (Suc (Suc 0))))))" by simp
  show ?thesis
    unfolding seven using assms(4,5) pop a k c by (simp add: kdefs upd_buf_def upd_skb_def cap_rate_check_unlimited)
qed

text \<open>The thread sleeps on an empty queue; then a packet comes and is queued.\<close>

lemma demo_late_wakeup:
  "\<exists>g. (smp_step demo_env)\<^sup>*\<^sup>* (smp_start demo_loaded) g \<and> thr g = T_sleep \<and> skbq (evs (shared g)) \<noteq> [] \<and>
     \<not> woken (evs (shared g))"
proof -
  let ?g = "\<lambda>s u hs ps. \<lparr>shared = s, hooks = hs, thr = u, entered = ps\<rparr>"
  let ?u = "demo_listening\<lparr>evs := evs demo_listening @ [Kthread_should_stop False, Skb_dequeue None, Wait_kcapd, Skb_queue_len 0]\<rparr>"
  have laws: "queue_laws demo_env" "list_laws demo_env" "\<not> e_should_stop demo_env tr" for tr
    using demo_laws demo_env_good(2) by (simp_all add: can_send_def)
  have l: "cap_nlk_portid demo_listening = 7" "skbq (evs demo_listening) = []" "cap_rate_limit demo_listening = 0"
    using demo_listening_state by (simp_all add: nl_inv_def)
  have five: "(5::nat) = Suc (Suc (Suc (Suc (Suc 0))))" by simp
  have "thread_steps demo_env 5 (T_test, demo_listening) = (T_sleep, ?u)"
    unfolding five using l(2) laws(3) by (simp add: kdefs queue_lawsD [OF laws(1)])
  then have sleep: "(smp_step demo_env)\<^sup>*\<^sup>* (?g demo_listening T_test [] []) (?g ?u T_sleep [] [])"
    using thread_steps_run [OF demo_task, of demo_env "[]" T_test "[]" 5] by simp
  obtain a k t where h: "hook_steps demo_env 7 (H_check [1, 2], ?u) = (H_wake a, t)" "skbq (evs t) = skbq (evs ?u) @ [k]"
    "woken (evs t) = woken (evs ?u)"
    using hook_reaches_wake [OF laws(2) demo_env_good(1), of ?u "[1, 2]"] demo_freelist l by auto
  have "(smp_step demo_env)\<^sup>*\<^sup>* (?g ?u T_sleep [H_check [1, 2]] [[1, 2]]) (?g t T_sleep [H_wake a] [[1, 2]])"
    using hook_steps_run [of demo_env ?u "[]" "H_check [1, 2]" "[]" T_sleep "[[1, 2]]" 7] h(1) by simp
  moreover have "smp_step demo_env (?g ?u T_sleep [] []) (?g ?u T_sleep [H_check [1, 2]] [[1, 2]])"
    using smp_step.enter [of demo_env ?u "[]" T_sleep "[]" "[1, 2]"] by simp
  moreover have "smp_step demo_env (smp_start demo_loaded) (?g demo_listening T_test [] [])"
    unfolding demo_listening_def smp_start_def by (rule smp_step.message)
  ultimately have "(smp_step demo_env)\<^sup>*\<^sup>* (smp_start demo_loaded) (?g t T_sleep [H_wake a] [[1, 2]])"
    using sleep by (meson converse_rtranclp_into_rtranclp rtranclp_trans)
  then show ?thesis using h(2,3) by (intro exI [of _ "?g t T_sleep [H_wake a] [[1, 2]]"]) simp
qed

section \<open>Properties\<close>

text \<open>
  C12. No wake-up is lost. However packets, messages and the thread interleave: whenever the thread sleeps, has not been woken since it
  went to wait, and yet a packet is in the queue, then a packet in the hook has just queued its message and is about to wake the thread.
  The thread tests the queue after it has gone on the wait queue, and the hook wakes it after the packet is queued.
\<close>

theorem no_lost_wakeup:
  assumes "queue_laws env" and "(smp_step env)\<^sup>*\<^sup>* (smp_start s) g"
    and "thr g = T_sleep" and "\<not> woken (evs (shared g))" and "skbq (evs (shared g)) \<noteq> []"
  shows "\<exists>a. H_wake a \<in> set (hooks g)"
  using reachable_wakeup [OF assms(1,2)] assms(3-5) by (simp add: wakeup_pending_def)

theorem no_lost_wakeup_witness:
  "\<exists>(g :: smp) a. thr g = T_sleep \<and> skbq (evs (shared g)) \<noteq> [] \<and> H_wake a \<in> set (hooks g)"
proof -
  obtain g where g: "(smp_step demo_env)\<^sup>*\<^sup>* (smp_start demo_loaded) g" "thr g = T_sleep" "skbq (evs (shared g)) \<noteq> []"
    "\<not> woken (evs (shared g))"
    using demo_late_wakeup by blast
  moreover have "queue_laws demo_env" using demo_laws by simp
  ultimately show ?thesis using no_lost_wakeup [of demo_env demo_loaded g] by blast
qed

end
