(* ===== verification/SmpFair.thy ===== *)
theory SmpFair
  imports SmpLive
begin

text \<open>
  Fair runs of the interleaved capture module. \<open>SmpLive\<close> shows that the module can come to rest; here every run in which
  the processors go on working on the packets in the hook, and the scheduler lets a thread run that has something to
  do, does come to rest, and by then has sent every packet that was in the queue or in the hook, once.
\<close>

section \<open>Who makes a step\<close>

definition hook_works :: "nl_env \<Rightarrow> smp \<Rightarrow> smp \<Rightarrow> bool" where
  "hook_works env g g' \<longleftrightarrow>
     (\<exists>pre h post. hooks g = pre @ h # post \<and>
        (case h of
           H_done v \<Rightarrow> g' = g\<lparr>hooks := pre @ post\<rparr>
         | _ \<Rightarrow> (case hook_step env h (shared g) of (h', s') \<Rightarrow> g' = g\<lparr>shared := s', hooks := pre @ h' # post\<rparr>)))"

definition thread_works :: "nl_env \<Rightarrow> smp \<Rightarrow> smp \<Rightarrow> bool" where
  "thread_works env g g' \<longleftrightarrow> kcapd_task (shared g) \<noteq> None \<and>
     (case thread_step env (thr g) (shared g) of (u, s') \<Rightarrow> g' = g\<lparr>shared := s', thr := u\<rparr>)"

definition thread_disturbed :: "smp \<Rightarrow> smp \<Rightarrow> bool" where
  "thread_disturbed g g' \<longleftrightarrow> thr g = T_sleep \<and> (g' = g\<lparr>thr := T_wait\<rparr> \<or> g' = g\<lparr>thr := T_test\<rparr>)"

lemma quiet_step_works:
  assumes "quiet_step env g g'"
  shows "hook_works env g g' \<or> thread_works env g g' \<or> thread_disturbed g g' \<or> g' = g"
  using assms
proof (cases rule: quiet_step.cases)
  case (hook h s h' s' pre post t ps)
  show ?thesis
  proof (cases "\<exists>v. h = H_done v")
    case False
    then have "hook_works env g g'" unfolding hook_works_def
      using hook by (intro exI [of _ pre] exI [of _ h] exI [of _ post]) (auto split: hook_pc.split)
    then show ?thesis ..
  qed (use hook in auto)
next
  case (leave s pre v post t ps)
  then have "hook_works env g g'"
    unfolding hook_works_def by (intro exI [of _ pre] exI [of _ "H_done v"] exI [of _ post]) simp
  then show ?thesis ..
qed (auto simp: thread_works_def thread_disturbed_def)

text \<open>The thread can run if it does not sleep or has been woken. A packet in the queue alone does not make it run.\<close>

definition thread_ready :: "smp \<Rightarrow> bool" where
  "thread_ready g \<longleftrightarrow> thr g \<noteq> T_sleep \<or> woken (evs (shared g))"

text \<open>
  A fair run without new packets and messages: whenever packets are in the hook, one of them is worked on later, and
  whenever the thread is ready, it runs later. Nothing is said about the order, nor about which packet it is. The sleeping thread may be
  disturbed, or not.
\<close>

definition fair_run :: "nl_env \<Rightarrow> (nat \<Rightarrow> smp) \<Rightarrow> bool" where
  "fair_run env r \<longleftrightarrow>
     (\<forall>i. r (Suc i) = r i \<or> quiet_step env (r i) (r (Suc i))) \<and>
     (\<forall>i. hooks (r i) \<noteq> [] \<longrightarrow> (\<exists>j\<ge>i. hook_works env (r j) (r (Suc j)))) \<and>
     (\<forall>i. thread_ready (r i) \<longrightarrow> (\<exists>j\<ge>i. thread_works env (r j) (r (Suc j))))"

section \<open>A fair run settles\<close>

definition settled :: "smp \<Rightarrow> bool" where
  "settled g \<longleftrightarrow> hooks g = [] \<and> skbq (evs (shared g)) = [] \<and> thr g \<in> {T_test, T_dequeue, T_wait, T_check, T_sleep}"

definition wait_rank :: "smp \<Rightarrow> nat" where
  "wait_rank g =
     (if skbq (evs (shared g)) = [] then 0
      else case thr g of T_sleep \<Rightarrow> 4 | T_wait \<Rightarrow> 3 | T_check \<Rightarrow> 2 | T_test \<Rightarrow> 1 | _ \<Rightarrow> 0)"

definition left_to_do :: "smp \<Rightarrow> nat" where
  "left_to_do g = 5 * work g + wait_rank g"

definition busy :: "smp \<Rightarrow> bool" where
  "busy g \<longleftrightarrow> skbq (evs (shared g)) \<noteq> [] \<or> thr_weight (thr g) \<noteq> 0"

definition running :: "nlmsg_api \<Rightarrow> nl_env \<Rightarrow> smp \<Rightarrow> bool" where
  "running api env g \<longleftrightarrow> good_env api env \<and> smp_inv g \<and> calm g \<and> wakeup_pending g \<and>
     kcapd_task (shared g) \<noteq> None"

lemma less_work_less_left: "work g' < work g \<Longrightarrow> left_to_do g' < left_to_do g"
proof -
  have "wait_rank g' \<le> 4" by (simp add: wait_rank_def split: thread_pc.split)
  then show "work g' < work g \<Longrightarrow> left_to_do g' < left_to_do g" by (simp add: left_to_do_def)
qed

lemma hook_works_less:
  assumes "calm g" and "hook_works env g g'"
  shows "work g' < work g"
proof -
  obtain pre h post where g: "hooks g = pre @ h # post"
    and step: "case h of H_done v \<Rightarrow> g' = g\<lparr>hooks := pre @ post\<rparr>
      | _ \<Rightarrow> (case hook_step env h (shared g) of (h', s') \<Rightarrow> g' = g\<lparr>shared := s', hooks := pre @ h' # post\<rparr>)"
    using assms(2) unfolding hook_works_def by blast
  show ?thesis
  proof (cases "\<exists>v. h = H_done v")
    case True
    with g step show ?thesis by (auto simp: work_def)
  next
    case False
    obtain h' s' where st: "hook_step env h (shared g) = (h', s')" by (cases "hook_step env h (shared g)")
    moreover have "\<forall>f. h \<noteq> H_fault f" using assms(1) g by (auto simp: calm_def)
    moreover have "g' = g\<lparr>shared := s', hooks := pre @ h' # post\<rparr>"
      using step st False by (cases h) auto
    ultimately show ?thesis using hook_step_weight [OF st] False g by (auto simp: work_def)
  qed
qed

lemma thread_works_less:
  assumes "good_env api env" and "calm g" and "thread_works env g g'"
  shows "left_to_do g' \<le> left_to_do g" and "busy g \<Longrightarrow> thread_ready g \<Longrightarrow> left_to_do g' < left_to_do g"
proof -
  have laws: "queue_laws env" "can_send env" using assms(1) by (simp_all add: good_env_def env_laws_def)
  obtain u t where st: "thread_step env (thr g) (shared g) = (u, t)" by (cases "thread_step env (thr g) (shared g)")
  then have g': "g' = g\<lparr>shared := t, thr := u\<rparr>" using assms(3) by (simp add: thread_works_def)
  have *: "left_to_do g' < left_to_do g \<or> (\<not> busy g \<or> \<not> thread_ready g) \<and> left_to_do g' = left_to_do g"
  proof (cases "thr_weight (thr g) \<noteq> 0 \<or> thr g = T_dequeue \<and> skbq (evs (shared g)) \<noteq> []")
    case True
    then have "work g' < work g" using thread_step_weight(2) [OF laws(1) st] g' by (simp add: work_def)
    then show ?thesis using less_work_less_left by blast
  next
    case False
    have "\<not> e_should_stop env (evs (shared g))" using laws(2) by (simp add: can_send_def)
    moreover have "\<And>f. thr g \<noteq> T_fault f" "thr g \<noteq> T_exit" using assms(2) by (auto simp: calm_def)
    ultimately show ?thesis
      using False st g'
      by (cases "thr g"; cases "skbq (evs (shared g))")
        (auto simp: left_to_do_def work_def wait_rank_def busy_def thread_ready_def kdefs queue_lawsD [OF laws(1)] split: if_splits)
  qed
  then show "left_to_do g' \<le> left_to_do g" "busy g \<Longrightarrow> thread_ready g \<Longrightarrow> left_to_do g' < left_to_do g" by auto
qed

lemma disturbed_work: "thread_disturbed g g' \<Longrightarrow> left_to_do g' \<le> left_to_do g"
  by (auto simp: thread_disturbed_def left_to_do_def work_def wait_rank_def)

lemma disturbed_same: "thread_disturbed g g' \<Longrightarrow> hooks g' = hooks g \<and> shared g' = shared g \<and> thr g' \<in> {T_wait, T_test}"
  by (auto simp: thread_disturbed_def)

lemma idle_is_settled: "calm g \<Longrightarrow> hooks g = [] \<Longrightarrow> \<not> busy g \<Longrightarrow> settled g"
  by (cases "thr g") (auto simp: settled_def busy_def calm_def)

lemma settled_idle: "settled g \<Longrightarrow> hooks g = [] \<and> \<not> busy g"
  by (auto simp: settled_def busy_def)

lemma no_hook_works [simp]: "hooks g = [] \<Longrightarrow> \<not> hook_works env g g'"
  by (simp add: hook_works_def)

lemma thread_works_hooks: "thread_works env g g' \<Longrightarrow> hooks g' = hooks g"
  by (auto simp: thread_works_def)

lemma thread_works_settled:
  assumes "queue_laws env" and "can_send env" and "settled g" and "thread_works env g g'"
  shows "settled g'"
proof -
  obtain u t where "thread_step env (thr g) (shared g) = (u, t)" "g' = g\<lparr>shared := t, thr := u\<rparr>"
    using assms(4) by (cases "thread_step env (thr g) (shared g)") (simp add: thread_works_def)
  then show ?thesis
    using assms(2,3) by (auto simp: settled_def kdefs queue_lawsD [OF assms(1)] can_send_def split: if_splits)
qed
lemma run_step_cases:
  assumes "g' = g \<or> quiet_step env g g'"
  obtains "g' = g" | "hook_works env g g'" | "thread_works env g g'" | "thread_disturbed g g'"
  using assms quiet_step_works by blast

lemma quiet_step_task:
  assumes "quiet_step env g g'"
  shows "kcapd_task (shared g') = kcapd_task (shared g)"
  using assms
proof (cases rule: quiet_step.cases)
  case (hook h s h' s' pre post t ps)
  with hook_step_queue [of env h s h' s'] show ?thesis by simp
next
  case (thread s t t' s' hs ps)
  with thread_step_task [of env t s] show ?thesis by simp
qed auto

lemma reachable_running:
  assumes "good_env api env" and "nl_started env s" and "(smp_step env)\<^sup>*\<^sup>* (smp_start s) g" and "kcapd_task (shared g) \<noteq> None"
  shows "running api env g"
  using reachable_calm [OF assms(1-3)] reachable_wakeup [OF _ assms(3)] assms(1,4)
  by (auto simp: running_def good_env_def env_laws_def)

lemma quiet_step_running:
  assumes "running api env g" and "g' = g \<or> quiet_step env g g'"
  shows "running api env g'"
  using assms(2)
proof
  assume q: "quiet_step env g g'"
  then have "smp_inv g'" "calm g'" "wakeup_pending g'" "kcapd_task (shared g') = kcapd_task (shared g)"
    using smp_step_inv [of api env g g'] smp_step_calm [of api env g g'] wakeup_pending_step [of env g g'] quiet_step_smp
      quiet_step_task assms(1)
    by (auto simp: running_def good_env_def env_laws_def)
  with assms(1) show ?thesis by (simp add: running_def)
qed (use assms(1) in simp)

interpretation module_fair: fair_progress
  "\<lambda>g g'. g' = g \<or> quiet_step env g g'" "running api env" left_to_do settled
  "\<lambda>g g'. hook_works env g g' \<or> busy g \<and> thread_ready g \<and> thread_works env g g'" for api env
proof
  fix g g' assume g: "running api env g"
  then have laws: "good_env api env" "calm g" "queue_laws env" "can_send env"
    by (simp_all add: running_def good_env_def env_laws_def)
  show "running api env g'" if "g' = g \<or> quiet_step env g g'" using quiet_step_running g that .
  show "left_to_do g' \<le> left_to_do g" if "g' = g \<or> quiet_step env g g'"
    using that
  proof (cases rule: run_step_cases)
    case 2
    then show ?thesis using less_work_less_left [OF hook_works_less] laws(2) by (simp add: less_imp_le)
  qed (use thread_works_less(1) [OF laws(1,2)] disturbed_work in auto)
  show "left_to_do g' < left_to_do g" if "hook_works env g g' \<or> busy g \<and> thread_ready g \<and> thread_works env g g'"
    using that less_work_less_left [OF hook_works_less [OF laws(2)]] thread_works_less(2) [OF laws(1,2)] by blast
  show "settled g'" if "settled g" "g' = g \<or> quiet_step env g g'"
    using that(2)
  proof (cases rule: run_step_cases)
    case 2
    with that(1) show ?thesis by (auto simp: settled_def)
  next
    case 4
    with that(1) disturbed_same [OF 4] show ?thesis by (auto simp: settled_def)
  qed (use that(1) thread_works_settled [OF laws(3,4)] in auto)
qed

lemma hooks_stay_empty:
  assumes "fair_run env r" and "hooks (r i) = []" and "i \<le> j"
  shows "hooks (r j) = []"
  using assms(3)
proof (induction j)
  case (Suc j)
  show ?case
  proof (cases "i = Suc j")
    case False
    then have "hooks (r j) = []" using Suc by simp
    moreover have "r (Suc j) = r j \<or> quiet_step env (r j) (r (Suc j))" using assms(1) by (simp add: fair_run_def)
    ultimately show ?thesis using run_step_cases [of "r (Suc j)" "r j" env] thread_works_hooks no_hook_works disturbed_same by metis
  qed (use assms(2) in simp)
qed (use assms(2) in simp)

lemma fair_run_running:
  assumes "running api env (r 0)" and "fair_run env r"
  shows "running api env (r i)"
  using module_fair.run_inv [of api env r i] assms by (simp add: fair_run_def)

text \<open>With the hook empty, no wake-up that is still to come excuses a sleeping thread.\<close>

lemma busy_ready: "busy g \<Longrightarrow> running api env g \<Longrightarrow> hooks g = [] \<Longrightarrow> thread_ready g"
  by (auto simp: busy_def running_def wakeup_pending_def thread_ready_def)

lemma fair_run_settles:
  assumes "running api env (r 0)" and "fair_run env r"
  shows "\<exists>n. \<forall>j\<ge>n. settled (r j)"
proof -
  have run: "\<forall>i. r (Suc i) = r i \<or> quiet_step env (r i) (r (Suc i))" using assms(2) by (simp add: fair_run_def)
  have "\<exists>j\<ge>i. settled (r j) \<or> hook_works env (r j) (r (Suc j)) \<or>
      busy (r j) \<and> thread_ready (r j) \<and> thread_works env (r j) (r (Suc j))"
    if ns: "\<not> settled (r i)" for i
  proof (cases "hooks (r i) = []")
    case True
    then have "busy (r i)" using idle_is_settled ns fair_run_running [OF assms] by (auto simp: running_def)
    then have "thread_ready (r i)" using busy_ready [OF _ fair_run_running [OF assms] True] by blast
    then obtain j where j: "i \<le> j" "thread_works env (r j) (r (Suc j))" using assms(2) by (auto simp: fair_run_def)
    with hooks_stay_empty [OF assms(2) True j(1)] idle_is_settled [of "r j"] fair_run_running [OF assms, of j]
      busy_ready [of "r j" api env] show ?thesis
      by (auto simp: running_def)
  next
    case False
    then show ?thesis using assms(2) by (auto simp: fair_run_def)
  qed
  from module_fair.fair_run_reaches [of api env r, OF assms(1) run this] obtain n where "settled (r n)" by blast
  then show ?thesis using module_fair.run_goal [of api env r, OF assms(1) run] by blast
qed

section \<open>What the run owes\<close>

text \<open>\<open>delivers g g'\<close>: between \<open>g\<close> and \<open>g'\<close> messages were added at the end only, and they are those of packets that left
  \<open>hook_pkts\<close>, one each.\<close>

definition delivers :: "smp \<Rightarrow> smp \<Rightarrow> bool" where
  "delivers g g' \<longleftrightarrow>
     (\<exists>ms ps. sent_msgs g' @ waiting_msgs g' = sent_msgs g @ waiting_msgs g @ ms \<and>
        list_all2 brings ms ps \<and> mset (hook_pkts g) = mset (hook_pkts g') + mset ps)"

lemma delivers_refl [simp]: "delivers g g"
  unfolding delivers_def by (intro exI [of _ "[]"]) simp

lemma delivers_trans:
  assumes "delivers f g" and "delivers g h"
  shows "delivers f h"
proof -
  obtain ms ps where 1: "sent_msgs g @ waiting_msgs g = sent_msgs f @ waiting_msgs f @ ms" "list_all2 brings ms ps"
    "mset (hook_pkts f) = mset (hook_pkts g) + mset ps" using assms(1) by (auto simp: delivers_def)
  obtain ns qs where 2: "sent_msgs h @ waiting_msgs h = sent_msgs g @ waiting_msgs g @ ns" "list_all2 brings ns qs"
    "mset (hook_pkts g) = mset (hook_pkts h) + mset qs" using assms(2) by (auto simp: delivers_def)
  have "sent_msgs h @ waiting_msgs h = sent_msgs f @ waiting_msgs f @ ms @ ns" using 1(1) 2(1) by (metis append.assoc)
  moreover have "list_all2 brings (ms @ ns) (ps @ qs)" using 1(2) 2(2) by (rule list_all2_appendI)
  moreover have "mset (hook_pkts f) = mset (hook_pkts h) + mset (ps @ qs)" using 1(3) 2(3) by simp
  ultimately show ?thesis unfolding delivers_def by blast
qed

text \<open>With memory, a listener and a packet that fits, the hook never gives a packet up.\<close>

lemma hook_step_keeps_packet:
  assumes "mem_ok env" and "hook_step env h s = (h', t)" and "pc_ok ps s h" and "cap_rate_limit s = 0"
    and "cap_nlk_portid s \<noteq> 0" and "\<forall>pkt\<in>set (hook_pkt h). length pkt \<le> MAX_SKB_BUFSIZE"
  shows "hook_pkt h' = hook_pkt h \<or> (\<exists>pkt a k. h = H_queue pkt a k)"
proof (cases h)
  case (H_kmalloc pkt)
  obtain a where "e_kmalloc env (evs s) = Some a" using assms(1) unfolding mem_ok_def by blast
  with H_kmalloc assms(2) show ?thesis by (auto simp: kdefs)
next
  case (H_new pkt a)
  obtain k where "e_nlmsg_new env MAX_SKB_BUFSIZE (evs s) = Some k" using assms(1) unfolding mem_ok_def by blast
  with H_new assms(2) show ?thesis by (auto simp: kdefs upd_buf_def)
next
  case (H_put pkt a k)
  have "length pkt \<le> MAX_SKB_BUFSIZE" using assms(6) H_put by simp
  then obtain c where "e_nlmsg_put env k (cap_nlk_portid s) 0 NLMSG_DONE (length pkt) 0 (evs s) = Some c"
    using assms(1) unfolding mem_ok_def by blast
  with H_put assms(2) show ?thesis by (auto simp: kdefs)
qed (use assms(2-5) in \<open>auto simp: cap_rate_check_unlimited Let_def split: if_splits option.splits sum.splits prod.splits\<close>)

text \<open>With a listener, and packets that fit into a message, no step of a run breaks the promise.\<close>

definition listening :: "smp \<Rightarrow> bool" where
  "listening g \<longleftrightarrow> cap_nlk_portid (shared g) \<noteq> 0 \<and> (\<forall>pkt\<in>set (hook_pkts g). length pkt \<le> MAX_SKB_BUFSIZE)"

lemma hook_works_delivers:
  assumes "running api env g" and "mem_ok env" and "listening g" and "hook_works env g g'"
  shows "delivers g g' \<and> listening g'"
proof -
  obtain pre h post where g: "hooks g = pre @ h # post"
    and step: "case h of H_done v \<Rightarrow> g' = g\<lparr>hooks := pre @ post\<rparr>
      | _ \<Rightarrow> (case hook_step env h (shared g) of (h', s') \<Rightarrow> g' = g\<lparr>shared := s', hooks := pre @ h' # post\<rparr>)"
    using assms(4) unfolding hook_works_def by blast
  have inv: "smp_inv g" "pc_ok (entered g) (shared g) h" "cap_rate_limit (shared g) = 0"
    using assms(1) g by (auto simp: running_def smp_inv_def)
  have len: "cap_nlk_portid (shared g) \<noteq> 0" "\<forall>pkt\<in>set (hook_pkt h). length pkt \<le> MAX_SKB_BUFSIZE"
    using assms(3) g by (auto simp: listening_def hook_pkts_def)
  show ?thesis
  proof (cases "\<exists>v. h = H_done v")
    case True
    with step g have "sent_msgs g' = sent_msgs g" "waiting_msgs g' = waiting_msgs g" "hook_pkts g' = hook_pkts g"
      "shared g' = shared g"
      by (auto simp: sent_msgs_def waiting_msgs_def hook_pkts_def)
    with assms(3) show ?thesis by (auto simp: delivers_def listening_def)
  next
    case False
    obtain h' t where st: "hook_step env h (shared g) = (h', t)" by (cases "hook_step env h (shared g)")
    then have g': "g' = g\<lparr>shared := t, hooks := pre @ h' # post\<rparr>" using step False by (cases h) auto
    have port: "cap_nlk_portid t = cap_nlk_portid (shared g)" using hook_step_moves [OF st inv(2)] by blast
    show ?thesis
    proof (cases "\<exists>pkt a k. h = H_queue pkt a k")
      case True
      then obtain pkt a k m where "hook_pkt h = [pkt]" "hook_pkt h' = []" "brings m pkt"
        "sent_msgs g' @ waiting_msgs g' = sent_msgs g @ waiting_msgs g @ [m]"
        using hook_step_msgs [OF inv(1) g st] g' by auto
      then show ?thesis unfolding delivers_def
        using assms(3) port g g'
        by (auto simp: listening_def hook_pkts_def intro!: exI [of _ "[m]"] exI [of _ "[pkt]"])
    next
      case False
      then have "hook_pkts g' = hook_pkts g" "sent_msgs g' @ waiting_msgs g' = sent_msgs g @ waiting_msgs g"
        using hook_step_msgs [OF inv(1) g st] hook_step_keeps_packet [OF assms(2) st inv(2,3) len] g g'
        by (auto simp: hook_pkts_def)
      with assms(3) port g' show ?thesis by (auto simp: delivers_def listening_def)
    qed
  qed
qed

lemma thread_works_delivers:
  assumes "running api env g" and "listening g" and "thread_works env g g'"
  shows "delivers g g' \<and> listening g'"
proof -
  have laws: "queue_laws env" "can_send env" "calm_thr (thr g)"
    using assms(1) by (simp_all add: running_def good_env_def env_laws_def calm_def)
  obtain u t where st: "thread_step env (thr g) (shared g) = (u, t)" and g': "g' = g\<lparr>shared := t, thr := u\<rparr>"
    using assms(3) by (cases "thread_step env (thr g) (shared g)") (simp add: thread_works_def)
  have "cap_nlk_portid t = cap_nlk_portid (shared g)"
    using st laws(3) by (cases "thr g") (auto simp: kdefs split: if_splits option.splits)
  moreover have "sent_msgs g' @ waiting_msgs g' = sent_msgs g @ waiting_msgs g"
    using thread_step_msgs [OF laws(1) st] g' by auto
  moreover have "hook_pkts g' = hook_pkts g" using g' by (simp add: hook_pkts_def)
  ultimately show ?thesis using assms(2) g' by (auto simp: delivers_def listening_def)
qed

lemma disturbed_delivers: "thread_disturbed g g' \<Longrightarrow> listening g \<Longrightarrow> delivers g g' \<and> listening g'"
  by (auto simp: thread_disturbed_def delivers_def listening_def sent_msgs_def waiting_msgs_def hook_pkts_def)

lemma fair_run_promise:
  assumes "running api env (r 0)" and "mem_ok env" and "listening (r 0)" and "fair_run env r"
  shows "delivers (r 0) (r i) \<and> listening (r i)"
proof (induction i)
  case (Suc i)
  have "r (Suc i) = r i \<or> quiet_step env (r i) (r (Suc i))" using assms(4) by (simp add: fair_run_def)
  then have "delivers (r i) (r (Suc i)) \<and> listening (r (Suc i))"
  proof (cases rule: run_step_cases)
    case 2
    then show ?thesis using hook_works_delivers [OF fair_run_running [OF assms(1,4)] assms(2)] Suc by blast
  next
    case 3
    then show ?thesis using thread_works_delivers [OF fair_run_running [OF assms(1,4)]] Suc by blast
  next
    case 4
    then show ?thesis using disturbed_delivers Suc by blast
  qed (use Suc in simp)
  with Suc show ?case using delivers_trans by blast
qed (use assms(3) in simp)

section \<open>There are fair runs\<close>

text \<open>A run that ends at rest is fair: the hook is emptied only by work on its packets, and the thread is no longer ready
  only once it has run.\<close>

lemma last_before:
  fixes P :: "nat \<Rightarrow> bool"
  assumes "P i" and "\<not> P n" and "i \<le> n"
  shows "\<exists>j\<ge>i. P j \<and> \<not> P (Suc j)"
  using assms(3,2)
proof (induction n rule: dec_induct)
  case base
  then show ?case using assms(1) by simp
next
  case (step n)
  then show ?case by (cases "P n") auto
qed

lemma hook_works_thread:
  assumes "hook_works env g g'"
  shows "thr g' = thr g \<and> (woken (evs (shared g)) \<longrightarrow> woken (evs (shared g')))"
proof -
  obtain pre h post where
    "case h of H_done v \<Rightarrow> g' = g\<lparr>hooks := pre @ post\<rparr>
      | _ \<Rightarrow> (case hook_step env h (shared g) of (h', s') \<Rightarrow> g' = g\<lparr>shared := s', hooks := pre @ h' # post\<rparr>)"
    using assms unfolding hook_works_def by blast
  moreover obtain h' t where "hook_step env h (shared g) = (h', t)" by (cases "hook_step env h (shared g)")
  ultimately show ?thesis using hook_step_woken [of env h "shared g" h' t] by (cases h) auto
qed

lemma hook_works_ready: "hook_works env g g' \<Longrightarrow> thread_ready g \<Longrightarrow> thread_ready g'"
  using hook_works_thread [of env g g'] by (auto simp: thread_ready_def)

lemma fair_run_exists:
  assumes "running api env g"
  shows "\<exists>r. r 0 = g \<and> fair_run env r"
proof -
  obtain g' where g': "(quiet_step env)\<^sup>*\<^sup>* g g'" "at_rest g'"
    using quiet_run_rests [of api env g] assms by (auto simp: running_def)
  then obtain f n where f: "f 0 = g" "f n = g'" "\<forall>i<n. quiet_step env (f i) (f (Suc i))"
    by (auto simp: rtranclp_power relpowp_fun_conv)
  let ?r = "\<lambda>i. f (min i n)"
  have step: "?r (Suc i) = ?r i \<or> quiet_step env (?r i) (?r (Suc i))" for i
    using f(3) by (cases "i < n") (auto simp: min_def)
  have rest: "hooks (?r j) = [] \<and> \<not> thread_ready (?r j)" if "n \<le> j" for j
    using that f(2) g'(2) by (simp add: at_rest_def thread_ready_def min_absorb2)
  have hook: "\<exists>j\<ge>i. hook_works env (?r j) (?r (Suc j))" if now: "hooks (?r i) \<noteq> []" for i
  proof -
    obtain j where "i \<le> j" "hooks (?r j) \<noteq> []" "hooks (?r (Suc j)) = []"
      using last_before [of "\<lambda>j. hooks (?r j) \<noteq> []" i "max i n"] rest [of "max i n"] now by auto
    moreover from step [of j] this(2,3) have "hook_works env (?r j) (?r (Suc j))"
      by (cases rule: run_step_cases) (simp_all add: thread_works_hooks disturbed_same)
    ultimately show ?thesis by blast
  qed
  have thread: "\<exists>j\<ge>i. thread_works env (?r j) (?r (Suc j))" if now: "thread_ready (?r i)" for i
  proof -
    obtain j where "i \<le> j" "thread_ready (?r j)" "\<not> thread_ready (?r (Suc j))"
      using last_before [of "\<lambda>j. thread_ready (?r j)" i "max i n"] rest [of "max i n"] now by auto
    moreover from step [of j] this(2,3) have "thread_works env (?r j) (?r (Suc j))"
    proof (cases rule: run_step_cases)
      case 4
      then have "thread_ready (?r (Suc j))" using disturbed_same by (fastforce simp: thread_ready_def)
      with \<open>\<not> thread_ready (?r (Suc j))\<close> show ?thesis by blast
    qed (use \<open>thread_ready (?r j)\<close> \<open>\<not> thread_ready (?r (Suc j))\<close> hook_works_ready in auto)
    ultimately show ?thesis by blast
  qed
  show ?thesis using f(1) step hook thread by (intro exI [of _ ?r]) (simp add: fair_run_def)
qed

section \<open>Properties\<close>

text \<open>
  C2. Under fair scheduling every captured packet is delivered, once. Take any state the interleaved module can reach on any
  number of processors, with a user registered, the thread started, memory, a socket that works, and no packet of more than 2000
  bytes (\<^verbatim>\<open>MAX_SKB_BUFSIZE\<close>) in the hook; and any way it can go on from there without new packets and messages in which packets in
  the hook are not left standing forever and the thread runs whenever it is not asleep or has been woken. From some point on the
  hook and the queue are empty, every capture buffer is on the free list, and what has been sent is: what had been sent before, then
  the messages that were waiting, in order, then one message for each packet that was in the hook, which carries that packet. The
  thread is not supposed to look at the queue while it sleeps: that it runs again rests on the wake-ups of the hook.
\<close>

theorem fair_run_delivers_once:
  assumes "good_env api env" and "mem_ok env" and "nl_started env s" and "(smp_step env)\<^sup>*\<^sup>* (smp_start s) (r 0)"
    and "kcapd_task (shared (r 0)) \<noteq> None" and "cap_nlk_portid (shared (r 0)) \<noteq> 0"
    and "\<forall>pkt\<in>set (hook_pkts (r 0)). length pkt \<le> MAX_SKB_BUFSIZE" and "fair_run env r"
  shows "\<exists>n. \<forall>j\<ge>n. hooks (r j) = [] \<and> skbq (evs (shared (r j))) = [] \<and>
    mset (cb_live (evs (shared (r j)))) = mset (freelist (evs (shared (r j)))) \<and>
    (\<exists>ms ps. sent_msgs (r j) = sent_msgs (r 0) @ waiting_msgs (r 0) @ ms \<and> list_all2 brings ms ps \<and>
       mset ps = mset (hook_pkts (r 0)))"
proof -
  have start: "running api env (r 0)" "listening (r 0)"
    using reachable_running [OF assms(1,3-5)] assms(6,7) by (simp_all add: listening_def)
  obtain n where n: "\<forall>j\<ge>n. settled (r j)" using fair_run_settles [OF start(1) assms(8)] by blast
  show ?thesis
  proof (intro exI [of _ n] allI impI)
    fix j assume "n \<le> j"
    then have set: "settled (r j)" using n by blast
    then have none: "waiting_msgs (r j) = []" "hook_pkts (r j) = []"
      by (auto simp: settled_def waiting_msgs_def hook_pkts_def)
    have "mset (cb_live (evs (shared (r j)))) = mset (freelist (evs (shared (r j))))"
      using set rest_no_leak [of "r j"] fair_run_running [OF start(1) assms(8), of j] by (simp add: running_def settled_def)
    moreover have "delivers (r 0) (r j)" using fair_run_promise [OF start(1) assms(2) start(2) assms(8)] by blast
    then have "\<exists>ms ps. sent_msgs (r j) = sent_msgs (r 0) @ waiting_msgs (r 0) @ ms \<and> list_all2 brings ms ps \<and>
        mset ps = mset (hook_pkts (r 0))"
      using none by (simp add: delivers_def) metis
    ultimately show "hooks (r j) = [] \<and> skbq (evs (shared (r j))) = [] \<and>
        mset (cb_live (evs (shared (r j)))) = mset (freelist (evs (shared (r j)))) \<and>
        (\<exists>ms ps. sent_msgs (r j) = sent_msgs (r 0) @ waiting_msgs (r 0) @ ms \<and> list_all2 brings ms ps \<and>
           mset ps = mset (hook_pkts (r 0)))"
      using set by (simp add: settled_def)
  qed
qed

theorem fair_run_delivers_once_witness:
  "\<exists>r. r 0 = demo_in_hook \<and> fair_run demo_env r \<and>
     (\<exists>n m. sent_msgs (r n) = sent_msgs demo_in_hook @ [Some m] \<and> take 2 (sk_payload m) = [1, 2])"
proof -
  have st: "hook_pkts demo_in_hook = [[1, 2]]" "waiting_msgs demo_in_hook = []"
    "cap_nlk_portid (shared demo_in_hook) \<noteq> 0" "kcapd_task (shared demo_in_hook) \<noteq> None"
    using demo_listening_state demo_task by (simp_all add: demo_in_hook_def hook_pkts_def waiting_msgs_def)
  have "running linux_nlmsg demo_env demo_in_hook"
    by (rule reachable_running [OF demo_good_env demo_loaded_started demo_in_hook_reachable st(4)])
  then obtain r where r: "r 0 = demo_in_hook" "fair_run demo_env r" using fair_run_exists by blast
  have "(2::nat) \<le> MAX_SKB_BUFSIZE" by simp
  then obtain n ms ps where "sent_msgs (r n) = sent_msgs demo_in_hook @ ms" "list_all2 brings ms ps" "mset ps = {#[1, 2]#}"
    using fair_run_delivers_once [of linux_nlmsg demo_env demo_loaded r] demo_good_env demo_env_good(1) demo_loaded_started
      demo_in_hook_reachable st r by auto
  moreover from this(2,3) obtain m where "ms = [Some m]" "take 2 (sk_payload m) = [1, 2]"
    by (auto simp: brings_def list_all2_Cons2 numeral_2_eq_2)
  ultimately show ?thesis using r by blast
qed

end
