(* ===== verification/SmpUnload.thy ===== *)
theory SmpUnload
  imports SmpFair
begin

text \<open>
  Unloading the interleaved capture module. \<^verbatim>\<open>app_exit\<close> releases the socket and removes the hook; from then on no packet
  and no message reaches the module, but nothing stops the thread, which has the packets that were waiting still to send.
\<close>

section \<open>On which socket a message goes\<close>

fun unicast_ev :: "nl_ev \<Rightarrow> (addr option \<times> nlskb option) list" where
  "unicast_ev (Netlink_unicast sk k c p e) = [(sk, c)]"
| "unicast_ev _ = []"

definition unicasts :: "nl_ev list \<Rightarrow> (addr option \<times> nlskb option) list" where
  "unicasts tr = concat (map unicast_ev tr)"

lemma unicasts_append [simp]: "unicasts (tr @ es) = unicasts tr @ concat (map unicast_ev es)"
  by (simp add: unicasts_def)

lemma unicasts_sent: "map snd (unicasts tr) = map fst (sent tr)"
proof (induction tr rule: rev_induct)
  case (snoc e tr)
  then show ?case by (cases e) simp_all
qed (simp add: unicasts_def sent_def)

lemma thread_step_sock:
  assumes "thread_step env u s = (u', t)"
  shows "\<exists>es. evs t = evs s @ es \<and> (\<forall>x\<in>set (unicasts es). fst x = cap_sock s) \<and> cap_sock t = cap_sock s"
  using assms by (cases u) (auto simp: kdefs unicasts_def split: if_splits option.splits)

section \<open>After the module is gone\<close>

definition unloaded :: "smp \<Rightarrow> smp" where
  "unloaded g = g\<lparr>shared := app_exit (shared g)\<rparr>"

lemma app_exit_keeps [simp]:
  "freelist (evs (app_exit s)) = freelist (evs s)" "cb_live (evs (app_exit s)) = cb_live (evs s)"
  "skbq (evs (app_exit s)) = skbq (evs s)" "sent (evs (app_exit s)) = sent (evs s)" "woken (evs (app_exit s)) = woken (evs s)"
  "skb_refs (evs (app_exit s)) k = skb_refs (evs s) k" "bufs (app_exit s) = bufs s" "skbs (app_exit s) = skbs s"
  "cap_freelist_count (app_exit s) = cap_freelist_count s" "cap_rate_limit (app_exit s) = cap_rate_limit s"
  "kcapd_task (app_exit s) = kcapd_task s" "cap_sock (app_exit s) = cap_sock s"
  by (simp_all add: app_exit_def kdefs)

lemma unloaded_msgs: "waiting_msgs (unloaded g) = waiting_msgs g" "sent_msgs (unloaded g) = sent_msgs g"
  by (simp_all add: unloaded_def waiting_msgs_def sent_msgs_def)

lemma unloaded_running:
  assumes "running api env g" and "hooks g = []"
  shows "running api env (unloaded g)"
proof -
  have "thr_ok (entered g) (app_exit (shared g)) (thr g)"
  proof (rule untouched_thr_ok)
    show "thr_ok (entered g) (shared g) (thr g)" using assms(1) by (simp add: running_def smp_inv_def)
  qed (simp add: untouched_def)
  moreover have "full ps (app_exit s) k = full ps s k" for ps s k by (simp add: full_def)
  ultimately have "smp_inv (unloaded g)"
    using assms by (simp add: running_def unloaded_def smp_inv_def fl_inv_def q_inv_def bufs_in_use_def skbs_in_use_def)
  then show ?thesis
    using assms by (simp add: running_def unloaded_def calm_def wakeup_pending_def)
qed

text \<open>\<open>goes_on g g'\<close>: the thread has gone on from \<open>g\<close>, with the socket it found there.\<close>

definition goes_on :: "smp \<Rightarrow> smp \<Rightarrow> bool" where
  "goes_on g g' \<longleftrightarrow>
     (\<exists>es. evs (shared g') = evs (shared g) @ es \<and> (\<forall>x\<in>set (unicasts es). fst x = cap_sock (shared g))) \<and>
     cap_sock (shared g') = cap_sock (shared g) \<and> kcapd_task (shared g') = kcapd_task (shared g) \<and>
     sent_msgs g' @ waiting_msgs g' = sent_msgs g @ waiting_msgs g"

lemma goes_on_refl: "goes_on g g"
  by (simp add: goes_on_def unicasts_def)

lemma goes_on_trans: "goes_on f g \<Longrightarrow> goes_on g h \<Longrightarrow> goes_on f h"
  unfolding goes_on_def by (fastforce simp: unicasts_def)

lemma thread_works_goes_on:
  assumes "queue_laws env" and "thread_works env g g'"
  shows "goes_on g g'"
proof -
  obtain u t where st: "thread_step env (thr g) (shared g) = (u, t)" and g': "g' = g\<lparr>shared := t, thr := u\<rparr>"
    using assms(2) by (cases "thread_step env (thr g) (shared g)") (simp add: thread_works_def)
  have "kcapd_task t = kcapd_task (shared g)" using thread_step_task [of env "thr g" "shared g"] st by simp
  moreover have "sent_msgs g' @ waiting_msgs g' = sent_msgs g @ waiting_msgs g"
    using thread_step_msgs [OF assms(1) st] g' by auto
  ultimately show ?thesis using thread_step_sock [OF st] g' by (auto simp: goes_on_def)
qed

lemma disturbed_goes_on: "thread_disturbed g g' \<Longrightarrow> goes_on g g'"
  by (auto simp: thread_disturbed_def goes_on_def sent_msgs_def waiting_msgs_def unicasts_def)

lemma fair_run_goes_on:
  assumes "queue_laws env" and "fair_run env r" and "hooks (r 0) = []"
  shows "goes_on (r 0) (r i)"
proof (induction i)
  case (Suc i)
  have "r (Suc i) = r i \<or> quiet_step env (r i) (r (Suc i))" using assms(2) by (simp add: fair_run_def)
  then have "goes_on (r i) (r (Suc i))"
  proof (cases rule: run_step_cases)
    case 2
    then show ?thesis using hooks_stay_empty [OF assms(2,3)] by simp
  qed (use goes_on_refl thread_works_goes_on [OF assms(1)] disturbed_goes_on in auto)
  with Suc show ?case by (rule goes_on_trans)
qed (rule goes_on_refl)

section \<open>Properties\<close>

text \<open>
  C13. Unloading the module does not stop its thread. Take any state the interleaved module can reach in which no packet is in the hook
  and the thread has been started, and unload the module there. However the thread runs on, as long as it runs when it is ready and
  the calls it makes are answered as before: in the end it is still there, and it has sent every message that was waiting, in order, on
  the socket that \<^verbatim>\<open>app_exit\<close> had released before.
\<close>

theorem unload_sends_on_released_socket:
  assumes "good_env api env" and "nl_started env s" and "(smp_step env)\<^sup>*\<^sup>* (smp_start s) g"
    and "kcapd_task (shared g) \<noteq> None" and "hooks g = []" and "r 0 = unloaded g" and "fair_run env r"
  shows "\<exists>n. \<forall>j\<ge>n. kcapd_task (shared (r j)) = kcapd_task (shared g) \<and>
    (\<exists>es. evs (shared (r j)) = evs (shared g) @
        [Netlink_kernel_release (cap_sock (shared g)), Nf_unregister_hook (nfhk (shared g))] @ es \<and>
       unicasts es = map (\<lambda>m. (cap_sock (shared g), m)) (waiting_msgs g))"
proof -
  let ?out = "[Netlink_kernel_release (cap_sock (shared g)), Nf_unregister_hook (nfhk (shared g))]"
  have run: "running api env (r 0)" "queue_laws env" "hooks (r 0) = []"
    using unloaded_running [OF reachable_running [OF assms(1-4)] assms(5)] assms(1,5,6)
    by (simp_all add: good_env_def env_laws_def unloaded_def)
  have out: "cap_sock (shared (r 0)) = cap_sock (shared g)" "kcapd_task (shared (r 0)) = kcapd_task (shared g)"
    "evs (shared (r 0)) = evs (shared g) @ ?out"
    using assms(6) by (simp_all add: unloaded_def app_exit_def kdefs)
  obtain n where n: "\<forall>j\<ge>n. settled (r j)" using fair_run_settles [OF run(1) assms(7)] by blast
  show ?thesis
  proof (intro exI [of _ n] allI impI)
    fix j assume "n \<le> j"
    then have w: "waiting_msgs (r j) = []" using n by (auto simp: settled_def waiting_msgs_def)
    obtain es where es: "evs (shared (r j)) = evs (shared (r 0)) @ es" "\<forall>x\<in>set (unicasts es). fst x = cap_sock (shared g)"
      and go: "kcapd_task (shared (r j)) = kcapd_task (shared (r 0))"
        "sent_msgs (r j) = sent_msgs (r 0) @ waiting_msgs (r 0)"
      using fair_run_goes_on [OF run(2) assms(7) run(3), of j] w out(1) by (auto simp: goes_on_def)
    have "map snd (unicasts es) = waiting_msgs g"
      using go(2) es(1) assms(6) unicasts_sent [of es] by (simp add: unloaded_msgs sent_msgs_def sent_def)
    then have "unicasts es = map (\<lambda>m. (cap_sock (shared g), m)) (waiting_msgs g)"
      using es(2) by (auto simp: list_eq_iff_nth_eq prod_eq_iff)
    then show "kcapd_task (shared (r j)) = kcapd_task (shared g) \<and>
        (\<exists>es. evs (shared (r j)) = evs (shared g) @ ?out @ es \<and>
           unicasts es = map (\<lambda>m. (cap_sock (shared g), m)) (waiting_msgs g))"
      using es(1) go(1) out by simp
  qed
qed

theorem unload_sends_on_released_socket_witness:
  "\<exists>g r n es k. r 0 = unloaded g \<and> fair_run demo_env r \<and> waiting_msgs g = [skbs (shared g) k] \<and>
     evs (shared (r n)) = evs (shared g) @
       [Netlink_kernel_release (cap_sock (shared g)), Nf_unregister_hook (nfhk (shared g))] @ es \<and>
     unicasts es = [(cap_sock (shared g), skbs (shared g) k)]"
proof -
  define g where "g = \<lparr>shared = demo_queued, hooks = [], thr = T_test, entered = [[1, 2, 3]]\<rparr>"
  obtain k where k: "skbq (evs demo_queued) = [k]" "kcapd_task demo_queued = kcapd_task demo_listening"
    using demo_queued_state demo_listening_state by (auto simp: enqueued_def)
  have g: "(smp_step demo_env)\<^sup>*\<^sup>* (smp_start demo_loaded) g" "kcapd_task (shared g) \<noteq> None" "hooks g = []"
    "waiting_msgs g = [skbs (shared g) k]"
    using demo_queued_run demo_task k by (simp_all add: g_def waiting_msgs_def)
  have "running linux_nlmsg demo_env (unloaded g)"
    by (rule unloaded_running [OF reachable_running [OF demo_good_env demo_loaded_started g(1,2)] g(3)])
  then obtain r where r: "r 0 = unloaded g" "fair_run demo_env r" using fair_run_exists by blast
  from unload_sends_on_released_socket [OF demo_good_env demo_loaded_started g(1-3) r] g(4) obtain n es where
    "evs (shared (r n)) = evs (shared g) @
       [Netlink_kernel_release (cap_sock (shared g)), Nf_unregister_hook (nfhk (shared g))] @ es"
    "unicasts es = [(cap_sock (shared g), skbs (shared g) k)]"
    by auto
  with g(4) r show ?thesis by blast
qed

end
