(* ===== verification/AppOptions.thy ===== *)
theory AppOptions
  imports NetctrlApp
begin

text \<open>
  The option tables of \<^verbatim>\<open>netctrl/app.c\<close> and the program as a whole, from any command line to the log of the
  module. \<^verbatim>\<open>getopt_long\<close> reads a command line by the two tables: an option of the tables comes with an argument
  exactly if they say so, anything else is a question mark without one (\<open>opts_typed\<close>). Then the declarations of
  \<^verbatim>\<open>netctrl.h\<close>, which \<^verbatim>\<open>app.c\<close> repeats.
\<close>

section \<open>The tables\<close>

record opt_entry =
  lo_name :: "string option"
  lo_has_arg :: nat
  lo_val :: int

abbreviation opt_of :: "string \<Rightarrow> nat \<Rightarrow> char \<Rightarrow> opt_entry" where
  "opt_of nm n c \<equiv> \<lparr>lo_name = Some nm, lo_has_arg = n, lo_val = of_char c\<rparr>"

definition long_options :: "opt_entry list" where
  "long_options =
     [opt_of ''ip'' 1 CHR ''i'', opt_of ''id'' 1 CHR ''d'', opt_of ''help'' 0 CHR ''h'', opt_of ''port'' 1 CHR ''p'',
      \<lparr>lo_name = None, lo_has_arg = 0, lo_val = 0\<rparr>]"

definition short_options :: string where
  "short_options = ''hi:p:d:''"

text \<open>The options of such a string: a letter, and whether a colon behind it asks for an argument.\<close>

fun short_opts :: "string \<Rightarrow> (int \<times> bool) list" where
  "short_opts [] = []"
| "short_opts [c] = [(of_char c, False)]"
| "short_opts (c # d # cs) =
     (if d = CHR '':'' then (of_char c, True) # short_opts cs else (of_char c, False) # short_opts (d # cs))"

lemma short_opts_table: "short_opts short_options = [(104, False), (105, True), (112, True), (100, True)]"
  by (simp add: short_options_def)

text \<open>Both tables describe the same options, each letter once, and the long one ends with the empty entry.\<close>

lemma option_tables_agree:
  "set (short_opts short_options) = (\<lambda>e. (lo_val e, lo_has_arg e = 1)) ` set (butlast long_options) \<and>
   distinct (map fst (short_opts short_options)) \<and> distinct (map lo_name long_options) \<and>
   lo_name (last long_options) = None"
  by (auto simp: short_opts_table long_options_def)

definition opts_typed :: "(int \<times> ulong) list \<Rightarrow> bool" where
  "opts_typed opts \<longleftrightarrow> (\<forall>(c, a)\<in>set opts. (c, a \<noteq> 0) \<in> set (short_opts short_options) \<or> (c, a) = (63, 0))"

text \<open>A command line the program can work with: some option, and only options with an argument.\<close>

definition good_opts :: "(int \<times> ulong) list \<Rightarrow> bool" where
  "good_opts opts \<longleftrightarrow> opts \<noteq> [] \<and> (\<forall>(c, a)\<in>set opts. c \<in> {112, 100, 105})"

section \<open>The types both sides declare\<close>

text \<open>\<^verbatim>\<open>netctrl.h\<close>, which the module includes, and the copy of its declarations in \<^verbatim>\<open>app.c\<close>: the names of the
  settings with their numbers, and the structures as lists of fields, each with its size.\<close>

definition netctrl_type :: "(string \<times> nat) list" where
  "netctrl_type = [(''NETCTRL_AUTH_IP'', 1), (''NETCTRL_AUTH_PORT'', 2), (''NETCTRL_AUTH_ID'', 3)]"

definition msg_buf :: "(string \<times> nat) list" where
  "msg_buf = [(''msg_type'', 2), (''msg_len'', 2), (''data'', 0)]"

definition auth_structs :: "(string \<times> nat) list list" where
  "auth_structs = [[(''ip'', 32)], [(''port'', 4)], [(''id'', 4)]]"

definition app_netctrl_type :: "(string \<times> nat) list" where
  "app_netctrl_type = [(''NETCTRL_AUTH_IP'', 1), (''NETCTRL_AUTH_PORT'', 2), (''NETCTRL_AUTH_ID'', 3)]"

definition msg_buf_t :: "(string \<times> nat) list" where
  "msg_buf_t = [(''msg_type'', 2), (''msg_len'', 2), (''data'', 0)]"

definition local_structs :: "(string \<times> nat) list list" where
  "local_structs = [[(''id'', 4)], [(''ip'', 32)], [(''port'', 4)]]"

text \<open>Where a field starts.\<close>

fun offset_of :: "string \<Rightarrow> (string \<times> nat) list \<Rightarrow> nat" where
  "offset_of f [] = 0"
| "offset_of f ((g, n) # fs) = (if f = g then 0 else n + offset_of f fs)"

text \<open>The copy is true, the program lays its message out by it, and the module names the numbers as the
  header does: what the program stores in a field is what is found there.\<close>

lemma declarations_agree:
  "app_netctrl_type = netctrl_type \<and> msg_buf_t = msg_buf \<and> set local_structs = set auth_structs \<and>
   (\<forall>(nm, n)\<in>set netctrl_type. type2string (int n) = nm) \<and>
   rd16 (drop (offset_of ''msg_type'' msg_buf) (app_msg operation buf)) = operation \<and>
   rd16 (drop (offset_of ''msg_len'' msg_buf) (app_msg operation buf)) = of_nat (length buf) \<and>
   drop (offset_of ''data'' msg_buf) (app_msg operation buf) = buf"
  by (auto simp: app_netctrl_type_def netctrl_type_def msg_buf_t_def msg_buf_def local_structs_def auth_structs_def
      type2string_def app_msg_eq)

section \<open>What the loop finds\<close>

lemma opts_typed_good: "opts_typed opts \<Longrightarrow> (c, a) \<in> set opts \<Longrightarrow> c \<in> {112, 100, 105} \<longleftrightarrow> a \<noteq> 0"
  by (fastforce simp: opts_typed_def short_opts_table)

lemma parse_opts_bad:
  "(c, 0) \<in> set opts \<Longrightarrow> fst (parse_opts env opts rc) = -1"
  by (induction env opts rc rule: parse_opts.induct) auto

lemma parse_opts_good:
  assumes "\<forall>(c, a)\<in>set opts. c \<in> {112, 100, 105} \<and> a \<noteq> 0" and "opts \<noteq> []"
  shows "\<exists>w. parse_opts env opts (ret, cmd) = (ret, cmd_of env (fst (last opts)) (snd (last opts)) w)"
  using assms
proof (induction opts arbitrary: cmd)
  case (Cons x opts)
  obtain c a where x: "x = (c, a)" "c \<in> {112, 100, 105}" "a \<noteq> 0" using Cons.prems(1) by (cases x) auto
  then have step: "parse_opts env (x # opts) (ret, cmd) = parse_opts env opts (ret, cmd_of env c a (sc_word cmd))"
    by (auto simp: cmd_of_def)
  show ?case
  proof (cases "opts = []")
    case True
    with step x show ?thesis by auto
  next
    case False
    with Cons.IH [of "cmd_of env c a (sc_word cmd)"] Cons.prems(1) step show ?thesis by simp
  qed
qed simp

lemma cmd_frame_word:
  "sc_type (cmd_of env c a w) = sc_type (cmd_of env c a 0)" "cmd_data env (cmd_of env c a w) = cmd_data env (cmd_of env c a 0)"
  by (simp_all add: cmd_of_def cmd_data_def sc_data_def)

lemma app_main_parsed:
  assumes "getopt_law env opts" and "1 < argc" and "evs s = []" and "parse_opts env opts (0, g_sys_cmd s) = (ret, cmd)"
  shows "\<exists>s1. g_sys_cmd s1 = cmd \<and> app_sent (evs s1) = [] \<and>
    app_main env argc s = Some (if ret \<noteq> 0 then Inr (0, usage s1)
      else case syscmd_proc env cmd s1 of Inl f \<Rightarrow> Inl f | Inr (_, s2) \<Rightarrow> Inr (0, s2))"
proof -
  have "length (filter is_getopt (evs s)) = length []" using assms(3) by simp
  from parse_loop_opts [OF assms(1) this, of opts 0] assms(3,4) obtain s1 where
    "syscmd_parse_args env s = Some (ret, s1)" "g_sys_cmd s1 = cmd" "app_sent (evs s1) = []"
    by (auto simp: syscmd_parse_args_def app_sent_def)
  with assms(2) show ?thesis
    by (intro exI [of _ "kdo (Say_ret ret) s1"]) (simp add: app_main_def kdefs)
qed

lemma good_command_line:
  assumes "getopt_law env opts" and "opts_typed opts" and "app_resources env" and "1 < argc" and "evs s = []"
    and "good_opts opts" and "last opts = (c, a)"
  shows "\<exists>t p. app_main env argc s = Some (Inr (0, t)) \<and>
    app_sent (evs t) = [app_frame (ucast (sc_type (cmd_of env c a 0))) (cmd_data env (cmd_of env c a 0)) p]"
proof -
  have "\<forall>(c, a)\<in>set opts. c \<in> {112, 100, 105} \<and> a \<noteq> 0" "opts \<noteq> []"
    using assms(6) opts_typed_good [OF assms(2)] by (fastforce simp: good_opts_def)+
  from parse_opts_good [OF this, of env 0 "g_sys_cmd s"] obtain w where
    "parse_opts env opts (0, g_sys_cmd s) = (0, cmd_of env c a w)" using assms(7) by auto
  from app_main_parsed [OF assms(1,4,5) this] obtain s1 where s1: "app_sent (evs s1) = []"
    "app_main env argc s = Some (case syscmd_proc env (cmd_of env c a w) s1 of Inl f \<Rightarrow> Inl f | Inr (_, s2) \<Rightarrow> Inr (0, s2))"
    by auto
  have "sc_type (cmd_of env c a w) \<in> {1, 2, 3}" by (simp add: cmd_of_def)
  from syscmd_proc_sends [OF assms(3) this, of s1] s1 cmd_frame_word [of env c a w] show ?thesis by auto
qed

lemma bad_command_line:
  assumes "getopt_law env opts" and "opts_typed opts" and "1 < argc" and "evs s = []" and "sc_type (g_sys_cmd s) = 0"
    and "\<not> good_opts opts"
  shows "\<exists>t. app_main env argc s = Some (Inr (0, t)) \<and> app_sent (evs t) = []"
proof (cases "opts = []")
  case True
  then have "parse_opts env opts (0, g_sys_cmd s) = (0, g_sys_cmd s)" by simp
  from app_main_parsed [OF assms(1,3,4) this] assms(5) show ?thesis
    by (auto simp: syscmd_proc_def kdefs)
next
  case False
  with assms(6) obtain c a where "(c, a) \<in> set opts" "c \<notin> {112, 100, 105}" by (auto simp: good_opts_def)
  with opts_typed_good [OF assms(2)] have "fst (parse_opts env opts (0, g_sys_cmd s)) = -1"
    by (intro parse_opts_bad [of c]) auto
  then obtain cmd where "parse_opts env opts (0, g_sys_cmd s) = (-1, cmd)"
    by (cases "parse_opts env opts (0, g_sys_cmd s)") simp
  from app_main_parsed [OF assms(1,3,4) this] show ?thesis by (auto simp: usage_def kdefs)
qed

section \<open>From the command line to the kernel log\<close>

lemma good_setting_logged:
  assumes "getopt_law env opts" and "opts_typed opts" and "app_resources env" and "1 < argc" and "evs s = []"
    and "nlmsg_laws api" and "hdr_law api" and "nc_memory nenv" and "good_opts opts" and "last opts = (c, a)"
  shows "\<exists>t m. app_main env argc s = Some (Inr (0, t)) \<and> app_sent (evs t) = [m] \<and>
    ((c = 105 \<longrightarrow> length (cstr (argv_str env a)) < 32) \<longrightarrow>
       (\<forall>ns. \<exists>ns'. netctrl_receive api nenv m ns = Some ns' \<and>
          nc_log (evs ns') = nc_log (evs ns) @ [asked_setting env c a]))"
proof -
  have c: "c \<in> {112, 100, 105}" using assms(9,10) by (metis (no_types, lifting) good_opts_def last_in_set case_prodD)
  let ?op = "ucast (sc_type (cmd_of env c a 0))" and ?d = "cmd_data env (cmd_of env c a 0)"
  obtain t p where t: "app_main env argc s = Some (Inr (0, t))" "app_sent (evs t) = [app_frame ?op ?d p]"
    using good_command_line [OF assms(1-5,9,10)] by blast
  have "?op \<in> {1, 2, 3}" "length ?d < 2044" by (simp_all add: cmd_of_def cmd_data_def)
  with app_frame_logged [OF assms(6-8)] asked_setting_laid_out [OF c, of env a 0]
  have "\<exists>ns'. netctrl_receive api nenv (app_frame ?op ?d p) ns = Some ns' \<and>
      nc_log (evs ns') = nc_log (evs ns) @ [asked_setting env c a]"
    if "c = 105 \<longrightarrow> length (cstr (argv_str env a)) < 32" for ns
    using that by metis
  with t show ?thesis by blast
qed

text \<open>
  C5. From a command line to the kernel log, given that the system calls of the program succeed and memory is there on both sides
  (\<open>app_resources\<close>, \<open>nc_memory\<close>). The program ends with 0. If the command line has only options with arguments (\<open>-p\<close>, \<open>-d\<close>, \<open>-i\<close> or their long
  names), it sends exactly one message, for the last of them. The module, on receiving it in any state, prints exactly that setting if it
  is a number, or an address of less than 32 characters; a longer address is sent too, but what the module prints then is not
  the address alone. If there is no option, or \<open>-h\<close>, an unknown option or a missing argument among them, nothing is sent.
\<close>

theorem command_line_decides:
  assumes "getopt_law env opts" and "opts_typed opts" and "app_resources env" and "1 < argc" and "evs s = []"
    and "sc_type (g_sys_cmd s) = 0" and "nlmsg_laws api" and "hdr_law api" and "nc_memory nenv"
  shows "\<exists>t. app_main env argc s = Some (Inr (0, t)) \<and>
    (\<not> good_opts opts \<longrightarrow> app_sent (evs t) = []) \<and>
    (\<forall>c a. good_opts opts \<longrightarrow> last opts = (c, a) \<longrightarrow>
       (\<exists>m. app_sent (evs t) = [m] \<and>
          ((c = 105 \<longrightarrow> length (cstr (argv_str env a)) < 32) \<longrightarrow>
             (\<forall>ns. \<exists>ns'. netctrl_receive api nenv m ns = Some ns' \<and>
                nc_log (evs ns') = nc_log (evs ns) @ [asked_setting env c a]))))"
proof (cases "good_opts opts")
  case False
  with bad_command_line [OF assms(1,2,4-6)] show ?thesis by blast
next
  case True
  obtain c a where l: "last opts = (c, a)" by (cases "last opts")
  from good_setting_logged [OF assms(1-5,7-9) True l] True l show ?thesis by auto
qed

theorem command_line_decides_witness:
  "(\<exists>t m. app_main (demo_app 112 (lit ''8080'')) 3 app_boot = Some (Inr (0, t)) \<and> app_sent (evs t) = [m] \<and>
     (\<forall>ns. \<exists>ns'. netctrl_receive linux_nlmsg demo_nc m ns = Some ns' \<and>
        nc_log (evs ns') = nc_log (evs ns) @ [Log_port 8080]))"
proof -
  have "asked_setting (demo_app 112 (lit ''8080'')) 112 500 = Log_port 8080"
    by (simp add: asked_setting_def demo_app_atoi demo_numbers)
  moreover have "opts_typed [(112, 500)]" "good_opts [(112, 500)]"
    by (simp_all add: opts_typed_def short_opts_table good_opts_def)
  ultimately show ?thesis
    using command_line_decides [of "demo_app 112 (lit ''8080'')" "[(112, 500)]" 3 app_boot linux_nlmsg demo_nc]
      demo_app_laws [of 112 "lit ''8080''"] linux_nlmsg_laws linux_hdr_law demo_nc_memory by auto
qed

text \<open>
  C14. A number survives the whole way as text. If every option on the command line is \<open>-p\<close>, \<open>-d\<close> or \<open>-i\<close> with its argument, the last one is
  \<open>-p\<close> or \<open>-d\<close>, and its argument is a 32-bit number in decimal digits, with a sign if it is negative, then (with system calls that succeed and
  memory on both sides) the program sends one message, and the module prints that number, which the program read with \<^verbatim>\<open>atoi\<close> and
  sent in four bytes.
\<close>

theorem number_is_logged:
  assumes "getopt_law env opts" and "opts_typed opts" and "app_resources env" and "1 < argc" and "evs s = []"
    and "nlmsg_laws api" and "hdr_law api" and "nc_memory nenv"
    and "good_opts opts" and "last opts = (c, a)" and "c \<in> {112, 100}"
    and "argv_str env a = sdec n @ 0 # rest" and "- (2 ^ 31) \<le> n" and "n < 2 ^ 31"
  shows "\<exists>t m. app_main env argc s = Some (Inr (0, t)) \<and> app_sent (evs t) = [m] \<and>
    (\<forall>ns. \<exists>ns'. netctrl_receive api nenv m ns = Some ns' \<and>
       nc_log (evs ns') = nc_log (evs ns) @ [if c = 112 then Log_port n else Log_id n])"
proof -
  have "asked_setting env c a = (if c = 112 then Log_port n else Log_id n)"
    using assms(11-14) atoi_sdec [of n rest] by (auto simp: asked_setting_def a_atoi_def)
  with good_setting_logged [OF assms(1-10)] assms(11) show ?thesis by auto
qed

theorem number_is_logged_witness:
  "\<exists>t m. app_main (demo_app 100 (lit ''-15'' @ [0])) 3 app_boot = Some (Inr (0, t)) \<and> app_sent (evs t) = [m] \<and>
    (\<forall>ns. \<exists>ns'. netctrl_receive linux_nlmsg demo_nc m ns = Some ns' \<and> nc_log (evs ns') = nc_log (evs ns) @ [Log_id (-15)])"
proof -
  have "argv_str (demo_app 100 (lit ''-15'' @ [0])) 500 = sdec (-15) @ 0 # []"
    by (simp add: demo_app_def sdec_def dec.simps lit_def)
  moreover have "opts_typed [(100, 500)]" "good_opts [(100, 500)]"
    by (simp_all add: opts_typed_def short_opts_table good_opts_def)
  ultimately show ?thesis
    using number_is_logged [of "demo_app 100 (lit ''-15'' @ [0])" "[(100, 500)]" 3 app_boot linux_nlmsg demo_nc 100 500 "-15" "[]"]
      demo_app_laws [of 100 "lit ''-15'' @ [0]"] linux_nlmsg_laws linux_hdr_law demo_nc_memory by auto
qed

text \<open>
  C19. An address that is too long. If every option on the command line is valid with its argument and the last one is \<open>-i\<close> with 32
  characters or more, the program (system calls succeeding) cuts the address at 32 and sends it without a terminator: the message of 52 bytes ends with
  32 bytes none of which is zero. The module then reads on behind it: what it prints continues with the bytes that follow the message
  in the receive buffer and the bytes that follow its own block in memory, up to a zero byte there.
\<close>

theorem long_address_reads_on:
  assumes "getopt_law env opts" and "opts_typed opts" and "app_resources env" and "1 < argc" and "evs s = []"
    and "nlmsg_laws api" and "hdr_law api" and "good_opts opts" and "last opts = (105, a)"
    and "32 \<le> length (cstr (argv_str env a))"
    and "n_kzalloc nenv 40 (evs ns) = Some b" and "4 \<le> length (skb_tail nenv)"
  shows "\<exists>t m ns'. app_main env argc s = Some (Inr (0, t)) \<and> app_sent (evs t) = [m] \<and>
    length m = 52 \<and> drop 20 m = take 32 (cstr (argv_str env a)) \<and> 0 \<notin> set (drop 20 m) \<and>
    netctrl_receive api nenv m ns = Some ns' \<and>
    nc_log (evs ns') = nc_log (evs ns) @
      [Log_ip (take 32 (cstr (argv_str env a)) @ cstr (take 4 (skb_tail nenv) @ behind nenv b))]"
proof -
  let ?d = "take 32 (cstr (argv_str env a))"
  have cmd: "ucast (sc_type (cmd_of env 105 a 0)) = NETCTRL_AUTH_IP" "cmd_of env 105 a 0 = \<lparr>sc_type = 1, sc_word = a\<rparr>"
    by (simp_all add: cmd_of_def)
  then obtain t p where t: "app_main env argc s = Some (Inr (0, t))"
    "app_sent (evs t) = [app_frame NETCTRL_AUTH_IP (cmd_data env \<lparr>sc_type = 1, sc_word = a\<rparr>) p]"
    using good_command_line [OF assms(1-5,8,9)] by auto
  let ?m = "app_frame NETCTRL_AUTH_IP (cmd_data env \<lparr>sc_type = 1, sc_word = a\<rparr>) p"
  have "cmd_data env \<lparr>sc_type = 1, sc_word = a\<rparr> = ?d" using assms(10) by (simp add: cmd_data_def strncpy_def)
  then have "length ?m = 52" "drop 20 ?m = ?d"
    using assms(10) length_app_frame by (simp_all add: app_frame_def app_msg_eq)
  moreover have "0 \<notin> set ?d" using cstr_no_NUL by (meson in_set_takeD)
  moreover obtain ns' where "netctrl_receive api nenv ?m ns = Some ns'"
    "nc_log (evs ns') = nc_log (evs ns) @ [Log_ip (?d @ cstr (take 4 (skb_tail nenv) @ behind nenv b))]"
    using unterminated_logged [OF assms(6,7,10-12)] by blast
  ultimately show ?thesis using t by (intro exI [of _ t] exI [of _ ?m] exI [of _ ns']) simp
qed

theorem long_address_reads_on_witness:
  "\<exists>t m ns'. app_main (demo_app 105 (replicate 40 49)) 3 app_boot = Some (Inr (0, t)) \<and> app_sent (evs t) = [m] \<and>
     0 \<notin> set (drop 20 m) \<and> netctrl_receive linux_nlmsg demo_nc m demo_nc_st = Some ns' \<and>
     nc_log (evs ns') = [Log_ip (replicate 32 49 @ replicate 4 0xAA)]"
proof -
  have s: "cstr (argv_str (demo_app 105 (replicate 40 49)) 500) = replicate 40 49"
    by (simp add: demo_app_def cstr_id)
  have "cstr (take 4 (skb_tail demo_nc) @ behind demo_nc 100) = replicate 4 0xAA" by code_simp
  moreover have "opts_typed [(105, 500)]" "good_opts [(105, 500)]"
    by (simp_all add: opts_typed_def short_opts_table good_opts_def)
  moreover have "n_kzalloc demo_nc 40 (evs demo_nc_st) = Some 100" "4 \<le> length (skb_tail demo_nc)" "nc_log (evs demo_nc_st) = []"
    by (simp_all add: demo_nc_def demo_nc_st_def nc_log_def)
  ultimately show ?thesis
    using long_address_reads_on [of "demo_app 105 (replicate 40 49)" "[(105, 500)]" 3 app_boot linux_nlmsg 500 demo_nc demo_nc_st 100]
      demo_app_laws [of 105 "replicate 40 49"] linux_nlmsg_laws linux_hdr_law s by (simp add: min_def) blast
qed

end
