(* ===== verification/Checksum.thy ===== *)
theory Checksum
  imports Packets
begin

text \<open>
  What a receiver makes of the packets of \<^verbatim>\<open>nic/tcp.c\<close> and \<^verbatim>\<open>nic/udp.c\<close>. The checksum of IP, TCP and UDP is the complement of the
  sum of the 16-bit words, with the carries added back in, which is arithmetic modulo 65535. \<open>csum_laws\<close> says this of
  the kernel's routines; \<open>ip_header_ok\<close>, \<open>segment_ok\<close> and \<open>udp_accepted\<close> are the checks of a receiver (RFC 791, 768, 793). Both
  files take the checksum before the text is in the packet, so no receiver accepts it.
\<close>

section \<open>Sums of 16-bit words\<close>

text \<open>The words in the byte order of the machine; a last odd byte counts as if a zero followed.\<close>

fun word_sum :: "byte list \<Rightarrow> nat" where
  "word_sum (a # b # bs) = unat a + 256 * unat b + word_sum bs"
| "word_sum [a] = unat a"
| "word_sum [] = 0"

lemma word_sum_append: "even (length xs) \<Longrightarrow> word_sum (xs @ ys) = word_sum xs + word_sum ys"
  by (induction xs rule: word_sum.induct) simp_all

lemma word_sum_le16 [simp]: "word_sum (le16 w) = unat w"
proof -
  have "unat w < 65536" using unsigned_less [of w] by simp
  then have "unat w div 256 mod 256 = unat w div 256" by simp
  moreover have "unat (drop_bit 8 w) = unat w div 256" by (simp only: unat_drop_bit_eq) (simp add: drop_bit_eq_div)
  ultimately show ?thesis by (simp add: le16_def unsigned_ucast_eq unsigned_take_bit_eq take_bit_eq_mod)
qed

text \<open>The pseudo header of TCP and UDP: both addresses, a zero, the protocol and the length of the segment.\<close>

definition pseudo_header :: "byte list \<Rightarrow> byte list \<Rightarrow> byte \<Rightarrow> nat \<Rightarrow> byte list" where
  "pseudo_header src dst proto n = src @ dst @ [0, proto] @ be16 (of_nat n)"

definition csum_laws :: "csum_env \<Rightarrow> bool" where
  "csum_laws ce \<longleftrightarrow>
     (\<forall>bs. unat (c_sum ce bs) mod 65535 = word_sum bs mod 65535) \<and>
     (\<forall>bs. 65535 dvd unat (c_fast ce bs) + word_sum bs) \<and>
     (\<forall>src dst n proto c. 65535 dvd unat (c_magic ce src dst n proto c) + word_sum (pseudo_header src dst proto n) + unat c)"

section \<open>The receiver\<close>

definition ip_header :: "byte list \<Rightarrow> byte list" where
  "ip_header fr = take 20 (drop 14 fr)"

definition segment :: "byte list \<Rightarrow> byte list" where
  "segment fr = drop 34 fr"

definition ip_header_ok :: "byte list \<Rightarrow> bool" where
  "ip_header_ok fr \<longleftrightarrow> 65535 dvd word_sum (ip_header fr)"

definition segment_ok :: "byte list \<Rightarrow> bool" where
  "segment_ok fr \<longleftrightarrow>
     65535 dvd word_sum (pseudo_header (take 4 (drop 12 (ip_header fr))) (take 4 (drop 16 (ip_header fr)))
       (ip_header fr ! 9) (length (segment fr))) + word_sum (segment fr)"

text \<open>A UDP checksum of zero means that the sender did not compute one.\<close>

definition udp_accepted :: "byte list \<Rightarrow> bool" where
  "udp_accepted fr \<longleftrightarrow> take 2 (drop 6 (segment fr)) = [0, 0] \<or> segment_ok fr"

section \<open>The two frames\<close>

lemma word_sum_payload: "word_sum payload = 430833"
  by (simp add: payload_def)

lemma word_sum_pseudo:
  "word_sum (pseudo_header srcip dstip p n) = word_sum srcip + word_sum dstip + 256 * unat p + word_sum (be16 (of_nat n))"
  by (simp add: pseudo_header_def word_sum_append)

lemma word_sum_udphdr: "word_sum (udp_udphdr c) = word_sum (udp_udphdr 0) + unat c"
  by (simp add: udp_udphdr_def word_sum_append)

lemma word_sum_tcphdr:
  "length k = 20 \<Longrightarrow> word_sum (tcp_tcphdr sq ak c k) = word_sum (tcp_tcphdr sq ak 0 k) + unat c"
  by (simp add: tcp_tcphdr_def word_sum_append)

text \<open>Where the length of the text, 38, is missing from the pseudo header and the text from the sum, the rest is not 0.\<close>

lemma late_text_breaks_sum:
  fixes s h c p q t :: nat
  assumes "s mod 65535 = h mod 65535" and "65535 dvd c + p + s" and "q + t = p + 440561"
  shows "\<not> 65535 dvd q + (h + c + t)"
proof
  assume "65535 dvd q + (h + c + t)"
  moreover have "q + (h + c + t) = (c + p + h) + 440561" using assms(3) by simp
  moreover have "65535 dvd c + p + h" using mod_add_cong [of "c + p" 65535 "c + p" s h] assms(1,2) by (simp add: dvd_eq_mod_eq_0)
  ultimately have "(65535::nat) dvd 440561" by (metis dvd_add_right_iff)
  then show False by simp
qed

lemma udp_frame_layout:
  assumes "length j = 20"
  shows "ip_header (udp_frame ce j) = udp_iphdr (udp_ip_check ce j) j"
    and "segment (udp_frame ce j) = udp_udphdr (c_magic ce srcip dstip 8 IPPROTO_UDP (c_sum ce (udp_udphdr 0))) @ payload"
  using assms by (simp_all add: ip_header_def segment_def udp_frame_def)

lemma tcp_frame_layout:
  assumes "length j = 20" and "length k = 20"
  shows "ip_header (tcp_frame ce sq ak j k) = tcp_iphdr j"
    and "segment (tcp_frame ce sq ak j k) =
      tcp_tcphdr sq ak (c_magic ce srcip dstip 20 IPPROTO_TCP (c_sum ce (tcp_tcphdr sq ak 0 k))) k @ payload"
  using assms by (simp_all add: ip_header_def segment_def tcp_frame_def)

lemma iphdr_fields:
  assumes "length j = 20"
  shows "take 4 (drop 12 (udp_iphdr c j)) = srcip \<and> take 4 (drop 16 (udp_iphdr c j)) = dstip \<and> udp_iphdr c j ! 9 = 17"
    and "take 4 (drop 12 (tcp_iphdr j)) = srcip \<and> take 4 (drop 16 (tcp_iphdr j)) = dstip \<and> tcp_iphdr j ! 9 = 6"
  using assms by (simp_all add: udp_iphdr_def tcp_iphdr_def nth_append be16_def le16_def)

lemma udp_segment_fails:
  assumes "csum_laws ce" and "length j = 20"
  shows "\<not> segment_ok (udp_frame ce j)"
proof -
  let ?s = "c_sum ce (udp_udphdr 0)"
  let ?c = "c_magic ce srcip dstip 8 IPPROTO_UDP ?s"
  have "word_sum (pseudo_header srcip dstip 17 46) + word_sum payload = word_sum (pseudo_header srcip dstip 17 8) + 440561"
    by (simp add: word_sum_pseudo word_sum_payload be16_def)
  with late_text_breaks_sum [of "unat ?s" "word_sum (udp_udphdr 0)" "unat ?c"] assms(1)
  have "\<not> 65535 dvd word_sum (pseudo_header srcip dstip 17 46) + (word_sum (udp_udphdr 0) + unat ?c + word_sum payload)"
    unfolding csum_laws_def by metis
  then show ?thesis
    using udp_frame_layout [OF assms(2), of ce] iphdr_fields(1) [OF assms(2)]
    by (simp add: segment_ok_def word_sum_append word_sum_udphdr [of ?c])
qed

lemma tcp_segment_fails:
  assumes "csum_laws ce" and "length j = 20" and "length k = 20"
  shows "\<not> segment_ok (tcp_frame ce sq ak j k)"
proof -
  let ?s = "c_sum ce (tcp_tcphdr sq ak 0 k)"
  let ?c = "c_magic ce srcip dstip 20 IPPROTO_TCP ?s"
  have "word_sum (pseudo_header srcip dstip 6 58) + word_sum payload = word_sum (pseudo_header srcip dstip 6 20) + 440561"
    by (simp add: word_sum_pseudo word_sum_payload be16_def)
  with late_text_breaks_sum [of "unat ?s" "word_sum (tcp_tcphdr sq ak 0 k)" "unat ?c"] assms(1)
  have "\<not> 65535 dvd word_sum (pseudo_header srcip dstip 6 58) + (word_sum (tcp_tcphdr sq ak 0 k) + unat ?c + word_sum payload)"
    unfolding csum_laws_def by metis
  then show ?thesis
    using tcp_frame_layout [OF assms(2,3), of ce sq ak] iphdr_fields(2) [OF assms(2)] assms(3)
    by (simp add: segment_ok_def word_sum_append word_sum_tcphdr [of k sq ak ?c])
qed
text \<open>The checksum field is never the zero that would make a receiver skip the check.\<close>

lemma udp_check_not_zero:
  assumes "csum_laws ce"
  shows "c_magic ce srcip dstip 8 IPPROTO_UDP (c_sum ce (udp_udphdr 0)) \<noteq> 0"
proof
  let ?s = "c_sum ce (udp_udphdr 0)"
  assume "c_magic ce srcip dstip 8 IPPROTO_UDP ?s = 0"
  then have "65535 dvd word_sum (pseudo_header srcip dstip 17 8) + unat ?s"
    using assms unfolding csum_laws_def by (metis add_0 unsigned_0)
  moreover have "unat ?s mod 65535 = word_sum (udp_udphdr 0) mod 65535" using assms by (simp add: csum_laws_def)
  ultimately have "65535 dvd word_sum (pseudo_header srcip dstip 17 8) + word_sum (udp_udphdr 0)"
    using mod_add_cong [of "word_sum (pseudo_header srcip dstip 17 8)" 65535 _ "unat ?s" "word_sum (udp_udphdr 0)"]
    by (simp add: dvd_eq_mod_eq_0)
  moreover have "word_sum (pseudo_header srcip dstip 17 8) + word_sum (udp_udphdr 0) = 186688"
    by (simp add: pseudo_header_def be16_def srcip_def dstip_def udp_udphdr_def le16_def)
  ultimately show False by simp
qed

lemma le16_zero: "le16 w = [0, 0] \<longleftrightarrow> w = 0"
  using rd16_le16 [of w "[]"] rd16_le16 [of 0 "[]"] by (auto simp: le16_def)

lemma udp_frame_not_accepted:
  assumes "csum_laws ce" and "length j = 20"
  shows "\<not> udp_accepted (udp_frame ce j)"
proof -
  let ?c = "c_magic ce srcip dstip 8 IPPROTO_UDP (c_sum ce (udp_udphdr 0))"
  have "take 2 (drop 6 (segment (udp_frame ce j))) = le16 ?c"
    using udp_frame_layout(2) [OF assms(2), of ce] by (simp add: udp_udphdr_def [of ?c])
  then show ?thesis
    using udp_check_not_zero [OF assms(1)] udp_segment_fails [OF assms] by (simp add: udp_accepted_def le16_zero)
qed

text \<open>The IP header of the UDP packet is right if the two bytes the buffer held in place of the checksum were both 0 or
  both 255; that of the TCP packet, whose checksum is left 0, if the identification happens to make up for it.\<close>

lemma word_sum_udp_iphdr:
  assumes "length j = 20"
  shows "word_sum (udp_iphdr c j) = word_sum (udp_iphdr 0 j) + unat c"
  using assms by (simp add: udp_iphdr_def word_sum_append)

lemma u16_multiple: "65535 dvd unat (w :: u16) \<longleftrightarrow> w = 0 \<or> w = 0xFFFF"
proof
  assume "65535 dvd unat w"
  then obtain m where m: "unat w = 65535 * m" ..
  moreover have "unat w < 65536" using unsigned_less [of w] by simp
  ultimately have "m = 0 \<or> m = 1" by linarith
  moreover have "w = of_nat (unat w)" by simp
  ultimately have "w = of_nat 0 \<or> w = of_nat 65535" using m by (metis mult_0_right mult.right_neutral)
  then show "w = 0 \<or> w = 0xFFFF" by simp
qed auto

lemma udp_ip_header_ok_iff:
  assumes "csum_laws ce" and "length j = 20"
  shows "ip_header_ok (udp_frame ce j) \<longleftrightarrow> rd16 (drop 10 j) \<in> {0, 0xFFFF}"
proof -
  let ?h = "word_sum (udp_iphdr 0 j)" and ?c = "unat (udp_ip_check ce j)" and ?w = "unat (rd16 (drop 10 j))"
  have "65535 dvd ?c + (?h + ?w)"
    using assms(1) word_sum_udp_iphdr [OF assms(2), of "rd16 (drop 10 j)"] unfolding csum_laws_def udp_ip_check_def by metis
  then have "65535 dvd ?h + ?c \<longleftrightarrow> 65535 dvd ?w" 
    using dvd_add_right_iff [of 65535 "?h + ?c" ?w] dvd_add_left_iff [of 65535 ?w "?h + ?c"] by (simp add: ac_simps, blast)
  then show ?thesis
    using udp_frame_layout(1) [OF assms(2), of ce] word_sum_udp_iphdr [OF assms(2), of "udp_ip_check ce j"]
    by (simp add: ip_header_ok_def u16_multiple)
qed

section \<open>A checksum\<close>

text \<open>The routines, written as RFC 1071 gives them.\<close>

definition inet_csum :: csum_env where
  "inet_csum =
     \<lparr>c_sum = (\<lambda>bs. of_nat (word_sum bs mod 65535)),
      c_fast = (\<lambda>bs. of_nat (65535 - word_sum bs mod 65535)),
      c_magic = (\<lambda>s d n p c. of_nat (65535 - (word_sum (pseudo_header s d p n) + unat c) mod 65535))\<rparr>"

lemma complement_sum: "65535 dvd unat (of_nat (65535 - n mod 65535) :: u16) + n"
proof -
  have "unat (of_nat m :: u16) = m" if "m < 65536" for m using that by (simp add: unat_of_nat take_bit_eq_mod)
  from this [of "65535 - n mod 65535"] have "unat (of_nat (65535 - n mod 65535) :: u16) = 65535 - n mod 65535"
    by (simp del: of_nat_diff)
  moreover have "65535 - n mod 65535 + n = 65535 + 65535 * (n div 65535)"
    using mod_less_divisor [of 65535 n] mult_div_mod_eq [of 65535 n] by linarith
  ultimately show ?thesis by simp
qed

lemma inet_csum_laws: "csum_laws inet_csum"
proof -
  have "unat (of_nat (n mod 65535) :: u32) = n mod 65535" for n :: nat
    using mod_less_divisor [of 65535 n] by (simp add: unat_of_nat take_bit_eq_mod)
  then show ?thesis
    using complement_sum by (simp add: csum_laws_def inet_csum_def add.assoc)
qed

section \<open>Properties\<close>

text \<open>
  C15. Nobody accepts the packets. Both modules compute the checksum before the text is part of the packet, over the header
  and with its length alone. With checksum routines that do what they should, whatever bytes the new buffer held:
  loading the UDP module sends one frame, whose UDP checksum is not zero and does not match; loading the TCP module
  sends one frame whose TCP checksum does not match.
\<close>

theorem handmade_packets_rejected:
  assumes "skb_laws env" and "14 \<le> x_ll_reserved env" and "x_dev_get env [] = Some d"
    and "\<forall>n tr. x_alloc_skb env n tr \<noteq> None" and "\<forall>a bs tr. 0 \<le> x_xmit env a bs tr" and "evs s = []"
    and "csum_laws ce"
  shows "(\<exists>t fr. udp_skbinit env ce s = Inr (0, t) \<and> frames (evs t) = [fr] \<and> \<not> udp_accepted fr) \<and>
    (\<exists>t fr. tcp_skbinit env ce s = Inr (0, t) \<and> frames (evs t) = [fr] \<and> \<not> segment_ok fr)"
  using udp_sends [OF assms(1-6), of ce] tcp_sends [OF assms(1-6), of ce]
    udp_frame_not_accepted [OF assms(7)] tcp_segment_fails [OF assms(7)] by blast

theorem handmade_packets_rejected_witness:
  "(\<exists>t fr. udp_skbinit (demo_pk 0) inet_csum pk_boot = Inr (0, t) \<and> frames (evs t) = [fr] \<and> \<not> udp_accepted fr) \<and>
   (\<exists>t fr. tcp_skbinit (demo_pk 0) inet_csum pk_boot = Inr (0, t) \<and> frames (evs t) = [fr] \<and> \<not> segment_ok fr)"
  using handmade_packets_rejected [OF demo_pk_laws _ _ _ _ _ inet_csum_laws, of 0 1 pk_boot] by (simp add: demo_pk_def)

end
