(* ===== verification/Capcache.thy ===== *)
theory Capcache
  imports Registry
begin

text \<open>
  The object cache of \<^verbatim>\<open>netlink/netlink.c\<close>. The two routines are written but not called (the calls are commented out);
  no other code touches \<^verbatim>\<open>capcache\<close>, so its state is kept apart from that of the module.
\<close>

datatype cc_ev = Kmem_cache_create "addr option" | Kmem_cache_destroy addr

record cc_st = "cc_ev kst" +
  capcache :: "addr option"

definition cap_kmem_cache_init :: "(cc_ev list \<Rightarrow> addr option) \<Rightarrow> cc_st \<Rightarrow> int \<times> cc_st" where
  "cap_kmem_cache_init create s =
     (let (c, s1) = kcall create Kmem_cache_create s; s2 = s1\<lparr>capcache := c\<rparr>
      in if capcache s2 = None then (-1, s2) else (0, s2))"

definition cap_kmem_cache_fini :: "cc_st \<Rightarrow> int \<times> cc_st" where
  "cap_kmem_cache_fini s = (0, case capcache s of None \<Rightarrow> s | Some c \<Rightarrow> kdo (Kmem_cache_destroy c) s)"

fun cc_op :: "cc_ev \<Rightarrow> addr reg_op list" where
  "cc_op (Kmem_cache_create (Some c)) = [Add c]"
| "cc_op (Kmem_cache_create None) = []"
| "cc_op (Kmem_cache_destroy c) = [Del c]"

definition cc_ops :: "cc_ev list \<Rightarrow> addr reg_op list" where
  "cc_ops tr = concat (map cc_op tr)"

text \<open>Creating and destroying balance, also when creation fails. Destroying a second time would free the cache
  again: the pointer is not reset.\<close>

lemma cap_kmem_cache_balance:
  assumes "evs s = []" and "cap_kmem_cache_init create s = (r, t)"
  shows "(r = 0 \<longleftrightarrow> create [] \<noteq> None) \<and> (r = 0 \<or> r = -1) \<and>
    reg_run (cc_ops (evs (snd (cap_kmem_cache_fini t)))) [] = Some [] \<and>
    (r = 0 \<longrightarrow> reg_run (cc_ops (evs (snd (cap_kmem_cache_fini (snd (cap_kmem_cache_fini t)))))) [] = None)"
  using assms by (cases "create []") (auto simp: cap_kmem_cache_init_def cap_kmem_cache_fini_def cc_ops_def kdefs)

end
