(* ===== verification/Spec2Isabelle.thy ===== *)
theory Spec2Isabelle
  imports Capture UserClient Netctrl NetctrlApp Mon Nic Procfs Probes Fet Packets Garp Notifier
    Threads Timers Deferred Demos SmpUnload AppOptions Checksum Capcache
begin

text \<open>
  A verification library for the kernel modules of this repository and the two programs that talk to
  them. Everything is a shallow embedding: a C function is an Isabelle function of the same name from
  a state to a result and a state.

  \<^bold>\<open>The parts and how they interact.\<close> Most directories under \<^verbatim>\<open>src\<close> are one loadable module each and independent of
  the others. Two pairs interact over netlink: \<^verbatim>\<open>netlink/user_client.c\<close> registers with the capture module
  \<^verbatim>\<open>netlink/netlink.c\<close>, which from then on copies every outgoing packet to it through a kernel thread;
  \<^verbatim>\<open>netctrl/app.c\<close> sends a setting to \<^verbatim>\<open>netctrl/netctrl.c\<close>, which prints it. The three modules under \<^verbatim>\<open>notifierchain\<close>
  share one notifier chain.

  \<^bold>\<open>The outside.\<close> Kernel, libc, scheduler and hardware are not part of the repository. A component that calls
  them takes a record of functions, its environment (\<open>nl_env\<close>, \<open>app_env\<close>, \<open>mon_env\<close> and so on), each of which
  gets the history of the external calls made so far and answers with the result of the call. The
  history is the field \<open>evs\<close> of every state; \<open>kcall\<close> and \<open>kdo\<close> of \<open>KPrelude\<close> append to it. Nothing is assumed
  about an environment except where a theorem names it: the predicates \<open>list_laws\<close>, \<open>queue_laws\<close>,
  \<open>alloc_laws\<close>, \<open>put_laws\<close>, \<open>nlmsg_laws\<close>, \<open>hdr_law\<close>, \<open>getopt_law\<close>, \<open>from_user_law\<close>, \<open>proc_user_law\<close>, \<open>skb_laws\<close>, \<open>csum_laws\<close>, \<open>garp_laws\<close>,
  \<open>chain_laws\<close>, \<open>sem_laws\<close>, \<open>timer_laws\<close>, \<open>clock_laws\<close>, \<open>enqueue_law\<close> and \<open>buffer_holds\<close> state documented behaviour, and each holds of a concrete
  environment that the witnesses run on (\<open>demo_env\<close>, \<open>linux_nlmsg\<close>, \<open>demo_app\<close>, \<open>pair_sem\<close> and so on); \<open>mem_ok\<close>,
  \<open>can_send\<close>, \<open>good_env\<close>, \<open>thread_starts\<close>, \<open>app_resources\<close>, \<open>uc_laws\<close> and \<open>nc_memory\<close> say that resources are available. What a history
  means (which buffers are queued, allocated, referenced, registered, sent) is computed from it by
  folds such as \<open>freelist\<close>, \<open>skbq\<close>, \<open>skb_refs\<close>, \<open>sent\<close>, \<open>planted\<close>, \<open>reg_run\<close>.

  \<^bold>\<open>Data.\<close> Integers keep their width as words where they can wrap around; bytes are 8-bit words, and structures that
  cross a boundary (netlink messages, packets, ioctl blocks, settings) are laid out byte by byte with
  \<open>le16\<close>, \<open>le32\<close>, \<open>be16\<close> and \<open>memcpy_at\<close>. \<^verbatim>\<open>unsigned long\<close> has 64 bits (\<open>ulong\<close>). A crash (NULL dereference, use after free,
  failed \<^verbatim>\<open>BUG_ON\<close>) is the left value of the result, of the type \<open>fault\<close>.

  \<^bold>\<open>Theories.\<close>
  \<^item> \<open>KPrelude\<close>: external calls, error numbers, C memory and strings, and the interfaces \<open>transition_system\<close>
    (an invariant of a step relation), \<open>simulation\<close> (every step of a program is at most one step of its specification), \<open>bounded_registry\<close> (a
    bounded multiset with join and leave), \<open>stored_value\<close> (what is read back after a write) and \<open>fair_progress\<close> (a measure
    that brings every fair infinite run to its goal). \<open>Cnum\<close>: decimal numbers of the C library, \<^verbatim>\<open>%ld\<close> and \<^verbatim>\<open>atoi\<close>, and that one reads
    what the other prints. \<open>Registry\<close>: additions and removals that must balance, the
    registration loop with rollback, and the interface \<open>registrar\<close>.
  \<^item> \<open>Nlmsg\<close>: netlink messages and the receive loop both netlink modules have, with the interface \<open>msg_handler\<close>.
  \<^item> \<open>Usrtab\<close>, \<open>Capbuf\<close>, \<open>Netlink\<close>, \<open>Capture\<close>: \<^verbatim>\<open>netlink/netlink.c\<close>. The table of users refines a bounded multiset
    (\<open>users\<close> interprets \<open>bounded_registry\<close>); capture buffers, free list, rate limiter; hooks, commands, sending thread,
    module start and end, and the running module as the step relation \<open>nl_step\<close> with its invariant \<open>nl_inv\<close>
    (\<open>capture\<close> interprets \<open>transition_system\<close>, \<open>cap_cmd\<close> interprets \<open>msg_handler\<close>); delivery of packets, effect of
    commands, error paths, and where a backlog goes when the listener changes.
  \<^item> \<open>Smp\<close>: the same module on several processors. \<open>hook_step\<close> and \<open>thread_step\<close> are the hook and the thread split at
    every access to shared data, lock region and call; \<open>smp_step\<close> interleaves any number of packets, the thread and
    messages. A history says whether the thread was woken since it went to wait (\<open>woken\<close>), and a sleeping thread runs on only
    then, or when the freezer or a signal disturbs it. Ownership of buffers is an invariant, and every fault has its cause in the
    history (\<open>smp_system\<close> interprets \<open>transition_system\<close>). \<open>SmpOnce\<close>: what is sent are the packets that
    entered, each at most once (\<open>once_system\<close> interprets \<open>transition_system\<close>), and every run of the module is a run of an abstract
    queue, \<open>spec_step\<close>, in which packets arrive, are queued or given up, and leave in the order of the queue (\<open>capture_queue\<close> interprets \<open>simulation\<close>).
    \<open>SmpLive\<close>: no wake-up is lost (\<open>wake_system\<close> interprets \<open>transition_system\<close>); without new arrivals the work that is left never
    grows, and the module can always come to rest (\<open>calm_system\<close> interprets \<open>transition_system\<close>). \<open>SmpFair\<close>: every fair run
    comes to rest and by then has delivered every packet, once (\<open>module_fair\<close> interprets \<open>fair_progress\<close>); fair runs exist.
    \<open>SmpUnload\<close>: unloading the module does not stop its thread, which goes on sending on the released socket.
    \<open>Capcache\<close>: the object cache, which the module does not use.
  \<^item> \<open>UserClient\<close>: \<^verbatim>\<open>netlink/user_client.c\<close>, down to the bytes it sends, what the module does with them, and the lines it
    shows for the messages it receives.
  \<^item> \<open>Netctrl\<close>, \<open>NetctrlApp\<close> and \<open>AppOptions\<close>: \<^verbatim>\<open>netctrl/netctrl.c\<close>, \<^verbatim>\<open>netctrl.h\<close> and \<^verbatim>\<open>netctrl/app.c\<close>; any command line is
    followed to the kernel log, a number from its digits to the line the module prints, and an address that is too long to the bytes
    read behind it; the option tables agree, and so
    do the declarations of both sides.
  \<^item> \<open>MonTab\<close>, \<open>Mon\<close> and \<open>Nic\<close>: the devices of \<^verbatim>\<open>mon/mon.c\<close> and \<^verbatim>\<open>nic/nic.c\<close>; the tables of private commands,
    round trip and bounds of the ioctls, loading and unloading (\<open>lover\<close> interprets \<open>stored_value\<close>). How the wireless core
    and \<^verbatim>\<open>iwpriv\<close> use the tables is not modelled.
  \<^item> \<open>Procfs\<close>: \<^verbatim>\<open>proc/foobar.c\<close>; buffers stay terminated under all writes (\<open>procfs\<close> interprets
    \<open>transition_system\<close>, \<open>foo_file\<close> interprets \<open>stored_value\<close>), creation is all or nothing.
  \<^item> \<open>Probes\<close> and \<open>Fet\<close>: \<^verbatim>\<open>kprobe/kprobe.c\<close> and \<^verbatim>\<open>funcexectime/funcexectime.c\<close>; what stays planted after failures (\<open>probes\<close>
    interprets \<open>registrar\<close>). The handlers of the return probe interleave at every access to the clock and the line counter; each line
    reports the duration of its own call (\<open>fet_calls\<close> interprets \<open>transition_system\<close>), but two can have the same number
    (\<open>exclusive_calls\<close>, the runs in which they cannot).
  \<^item> \<open>Skbuff\<close>, \<open>Packets\<close>, \<open>Garp\<close>: \<^verbatim>\<open>nic/tcp.c\<close>, \<^verbatim>\<open>nic/udp.c\<close>, \<^verbatim>\<open>nic/garp.c\<close>; the frames byte by byte and the references to
    buffers and devices on every path. \<open>Checksum\<close>: the checks a receiver makes, and that neither the TCP nor the UDP checksum passes them.
  \<^item> \<open>Notifier\<close>, \<open>Timers\<close>, \<open>Threads\<close>, \<open>Deferred\<close>, \<open>Demos\<close>: \<^verbatim>\<open>notifierchain\<close>, \<^verbatim>\<open>timer\<close>, \<^verbatim>\<open>kthread\<close>, \<^verbatim>\<open>tasklet_workqueue\<close>, and
    \<^verbatim>\<open>tty\<close>, \<^verbatim>\<open>usermode_helper\<close>, \<^verbatim>\<open>multifile\<close>. The periodic timer and the reader and writer threads are step relations in which
    the other side may run between any two lines (\<open>std_timer\<close>, \<open>timer_unloaded\<close> and \<open>rw_threads\<close> interpret \<open>transition_system\<close>).
  \<^item> This theory: the session of a client over all parts of the capture system, and what the jprobe of \<open>Probes\<close> shows of
    the commands of \<open>MonTab\<close>.

  \<^bold>\<open>Loops.\<close> Loops over tables are structural recursion or have a termination proof by the index (\<open>find_pid\<close>) or
  by the word they count down (\<open>uc_loop\<close>). Loops whose end depends on the outside are partial functions
  into option: \<open>nl_walk\<close>, \<open>parse_loop\<close>, \<open>thread_loop\<close>; each is shown to return under the laws of the calls
  it waits for. Two functions take fuel. \<open>nl_msgs\<close> lists the messages of a buffer; its fuel is the length of the buffer plus
  one, and \<open>nl_walk_msgs\<close> shows that this is enough, since a message takes at least 16 bytes.
  \<open>kcapd_thread\<close> runs the sending thread for a number of rounds; \<open>kcapd_drains\<close> shows that one round per queued
  packet and one more empty the queue. \<open>hook_steps\<close> and \<open>thread_steps\<close> count steps of one
  activation; they only build the concrete runs of the witnesses.

  \<^bold>\<open>Concurrency.\<close> The capture module is modelled twice. In \<open>nl_step\<close> a packet, a received buffer and a round of the
  thread are one step each; in \<open>smp_step\<close> they are split, and only what the code protects by a lock or a mutex is one step (the
  free list, one received message), or what one call of the kernel does. Both share the routines on buffers and commands, and an activation that nothing interrupts gives the result of the whole
  operation (\<open>hook_alone\<close>, \<open>thread_alone\<close>); properties of the
  module on several processors are proved of \<open>smp_step\<close>. Memory is sequentially consistent. In \<open>Threads\<close> and
  \<open>Timers\<close> a step is a line of the program, in \<open>Fet\<close> an access to shared data. Not split further: the commands (under a mutex), the
  loading of a module, and the callbacks of the notifier chain and of \<open>Deferred\<close>.

  \<^bold>\<open>Not modelled.\<close> \<^verbatim>\<open>fakeid\<close> of \<^verbatim>\<open>tcp.c\<close> and \<^verbatim>\<open>udp.c\<close>, which nothing uses; code that is compiled out (\<^verbatim>\<open>netctrl_hook_init\<close>
  and the like); log output, except where it is all that a function does; the licence and
  module macros; build files and readme files.

  \<^bold>\<open>Next steps.\<close> Several clients in one run of \<open>smp_step\<close>; weaker memory than sequential consistency.
\<close>

section \<open>Client, module and thread together\<close>

text \<open>The module before and after a client: registered, it is the only member and gets the packets; gone,
  nobody is left and a packet passes untouched.\<close>

lemma client_registered:
  assumes "thread_starts kenv" and "usr_ok (users_tab ks)" and "members (users_tab ks) = {#}" and "nl_inv ks" and "p \<noteq> 0"
    and "nlmsg_type h = CAP_ADD" and "nlmsg_pid h = p"
  defines "ks1 \<equiv> cap_receive_one kenv h 0 ks"
  shows "nl_inv ks1 \<and> cap_nlk_portid ks1 = p \<and> usr_ok (users_tab ks1) \<and> members (users_tab ks1) = {#p#}"
  using cap_receive_one_inv [OF assms(4)] cap_receive_one_obs(2) [OF assms(1)]
    cap_receive_one_users [OF assms(1,2)] assms(3,5-7)
  by (simp add: ks1_def cmd_port_def cmd_members_def)

lemma client_gone:
  assumes "thread_starts kenv" and "usr_ok (users_tab ks)" and "members (users_tab ks) = {#p#}" and "p \<noteq> 0"
    and "nlmsg_type h = CAP_DEL" and "nlmsg_pid h = p"
  defines "ks1 \<equiv> cap_receive_one kenv h 0 ks"
  shows "members (users_tab ks1) = {#} \<and> (\<forall>pkt. hook_func_queue kenv pkt ks1 = Inr (NF_ACCEPT, ks1))"
  using cap_receive_one_obs(2) [OF assms(1)] cap_receive_one_users [OF assms(1,2)] assms(3-6)
  by (simp add: ks1_def cmd_port_def cmd_members_def hook_idle)

text \<open>
  C1. A whole capture session, from the loading of the module to the end of the client. The client,
  a process with the id \<open>p\<close>, runs to its end and sends two messages. When the freshly loaded module
  gets the first, the client becomes its only user; packets (of at most 2000 bytes) that pass the
  hook from then on are sent by the thread to the client's port, all of them, in order and each with
  its bytes unchanged in a message of the right length; when the module gets the second message, no user is left, and every further
  packet passes without any effect on the module.
\<close>

theorem capture_session:
  assumes "uc_laws env p" and "p \<noteq> 0" and "evs s = []" and "hdr_law api" and "thread_starts kenv"
    and "env_laws api kenv" and "mem_ok kenv" and "can_send kenv" and "nl_started kenv ks0"
    and "\<forall>pkt\<in>set pkts. length pkt \<le> MAX_SKB_BUFSIZE"
  shows "\<exists>t m1 ps m2 ks1 ks2 ks3 ks4 ms. uc_main env time s = Inr t \<and> uc_io (evs t) = Inl m1 # map Inr ps @ [Inl m2] \<and>
    cap_receive api kenv m1 ks0 = Some ks1 \<and> members (users_tab ks1) = {#p#} \<and>
    hook_all kenv pkts ks1 = Inr ks2 \<and>
    kcapd_thread kenv (Suc (length pkts)) ks2 = Some (Inr (Sleeping, ks3)) \<and>
    map (\<lambda>(c, q, e). (c, q)) (sent (evs ks3)) = map (\<lambda>m. (Some m, p)) ms \<and>
    list_all2 message_of ms pkts \<and>
    cap_receive api kenv m2 ks3 = Some ks4 \<and> members (users_tab ks4) = {#} \<and>
    (\<forall>pkt. hook_func_queue kenv pkt ks4 = Inr (NF_ACCEPT, ks4))"
proof -
  have api: "nlmsg_laws api" using assms(6) by (simp add: env_laws_def)
  note st = nl_started_inv [OF assms(9)]
  obtain t j1 ps j2 where t: "uc_main env time s = Inr t" "length j1 = MSG_SPACE" "length j2 = MSG_SPACE"
    "uc_io (evs t) = Inl (uc_message CAP_ADD p hello 21 j1) # map Inr ps @ [Inl (uc_message CAP_DEL p bye 21 j2)]"
    using uc_main_run [OF assms(1,3)] by blast
  obtain h1 where h1: "nlmsg_type h1 = CAP_ADD" "nlmsg_pid h1 = p"
    "cap_receive api kenv (uc_message CAP_ADD p hello 21 j1) ks0 = Some (cap_receive_one kenv h1 0 ks0)"
    using cap_receive_uc_message [OF api assms(4) t(2), of 21] by fastforce
  let ?ks1 = "cap_receive_one kenv h1 0 ks0"
  have k1: "nl_inv ?ks1" "cap_nlk_portid ?ks1 = p" "usr_ok (users_tab ?ks1)" "members (users_tab ?ks1) = {#p#}"
    using client_registered [OF assms(5) _ _ _ assms(2) h1(1,2)] st by auto
  obtain ks2 ks3 ms where k: "hook_all kenv pkts ?ks1 = Inr ks2"
    "kcapd_thread kenv (Suc (length pkts)) ks2 = Some (Inr (Sleeping, ks3))" "users_tab ks3 = users_tab ?ks1"
    "map (\<lambda>(c, q, e). (c, q)) (sent (evs ks3)) =
      map (\<lambda>(c, q, e). (c, q)) (sent (evs ?ks1)) @ map (\<lambda>m. (Some m, cap_nlk_portid ?ks1)) ms"
    "list_all2 message_of ms pkts"
    using hook_then_kcapd [OF assms(6-8) k1(1) _ _ assms(10)] k1(2) assms(2) st cap_receive_one_quiet(1) by auto
  obtain h2 where h2: "nlmsg_type h2 = CAP_DEL" "nlmsg_pid h2 = p"
    "cap_receive api kenv (uc_message CAP_DEL p bye 21 j2) ks3 = Some (cap_receive_one kenv h2 0 ks3)"
    using cap_receive_uc_message [OF api assms(4) t(3), of 21] by fastforce
  have sent: "map (\<lambda>(c, q, e). (c, q)) (sent (evs ks3)) = map (\<lambda>m. (Some m, p)) ms"
    using k(4) k1(2) st cap_receive_one_quiet(2) by auto
  note gone = client_gone [OF assms(5) _ _ assms(2) h2(1,2), of ks3, unfolded k(3), OF k1(3,4)]
  from t(1,4) h1(3) k1(4) k(1,2,5) sent h2(3) gone show ?thesis by blast
qed

theorem capture_session_witness:
  "\<exists>t m1 ps m2 ks1 ks2 ks3 ms. uc_main demo_uc 2 \<lparr>evs = [], sock_fd = 0, nlh = None\<rparr> = Inr t \<and>
    uc_io (evs t) = Inl m1 # map Inr ps @ [Inl m2] \<and> cap_receive linux_nlmsg demo_env m1 demo_loaded = Some ks1 \<and>
    hook_all demo_env [[1, 2, 3], [4]] ks1 = Inr ks2 \<and> kcapd_thread demo_env 3 ks2 = Some (Inr (Sleeping, ks3)) \<and>
    map (\<lambda>(c, q, e). (c, q)) (sent (evs ks3)) = map (\<lambda>m. (Some m, 77)) ms \<and>
    list_all2 message_of ms [[1, 2, 3], [4]]"
proof -
  have "uc_laws demo_uc 77" by (simp add: uc_laws_def demo_uc_def)
  from capture_session [OF this _ _ linux_hdr_law demo_thread demo_env_laws demo_env_good demo_loaded_started,
      of "\<lparr>evs = [], sock_fd = 0, nlh = None\<rparr>" "[[1, 2, 3], [4]]" 2]
  show ?thesis by (simp add: numeral_3_eq_3) blast
qed

section \<open>A probe on the commands of the device\<close>

text \<open>The jprobe on \<^verbatim>\<open>ioctl_private_call\<close> watches exactly the commands the device of \<^verbatim>\<open>mon.c\<close> has handlers for. When
  one of them is called it prints the whole table, and finds the description of the command at the place where the
  handler stands in its own table.\<close>

lemma jprobe_shows_mon_command:
  fixes cmd :: u32
  defines "cmds \<equiv> map ip_cmd (hd_private_args iw_handler_def_mon)"
  shows "private_cmd cmd \<longleftrightarrow> unat (cmd - SIOCIWFIRSTPRIV) < hd_num_private iw_handler_def_mon"
    and "private_cmd cmd \<Longrightarrow> evs (ioctl_private_call_jentry cmd cmds s) = evs s @
      [Log_private_args cmd cmds, Log_private_cmd cmd, Log_break (unat (cmd - SIOCIWFIRSTPRIV)) cmd, Jprobe_return]"
proof -
  have "unat (cmd - SIOCIWFIRSTPRIV) < hd_num_private iw_handler_def_mon \<longleftrightarrow> unat (cmd - SIOCIWFIRSTPRIV) < 3"
    by (simp add: iw_handler_def_mon_def iw_handlers_mon_def Let_def numeral_3_eq_3)
  also have "\<dots> \<longleftrightarrow> cmd - SIOCIWFIRSTPRIV = 0 \<or> cmd - SIOCIWFIRSTPRIV = 1 \<or> cmd - SIOCIWFIRSTPRIV = 2"
    by (auto simp: unat_arith_simps less_Suc_eq numeral_3_eq_3)
  also have "\<dots> \<longleftrightarrow> private_cmd cmd" by (auto simp: eq_diff_eq diff_eq_eq)
  finally show "private_cmd cmd \<longleftrightarrow> unat (cmd - SIOCIWFIRSTPRIV) < hd_num_private iw_handler_def_mon" by blast
  assume "private_cmd cmd"
  then show "evs (ioctl_private_call_jentry cmd cmds s) = evs s @
      [Log_private_args cmd cmds, Log_private_cmd cmd, Log_break (unat (cmd - SIOCIWFIRSTPRIV)) cmd, Jprobe_return]"
    by (auto simp: ioctl_private_call_jentry_def cmds_def iw_handler_def_mon_def priv_args_mon_def Let_def kdefs)
qed

end
